(* ===== verification/Prelude.thy ===== *)
theory Prelude
  imports Main "HOL-Library.AList" "HOL-Library.Sublist"
begin

text \<open>
  What every component shares: Go's error values, results of fallible calls, Go maps as
  association lists, and generic lemmas on lists and association lists. The collection
  \<open>go_simps\<close> gathers the rewriting facts that the component proofs use.
\<close>

named_theorems go_simps

section \<open>Error values\<close>

text \<open>
  A Go error is a value. Errors made by \<open>errors.New\<close>, or by \<open>fmt.Errorf\<close> without a
  wrapped error, carry their text; \<open>ErrWrap\<close> is \<open>fmt.Errorf("<text>%w", err)\<close> with
  the text already formatted; \<open>ErrJoin\<close> is \<open>errors.Join\<close>. Errors that the code compares
  by identity are constructors of their own.
\<close>

datatype goerr =
    ErrText string
  | ErrWrap string goerr
  | ErrJoin "goerr list"
  | ErrOp string goerr          \<comment> \<open>\<open>openconnect.OpError\<close>: operation and cause\<close>
  | ErrErrno int                \<comment> \<open>\<open>syscall.Errno\<close>\<close>
  | ErrNum string string string \<comment> \<open>\<open>strconv.NumError\<close>: function, input, reason\<close>
  | ErrAddr string string        \<comment> \<open>\<open>net.AddrError\<close>: reason and address\<close>
  | ErrParse string string       \<comment> \<open>\<open>net.ParseError\<close>: type and text\<close>
  | ErrCanceled                 \<comment> \<open>\<open>context.Canceled\<close>\<close>
  | ErrDeadline                 \<comment> \<open>\<open>context.DeadlineExceeded\<close>\<close>
  | ErrEOF                      \<comment> \<open>\<open>io.EOF\<close>\<close>
  | ErrShortBuffer              \<comment> \<open>\<open>io.ErrShortBuffer\<close>\<close>
  | ErrNetClosed                \<comment> \<open>\<open>net.ErrClosed\<close>\<close>
  | ErrCloseRequested           \<comment> \<open>\<open>dialer.ErrCloseRequested\<close>\<close>
  | ErrIdleTimeout              \<comment> \<open>\<open>dialer.ErrIdleTimeout\<close>\<close>

text \<open>
  \<open>errors.Join\<close> of a list of non-nil errors: nil (here \<open>None\<close>) for the empty list.
\<close>

definition errors_join :: "goerr list \<Rightarrow> goerr option" where
  "errors_join es = (if es = [] then None else Some (ErrJoin es))"

lemma errors_join_simps [simp, go_simps]:
  "errors_join [] = None"
  "errors_join (e # es) = Some (ErrJoin (e # es))"
  by (simp_all add: errors_join_def)

lemma errors_join_eq_None [simp]: "errors_join es = None \<longleftrightarrow> es = []"
  by (simp add: errors_join_def)

text \<open>A fallible call returns \<open>Inl\<close> its error or \<open>Inr\<close> its value.\<close>

type_synonym 'a res = "goerr + 'a"

definition bind_res :: "'a res \<Rightarrow> ('a \<Rightarrow> 'b res) \<Rightarrow> 'b res" where
  "bind_res r f = (case r of Inl e \<Rightarrow> Inl e | Inr x \<Rightarrow> f x)"

lemma bind_res_simps [simp, go_simps]:
  "bind_res (Inl e) f = Inl e"
  "bind_res (Inr x) f = f x"
  by (simp_all add: bind_res_def)

lemma bind_res_Inr_iff:
  "bind_res r f = Inr y \<longleftrightarrow> (\<exists>x. r = Inr x \<and> f x = Inr y)"
  by (cases r) auto

lemma bind_res_Inl_iff:
  "bind_res r f = Inl e \<longleftrightarrow> r = Inl e \<or> (\<exists>x. r = Inr x \<and> f x = Inl e)"
  by (cases r) auto

lemma bind_res_assoc: "bind_res (bind_res r f) g = bind_res r (\<lambda>x. bind_res (f x) g)"
  by (cases r) auto

text \<open>What an atomic step of a concurrent component does: it cannot run now, it panics, or it changes the state.\<close>

datatype 's outcome = Blocked | Panic | Next 's

text \<open>
  What a function did to its surroundings, in order, and the calls it has deferred: these run last first
  when it returns.
\<close>

type_synonym 'e trace = "'e list \<times> 'e list"

definition emit :: "'e list \<Rightarrow> 'e trace \<Rightarrow> 'e trace" where
  "emit es t = (fst t @ es, snd t)"

definition on_return :: "'e \<Rightarrow> 'e trace \<Rightarrow> 'e trace" where
  "on_return e t = (fst t, snd t @ [e])"

definition returned :: "'e trace \<Rightarrow> 'e list" where
  "returned t = fst t @ rev (snd t)"

lemma returned_simps [simp, go_simps]:
  "returned ([], []) = []"
  "returned (emit es (l, d)) = l @ es @ rev d"
  "returned (l, d) = l @ rev d"
  by (simp_all add: returned_def emit_def)

lemma trace_simps [simp, go_simps]:
  "emit es (l, d) = (l @ es, d)"
  "on_return e (l, d) = (l, d @ [e])"
  by (simp_all add: emit_def on_return_def)

text \<open>The events of two goroutines in one order; the schedule says whose turn it is.\<close>

fun interleave :: "bool list \<Rightarrow> 'e list \<Rightarrow> 'e list \<Rightarrow> 'e list" where
  "interleave sched [] ys = ys"
| "interleave sched (x # xs) [] = x # xs"
| "interleave [] (x # xs) (y # ys) = x # interleave [] xs (y # ys)"
| "interleave (b # sched) (x # xs) (y # ys) =
     (if b then x # interleave sched xs (y # ys) else y # interleave sched (x # xs) ys)"

lemma interleave_filter [simp, go_simps]:
  "\<forall>x \<in> set xs. P x \<Longrightarrow> \<forall>y \<in> set ys. P y \<Longrightarrow> filter P (interleave sched xs ys) = interleave sched xs ys"
  "\<forall>x \<in> set xs. \<not> P x \<Longrightarrow> filter P (interleave sched xs ys) = filter P ys"
  "\<forall>y \<in> set ys. \<not> P y \<Longrightarrow> filter P (interleave sched xs ys) = filter P xs"
  by (induction sched xs ys rule: interleave.induct) simp_all

lemma interleave_count: "length (filter P (interleave sched xs ys)) = length (filter P xs) + length (filter P ys)"
  by (induction sched xs ys rule: interleave.induct) simp_all

lemma interleave_set [simp, go_simps]: "set (interleave sched xs ys) = set xs \<union> set ys"
  by (induction sched xs ys rule: interleave.induct) auto

lemma interleave_shuffles: "interleave sched xs ys \<in> shuffles xs ys"
  by (induction sched xs ys rule: interleave.induct) (auto intro: Cons_in_shuffles_leftI Cons_in_shuffles_rightI)

section \<open>Go maps\<close>

text \<open>
  A Go map is an association list without repeated keys: \<open>map_of m k\<close> is \<open>m[k]\<close> with its
  presence flag, \<open>AList.update k v m\<close> is \<open>m[k] = v\<close>, \<open>AList.delete k m\<close> is
  \<open>delete(m, k)\<close>. Go leaves the order of \<open>range m\<close> open: an operation that iterates takes
  the sequence of entries in the order the runtime produced, any \<open>xs\<close> with \<open>range_of m xs\<close>.
\<close>

type_synonym ('k, 'v) gomap = "('k \<times> 'v) list"

definition wf_map :: "('k, 'v) gomap \<Rightarrow> bool" where
  "wf_map m \<longleftrightarrow> distinct (map fst m)"

definition range_of :: "('k, 'v) gomap \<Rightarrow> ('k \<times> 'v) list \<Rightarrow> bool" where
  "range_of m xs \<longleftrightarrow> distinct (map fst xs) \<and> map_of xs = map_of m"

lemma wf_map_Nil [simp, go_simps]: "wf_map []"
  by (simp add: wf_map_def)

lemma wf_map_update [simp, intro]: "wf_map m \<Longrightarrow> wf_map (AList.update k v m)"
  by (simp add: wf_map_def distinct_update)

lemma wf_map_delete [simp, intro]: "wf_map m \<Longrightarrow> wf_map (AList.delete k m)"
  by (simp add: wf_map_def distinct_delete)

lemma range_of_refl: "wf_map m \<Longrightarrow> range_of m m"
  by (simp add: wf_map_def range_of_def)

lemma range_of_set: "range_of m xs \<Longrightarrow> set xs = {(k, v). map_of m k = Some v}"
proof -
  assume r: "range_of m xs"
  then have "\<And>k v. (k, v) \<in> set xs \<longleftrightarrow> map_of m k = Some v"
    by (metis map_of_SomeD map_of_is_SomeI range_of_def)
  then show ?thesis by auto
qed

lemma map_of_update [go_simps]: "map_of (AList.update k v m) = (map_of m)(k \<mapsto> v)"
  by (rule update_conv')

lemma map_of_delete [go_simps]: "map_of (AList.delete k m) = (map_of m)(k := None)"
  by (rule delete_conv')

section \<open>Iterators\<close>

text \<open>
  A Go iterator hands elements to \<open>yield\<close> until that returns false. \<open>yield\<close> threads the state of
  the loop body; the flag says whether the elements ran out.
\<close>

fun yield_loop :: "('s \<Rightarrow> 'a \<Rightarrow> 's \<times> bool) \<Rightarrow> 's \<Rightarrow> 'a list \<Rightarrow> 's \<times> bool" where
  "yield_loop yield s [] = (s, True)"
| "yield_loop yield s (x # xs) =
     (let (s', go) = yield s x in if \<not> go then (s', False) else yield_loop yield s' xs)"

lemma yield_loop_append:
  "yield_loop y s (xs @ ys) = (let (s', go) = yield_loop y s xs in if go then yield_loop y s' ys else (s', False))"
  by (induction xs arbitrary: s) (auto simp: Let_def split: prod.split)

lemma yield_loop_map: "yield_loop y s (map f xs) = yield_loop (\<lambda>s x. y s (f x)) s xs"
  by (induction xs arbitrary: s) (auto simp: Let_def split: prod.split)

lemma yield_loop_take:
  "yield_loop (\<lambda>acc x. (acc @ [x], length acc + 1 < n)) acc xs =
     (acc @ take (if xs = [] then 0 else max 1 (n - length acc)) xs,
      length xs < max 1 (n - length acc) \<or> xs = [])"
proof (induction xs arbitrary: acc)
  case (Cons x xs)
  show ?case
  proof (cases "length acc + 1 < n")
    case True
    then have "max 1 (n - length acc) = Suc (max 1 (n - length (acc @ [x])))" by auto
    with True Cons [of "acc @ [x]"] show ?thesis by (cases xs) auto
  next
    case False
    then have "max 1 (n - length acc) = 1" by auto
    with False show ?thesis by simp
  qed
qed simp

section \<open>Runs\<close>

text \<open>
  A component that is used by a sequence of operations: \<open>exec\<close> is one of them, \<open>None\<close> when it panics or cannot
  happen. The components define their \<open>run\<close> by recursion; what follows from that shape is proved here, once.
\<close>

locale runs =
  fixes exec :: "'a \<Rightarrow> 's \<Rightarrow> 's option"
    and run :: "'a list \<Rightarrow> 's \<Rightarrow> 's option"
  assumes run_Nil: "run [] s = Some s"
    and run_Cons: "run (a # as) s = Option.bind (exec a s) (run as)"
begin

lemma run_append: "run (as @ bs) s = Option.bind (run as s) (run bs)"
proof (induction "as" arbitrary: s)
  case (Cons a as)
  then show ?case by (cases "exec a s") (simp_all add: run_Cons)
qed (simp add: run_Nil)

lemma run_prefix: "run (as @ bs) s = Some s' \<Longrightarrow> \<exists>s1. run as s = Some s1 \<and> run bs s1 = Some s'"
  by (auto simp: run_append bind_eq_Some_conv)

lemma run_keeps:
  assumes "\<And>a s s'. J s \<Longrightarrow> exec a s = Some s' \<Longrightarrow> J s'"
  shows "J s \<Longrightarrow> run as s = Some s' \<Longrightarrow> J s'"
  by (induction "as" arbitrary: s) (auto simp: run_Nil run_Cons bind_eq_Some_conv dest: assms)

lemma run_good_ops:
  assumes "\<And>a s. a \<in> A \<Longrightarrow> J s \<Longrightarrow> \<exists>s'. exec a s = Some s' \<and> J s'"
  shows "set as \<subseteq> A \<Longrightarrow> J s \<Longrightarrow> \<exists>s'. run as s = Some s' \<and> J s'"
proof (induction "as" arbitrary: s)
  case (Cons a as)
  then obtain s1 where "exec a s = Some s1" "J s1" using assms [of a s] by auto
  with Cons show ?case by (simp add: run_Cons)
qed (simp add: run_Nil)

end

text \<open>A component whose operations never panic where its invariant holds, and keep it.\<close>

locale safe_runs = runs exec run
  for exec :: "'a \<Rightarrow> 's \<Rightarrow> 's option" and run :: "'a list \<Rightarrow> 's \<Rightarrow> 's option" +
  fixes good :: "'s \<Rightarrow> bool"
  assumes exec_good: "good s \<Longrightarrow> \<exists>s'. exec a s = Some s' \<and> good s'"
begin

lemma run_good: "good s \<Longrightarrow> \<exists>s'. run as s = Some s' \<and> good s'"
proof (induction "as" arbitrary: s)
  case (Cons a as)
  obtain s1 where "exec a s = Some s1" "good s1" using exec_good [OF Cons.prems] by blast
  with Cons.IH show ?case by (simp add: run_Cons)
qed (simp add: run_Nil)

lemma run_returns: "good s \<Longrightarrow> run as s \<noteq> None"
  using run_good by (metis option.distinct(1))

end

text \<open>The same for steps that can also be blocked: a run stops at the first step that does.\<close>

locale guarded_runs =
  fixes exec :: "'a \<Rightarrow> 's \<Rightarrow> 's outcome"
    and run :: "'a list \<Rightarrow> 's \<Rightarrow> 's outcome"
  assumes run_Nil: "run [] s = Next s"
    and run_Cons: "run (a # as) s = (case exec a s of Next s' \<Rightarrow> run as s' | r \<Rightarrow> r)"
begin

lemma run_keeps:
  assumes "\<And>a s s'. a \<in> A \<Longrightarrow> J s \<Longrightarrow> exec a s = Next s' \<Longrightarrow> J s'"
  shows "set as \<subseteq> A \<Longrightarrow> J s \<Longrightarrow> run as s = Next s' \<Longrightarrow> J s'"
proof (induction "as" arbitrary: s)
  case (Cons a as)
  then obtain s1 where "exec a s = Next s1" "run as s1 = Next s'" by (auto simp: run_Cons split: outcome.splits)
  moreover from this(1) have "J s1" using assms Cons.prems(1,2) by (metis list.set_intros(1) subsetD)
  ultimately show ?case using Cons.IH Cons.prems(1) by simp
qed (simp add: run_Nil)

lemma run_no_panic:
  assumes "\<And>a s. J s \<Longrightarrow> exec a s \<noteq> Panic" and "\<And>a s s'. J s \<Longrightarrow> exec a s = Next s' \<Longrightarrow> J s'"
  shows "J s \<Longrightarrow> run as s \<noteq> Panic"
proof (induction "as" arbitrary: s)
  case (Cons a as)
  then show ?case using assms(1) [of s a] assms(2) [of s a] by (auto simp: run_Cons split: outcome.split)
qed (simp add: run_Nil)

end

section \<open>Simulations\<close>

text \<open>
  A concrete system simulates an abstract one when every step of it can be followed. What is reached
  is then related to something that the abstract system reaches.
\<close>

locale simulation =
  fixes cstart :: 's and cstep :: "'s \<Rightarrow> 's \<Rightarrow> bool"
    and astart :: 't and astep :: "'t \<Rightarrow> 't \<Rightarrow> bool"
    and rel :: "'s \<Rightarrow> 't \<Rightarrow> bool"
  assumes rel_start: "rel cstart astart"
    and rel_step: "rel c a \<Longrightarrow> cstep c c' \<Longrightarrow> \<exists>a'. astep a a' \<and> rel c' a'"
begin

lemma rel_reach: "rtranclp cstep cstart c \<Longrightarrow> \<exists>a. rtranclp astep astart a \<and> rel c a"
proof (induction rule: rtranclp_induct)
  case base
  show ?case using rel_start by blast
next
  case (step c c')
  then show ?case using rel_step by (meson rtranclp.rtrancl_into_rtrancl)
qed

text \<open>An invariant of the specification holds of what a concrete state stands for.\<close>

lemma abstract_inv:
  assumes "rtranclp cstep cstart c" and "J astart" and "\<And>a a'. J a \<Longrightarrow> astep a a' \<Longrightarrow> J a'"
  shows "\<exists>a. J a \<and> rel c a"
proof -
  obtain a where "rtranclp astep astart a" "rel c a" using rel_reach [OF assms(1)] by blast
  moreover have "J a" using \<open>rtranclp astep astart a\<close> by (induction rule: rtranclp_induct) (use assms(2,3) in auto)
  ultimately show ?thesis by blast
qed

end

section \<open>Lists\<close>

lemma find_None_filter: "find P xs = None \<longleftrightarrow> filter P xs = []"
  by (auto simp: find_None_iff filter_empty_conv)

lemma find_append: "find P (xs @ ys) = (case find P xs of None \<Rightarrow> find P ys | Some x \<Rightarrow> Some x)"
  by (induction xs) auto

lemma find_filter_neq: "\<not> P m \<Longrightarrow> find P (filter (\<lambda>x. x \<noteq> m) xs) = find P xs"
  by (induction xs) auto

lemma find_Some_split:
  "find P xs = Some e \<Longrightarrow> \<exists>us vs. xs = us @ e # vs \<and> (\<forall>x \<in> set us. \<not> P x) \<and> P e"
proof (induction xs)
  case (Cons x xs)
  show ?case
  proof (cases "P x")
    case True
    with Cons.prems show ?thesis by (intro exI [of _ "[]"] exI [of _ xs]) auto
  next
    case False
    with Cons obtain us vs where "xs = us @ e # vs" "\<forall>x \<in> set us. \<not> P x" "P e" by auto
    with False show ?thesis by (intro exI [of _ "x # us"] exI [of _ vs]) auto
  qed
qed simp

lemma drop_eq_Cons_nth: "i < length xs \<Longrightarrow> drop i xs = xs ! i # drop (Suc i) xs"
  by (rule Cons_nth_drop_Suc [symmetric])

lemma takeWhile_dropWhile_neq_Nil:
  "dropWhile P xs = y # ys \<Longrightarrow> \<not> P y"
  using hd_dropWhile by (metis list.discI list.sel(1))

text \<open>Cutting a list at the first occurrence of an element.\<close>

lemma cut_at:
  "c \<notin> set g \<Longrightarrow> takeWhile (\<lambda>x. x \<noteq> c) (g @ c # r) = g"
  "c \<notin> set g \<Longrightarrow> dropWhile (\<lambda>x. x \<noteq> c) (g @ c # r) = c # r"
  by (induction g) auto

text \<open>The part of a list before the first occurrence of an element is unique.\<close>

lemma before_first_unique:
  "us @ e # vs = us' @ e # vs' \<Longrightarrow> e \<notin> set us \<Longrightarrow> e \<notin> set us' \<Longrightarrow> us = us'"
proof (induction us arbitrary: us')
  case Nil
  then show ?case by (cases us') auto
next
  case (Cons u us)
  then show ?case by (cases us') auto
qed

end
