(* ===== verification/GoStrings.thy ===== *)
theory GoStrings
  imports Prelude
begin

text \<open>
  The parts of Go's \<open>strings\<close> and \<open>strconv\<close> packages that the program uses, on byte strings:
  a Go string is a sequence of bytes, and so is an Isabelle \<open>string\<close>. Splitting and joining,
  trimming, lower-casing, prefixes and suffixes, decimal numbers; round trips of split/join and
  of decimal printing/parsing.
\<close>

section \<open>Bytes\<close>

abbreviation byte_of :: "char \<Rightarrow> nat" where
  "byte_of c \<equiv> of_char c"

abbreviation char_at :: "nat \<Rightarrow> char" where
  "char_at n \<equiv> char_of n"

definition ascii_string :: "string \<Rightarrow> bool" where
  "ascii_string s \<longleftrightarrow> list_all (\<lambda>c. byte_of c < 128) s"

definition is_digit :: "char \<Rightarrow> bool" where
  "is_digit c \<longleftrightarrow> 48 \<le> byte_of c \<and> byte_of c \<le> 57"

definition digit_val :: "char \<Rightarrow> nat" where
  "digit_val c = byte_of c - 48"

definition digit_char :: "nat \<Rightarrow> char" where
  "digit_char d = char_of (48 + d)"

lemma byte_of_digit_char: "d < 10 \<Longrightarrow> byte_of (digit_char d) = 48 + d"
  by (simp add: digit_char_def)

lemma is_digit_digit_char [simp]: "d < 10 \<Longrightarrow> is_digit (digit_char d)"
  by (simp add: is_digit_def byte_of_digit_char)

lemma digit_val_digit_char [simp]: "d < 10 \<Longrightarrow> digit_val (digit_char d) = d"
  by (simp add: digit_val_def byte_of_digit_char)

section \<open>Prefixes and suffixes\<close>

text \<open>\<open>strings.HasPrefix\<close>, \<open>strings.CutPrefix\<close>, \<open>strings.CutSuffix\<close>, \<open>strings.TrimPrefix\<close>.\<close>

definition has_prefix :: "string \<Rightarrow> string \<Rightarrow> bool" where
  "has_prefix s p \<longleftrightarrow> take (length p) s = p"

definition cut_prefix :: "string \<Rightarrow> string \<Rightarrow> string \<times> bool" where
  "cut_prefix s p = (if has_prefix s p then (drop (length p) s, True) else (s, False))"

definition cut_suffix :: "string \<Rightarrow> string \<Rightarrow> string \<times> bool" where
  "cut_suffix s p =
     (if length p \<le> length s \<and> drop (length s - length p) s = p
      then (take (length s - length p) s, True) else (s, False))"

text \<open>\<open>strings.ReplaceAll\<close> with a non-empty pattern.\<close>

function replace_all :: "string \<Rightarrow> string \<Rightarrow> string \<Rightarrow> string" where
  "replace_all s old new =
     (if s = [] \<or> old = [] then s
      else if has_prefix s old then new @ replace_all (drop (length old) s) old new
      else hd s # replace_all (tl s) old new)"
  by pat_completeness auto
termination
  by (relation "measure (\<lambda>(s, old, new). length s)") auto

declare replace_all.simps [simp del]

definition trim_prefix :: "string \<Rightarrow> string \<Rightarrow> string" where
  "trim_prefix s p = fst (cut_prefix s p)"

lemma has_prefix_iff: "has_prefix s p \<longleftrightarrow> (\<exists>r. s = p @ r)"
  unfolding has_prefix_def by (metis append_eq_conv_conj append_take_drop_id)

lemma has_prefix_append [simp]: "has_prefix (p @ r) p"
  by (simp add: has_prefix_def)

lemma cut_prefix_append [simp]: "cut_prefix (p @ r) p = (r, True)"
  by (simp add: cut_prefix_def)

lemma cut_prefix_True_iff: "cut_prefix s p = (r, True) \<longleftrightarrow> s = p @ r"
  by (auto simp: cut_prefix_def has_prefix_iff)

lemma cut_suffix_append [simp]: "cut_suffix (r @ p) p = (r, True)"
  by (simp add: cut_suffix_def)

lemma cut_suffix_True_iff: "cut_suffix s p = (r, True) \<longleftrightarrow> s = r @ p"
proof
  assume "cut_suffix s p = (r, True)"
  then show "s = r @ p"
    by (auto simp: cut_suffix_def split: if_splits) (metis append_take_drop_id)
qed simp

section \<open>Splitting and joining\<close>

text \<open>\<open>strings.Split(s, string(c))\<close> for a one-byte separator, and \<open>strings.Join\<close>.\<close>

fun split_on :: "char \<Rightarrow> string \<Rightarrow> string list" where
  "split_on c [] = [[]]"
| "split_on c (x # xs) =
     (if x = c then [] # split_on c xs
      else (case split_on c xs of [] \<Rightarrow> [[x]] | y # ys \<Rightarrow> (x # y) # ys))"

fun join :: "string \<Rightarrow> string list \<Rightarrow> string" where
  "join sep [] = []"
| "join sep [x] = x"
| "join sep (x # y # zs) = x @ sep @ join sep (y # zs)"

lemma split_on_neq_Nil [simp]: "split_on c s \<noteq> []"
  by (cases s) (auto split: list.split)

lemma join_Cons: "xs \<noteq> [] \<Longrightarrow> join sep (x # xs) = x @ sep @ join sep xs"
  by (cases xs) auto

lemma join_split_on [simp]: "join [c] (split_on c s) = s"
proof (induction s)
  case (Cons x xs)
  show ?case
  proof (cases "x = c")
    case True
    with Cons show ?thesis by (simp add: join_Cons)
  next
    case False
    obtain y ys where sp: "split_on c xs = y # ys"
      by (cases "split_on c xs") auto
    with Cons False show ?thesis by (cases ys) auto
  qed
qed simp

lemma split_on_no_sep: "c \<notin> set s \<Longrightarrow> split_on c s = [s]"
  by (induction s) auto

lemma split_on_labels: "l \<in> set (split_on c s) \<Longrightarrow> c \<notin> set l"
proof (induction s arbitrary: l)
  case (Cons x xs)
  then show ?case by (auto split: if_splits list.splits)
qed simp

lemma split_on_at: "split_on c (s @ [c] @ t) = split_on c s @ split_on c t"
  by (induction s) (auto split: list.split)

lemma split_on_append: "c \<notin> set l \<Longrightarrow> split_on c (l @ c # s) = l # split_on c s"
  by (induction l) auto

lemma split_on_join:
  "ls \<noteq> [] \<Longrightarrow> (\<And>l. l \<in> set ls \<Longrightarrow> c \<notin> set l) \<Longrightarrow> split_on c (join [c] ls) = ls"
proof (induction ls)
  case (Cons l ls)
  show ?case
  proof (cases ls)
    case Nil
    with Cons.prems show ?thesis by (simp add: split_on_no_sep)
  next
    case (Cons l' ls')
    with Cons.prems Cons.IH show ?thesis by (simp add: split_on_append)
  qed
qed simp

lemma split_on_inject: "split_on c s = split_on c t \<Longrightarrow> s = t"
  by (metis join_split_on)

text \<open>
  Cutting the joined string after the first \<open>i\<close> labels and their separators leaves the join of
  the rest: the arithmetic behind \<open>host[offset:]\<close> in \<open>trie.Zone.Match\<close>.
\<close>

lemma join_drop:
  "i < length ls \<Longrightarrow>
     drop (sum_list (map (\<lambda>l. length l + 1) (take i ls))) (join [c] ls) = join [c] (drop i ls)"
proof (induction ls arbitrary: i)
  case (Cons l ls)
  show ?case
  proof (cases i)
    case (Suc j)
    with Cons.prems have "ls \<noteq> []" and "j < length ls" by auto
    with Cons.IH [of j] Suc show ?thesis by (simp add: join_Cons)
  qed simp
qed simp

lemma join_offset_le:
  "i < length ls \<Longrightarrow> sum_list (map (\<lambda>l. length l + 1) (take i ls)) \<le> length (join [c] ls)"
proof (induction ls arbitrary: i)
  case (Cons l ls)
  show ?case
  proof (cases i)
    case (Suc j)
    with Cons.prems have "ls \<noteq> []" and "j < length ls" by auto
    with Cons.IH [of j] Suc show ?thesis by (simp add: join_Cons)
  qed simp
qed simp

section \<open>Trimming and lower-casing\<close>

text \<open>
  The UTF-8 encodings of the code points for which \<open>unicode.IsSpace\<close> holds.
  \<open>strings.TrimSpace\<close> removes them from both ends; no encoding is a proper prefix or suffix of
  another, so comparing bytes at either end is what decoding the rune there does.
\<close>

definition space_runes :: "string list" where
  "space_runes = map (map char_of)
     ([[9], [10], [11], [12], [13], [32], [194, 133], [194, 160], [225, 154, 128]] @
      map (\<lambda>b. [226, 128, b]) [128..<139] @
      [[226, 128, 168], [226, 128, 169], [226, 128, 175], [226, 129, 159], [227, 128, 128]] :: nat list list)"

definition lead_space :: "string \<Rightarrow> nat" where
  "lead_space s = (case find (\<lambda>r. take (length r) s = r) space_runes of
     None \<Rightarrow> 0 | Some r \<Rightarrow> length r)"

definition trail_space :: "string \<Rightarrow> nat" where
  "trail_space s = (case find (\<lambda>r. length r \<le> length s \<and> drop (length s - length r) s = r) space_runes of
     None \<Rightarrow> 0 | Some r \<Rightarrow> length r)"

lemma lead_space_le: "lead_space s \<le> length s"
  by (auto simp: lead_space_def find_Some_iff split: option.split)
    (metis length_take min.cobounded1 min.commute)

lemma trail_space_le: "trail_space s \<le> length s"
  by (auto simp: trail_space_def find_Some_iff split: option.split)

function trim_left :: "string \<Rightarrow> string" where
  "trim_left s = (if lead_space s = 0 then s else trim_left (drop (lead_space s) s))"
  by pat_completeness auto
termination
proof (relation "measure length")
  fix s assume "lead_space s \<noteq> 0"
  with lead_space_le [of s] show "(drop (lead_space s) s, s) \<in> measure length" by auto
qed simp

function trim_right :: "string \<Rightarrow> string" where
  "trim_right s = (if trail_space s = 0 then s else trim_right (take (length s - trail_space s) s))"
  by pat_completeness auto
termination
proof (relation "measure length")
  fix s assume "trail_space s \<noteq> 0"
  with trail_space_le [of s] show "(take (length s - trail_space s) s, s) \<in> measure length" by auto
qed simp

declare trim_left.simps [simp del] trim_right.simps [simp del]

definition trim_space :: "string \<Rightarrow> string" where
  "trim_space s = trim_right (trim_left s)"

lemma space_runes_bytes:
  "list_all (\<lambda>r. r \<noteq> [] \<and> list_all (\<lambda>c. byte_of c < 33 \<or> 128 \<le> byte_of c) r) space_runes"
  by code_simp

text \<open>Text without white space is not trimmed.\<close>

lemma trim_space_graphic:
  assumes "list_all (\<lambda>c. 33 \<le> byte_of c \<and> byte_of c < 128) s"
  shows "trim_space s = s"
proof -
  have no: "r \<notin> set space_runes" if "r = take n s \<or> r = drop n s" for r n
  proof
    assume r: "r \<in> set space_runes"
    then have ne: "r \<noteq> []" and out: "\<forall>c \<in> set r. byte_of c < 33 \<or> 128 \<le> byte_of c"
      using space_runes_bytes by (auto simp: list_all_iff)
    from that have "set r \<subseteq> set s" using set_take_subset set_drop_subset by metis
    moreover from ne obtain c where "c \<in> set r" by (cases r) auto
    ultimately have "c \<in> set s" "byte_of c < 33 \<or> 128 \<le> byte_of c" using out by auto
    with assms show False unfolding list_all_iff by (metis not_less)
  qed
  have "lead_space s = 0"
    using no by (auto simp: lead_space_def find_None_iff find_Some_iff split: option.split) (metis nth_mem)
  moreover have "trail_space s = 0"
    using no by (auto simp: trail_space_def find_None_iff find_Some_iff split: option.split) (metis nth_mem)
  ultimately show ?thesis
    by (simp add: trim_space_def trim_left.simps [of s] trim_right.simps [of s])
qed

text \<open>
  \<open>strings.ToLower\<close>: exact on ASCII strings. A string with a byte outside ASCII goes through
  Go's Unicode tables, which the model takes as the parameter \<open>ul\<close>.
\<close>

definition lower_char :: "char \<Rightarrow> char" where
  "lower_char c = (if 65 \<le> byte_of c \<and> byte_of c \<le> 90 then char_of (byte_of c + 32) else c)"

definition to_lower :: "(string \<Rightarrow> string) \<Rightarrow> string \<Rightarrow> string" where
  "to_lower ul s = (if ascii_string s then map lower_char s else ul s)"

definition upper_char :: "char \<Rightarrow> char" where
  "upper_char c = (if 97 \<le> byte_of c \<and> byte_of c \<le> 122 then char_of (byte_of c - 32) else c)"

definition to_upper :: "(string \<Rightarrow> string) \<Rightarrow> string \<Rightarrow> string" where
  "to_upper uu s = (if ascii_string s then map upper_char s else uu s)"

lemma byte_of_lower_char:
  "byte_of (lower_char c) = (if 65 \<le> byte_of c \<and> byte_of c \<le> 90 then byte_of c + 32 else byte_of c)"
  by (simp add: lower_char_def)

lemma lower_char_idem [simp]: "lower_char (lower_char c) = lower_char c"
  by (simp add: lower_char_def)

lemma ascii_map_lower: "ascii_string s \<Longrightarrow> ascii_string (map lower_char s)"
  by (auto simp: ascii_string_def list_all_iff byte_of_lower_char)

lemma to_lower_idem: "ascii_string s \<Longrightarrow> to_lower ul (to_lower ul s) = to_lower ul s"
  by (simp add: to_lower_def ascii_map_lower o_def)

section \<open>Decimal numbers\<close>

text \<open>\<open>strconv.Itoa\<close> and \<open>strconv.FormatInt(_, 10)\<close>.\<close>

fun nat_digits :: "nat \<Rightarrow> string" where
  "nat_digits n = (if n < 10 then [digit_char n] else nat_digits (n div 10) @ [digit_char (n mod 10)])"

declare nat_digits.simps [simp del]

definition format_int :: "int \<Rightarrow> string" where
  "format_int i = (if i < 0 then CHR ''-'' # nat_digits (nat (- i)) else nat_digits (nat i))"

text \<open>The value of a digit string, the loop \<open>n = n*10 + digit\<close>.\<close>

definition digits_val :: "string \<Rightarrow> nat" where
  "digits_val s = foldl (\<lambda>n c. n * 10 + digit_val c) 0 s"

text \<open>
  \<open>strconv.ParseUint(s, 10, bits)\<close>: digits only, at least one, value below \<open>2 ^ bits\<close>. With base
  10 given explicitly an underscore is a syntax error.
\<close>

definition parse_uint :: "nat \<Rightarrow> string \<Rightarrow> nat res" where
  "parse_uint bits s =
     (if s = [] \<or> \<not> list_all is_digit s then Inl (ErrNum ''ParseUint'' s ''invalid syntax'')
      else if 2 ^ bits \<le> digits_val s then Inl (ErrNum ''ParseUint'' s ''value out of range'')
      else Inr (digits_val s))"

text \<open>\<open>strconv.ParseInt(s, 10, bits)\<close>: an optional sign, then digits; range \<open>-2^(bits-1) .. 2^(bits-1)-1\<close>.\<close>

definition split_sign :: "string \<Rightarrow> bool \<times> string" where
  "split_sign s = (case s of [] \<Rightarrow> (False, [])
     | c # r \<Rightarrow> if c = CHR ''+'' then (False, r) else if c = CHR ''-'' then (True, r) else (False, s))"

definition parse_int_as :: "string \<Rightarrow> nat \<Rightarrow> string \<Rightarrow> int res" where
  "parse_int_as fn bits s =
     (let (neg, r) = split_sign s in
      if r = [] \<or> \<not> list_all is_digit r then Inl (ErrNum fn s ''invalid syntax'')
      else if \<not> neg \<and> 2 ^ (bits - 1) \<le> digits_val r then Inl (ErrNum fn s ''value out of range'')
      else if neg \<and> 2 ^ (bits - 1) < digits_val r then Inl (ErrNum fn s ''value out of range'')
      else Inr (if neg then - int (digits_val r) else int (digits_val r)))"

definition parse_int :: "nat \<Rightarrow> string \<Rightarrow> int res" where
  "parse_int bits s = parse_int_as ''ParseInt'' bits s"

text \<open>\<open>strconv.Atoi\<close> is \<open>ParseInt(s, 10, 0)\<close> under its own name; \<open>int\<close> has 64 bits.\<close>

definition atoi :: "string \<Rightarrow> int res" where
  "atoi s = parse_int_as ''Atoi'' 64 s"

lemma nat_digits_neq_Nil [simp]: "nat_digits n \<noteq> []"
  by (subst nat_digits.simps) simp

lemma nat_digits_all_digits: "list_all is_digit (nat_digits n)"
proof (induction n rule: nat_digits.induct)
  case (1 n)
  show ?case
  proof (cases "n < 10")
    case False
    with 1 have "list_all is_digit (nat_digits (n div 10))" by simp
    with False show ?thesis by (subst nat_digits.simps) simp
  qed (subst nat_digits.simps, simp)
qed

lemma digits_val_snoc [simp]: "digits_val (s @ [c]) = digits_val s * 10 + digit_val c"
  by (simp add: digits_val_def)

lemma digits_val_nat_digits [simp]: "digits_val (nat_digits n) = n"
proof (induction n rule: nat_digits.induct)
  case (1 n)
  show ?case
  proof (cases "n < 10")
    case True
    then show ?thesis by (subst nat_digits.simps) (simp add: digits_val_def)
  next
    case False
    with 1 have "digits_val (nat_digits (n div 10)) = n div 10" by simp
    with False show ?thesis by (subst nat_digits.simps) simp
  qed
qed

lemma nat_digits_inject: "nat_digits m = nat_digits n \<Longrightarrow> m = n"
  by (metis digits_val_nat_digits)

lemma parse_uint_nat_digits: "n < 2 ^ bits \<Longrightarrow> parse_uint bits (nat_digits n) = Inr n"
  by (simp add: parse_uint_def nat_digits_all_digits)

lemma parse_uint_bound: "parse_uint bits s = Inr n \<Longrightarrow> n < 2 ^ bits"
  by (auto simp: parse_uint_def split: if_splits)

lemma hd_nat_digits_is_digit: "is_digit (hd (nat_digits n))"
  using nat_digits_all_digits [of n] nat_digits_neq_Nil [of n]
  by (cases "nat_digits n") (auto simp del: nat_digits_neq_Nil)

lemma split_sign_digits: "s \<noteq> [] \<Longrightarrow> is_digit (hd s) \<Longrightarrow> split_sign s = (False, s)"
  by (cases s) (auto simp: split_sign_def is_digit_def)

lemma split_sign_minus: "split_sign (CHR ''-'' # r) = (True, r)"
  by (simp add: split_sign_def)

lemma parse_int_format_int:
  assumes lo: "- (2 ^ (bits - 1)) \<le> i" and hi: "i < 2 ^ (bits - 1)"
  shows "parse_int bits (format_int i) = Inr i"
proof (cases "i < 0")
  case True
  with lo have "nat (- i) \<le> 2 ^ (bits - 1)"
    by (simp add: nat_le_iff)
  with True show ?thesis
    by (simp add: format_int_def parse_int_def parse_int_as_def split_sign_minus nat_digits_all_digits)
next
  case False
  with hi have "nat i < 2 ^ (bits - 1)"
    by (simp add: nat_less_iff)
  with False show ?thesis
    by (simp add: format_int_def parse_int_def parse_int_as_def split_sign_digits hd_nat_digits_is_digit
        nat_digits_all_digits)
qed

lemma parse_int_bound:
  "parse_int bits s = Inr i \<Longrightarrow> - (2 ^ (bits - 1)) \<le> i \<and> i < 2 ^ (bits - 1)"
proof -
  assume r: "parse_int bits s = Inr i"
  obtain neg r where sg: "split_sign s = (neg, r)" by fastforce
  have pos: "(0::int) < 2 ^ (bits - 1)" by simp
  let ?n = "digits_val r"
  have bounds: "- int ?n < 2 ^ (bits - 1)" "- (2 ^ (bits - 1)) \<le> int ?n"
    using pos by (linarith, linarith)
  have conv: "?n \<le> 2 ^ (bits - 1) \<longleftrightarrow> int ?n \<le> 2 ^ (bits - 1)"
    "?n < 2 ^ (bits - 1) \<longleftrightarrow> int ?n < 2 ^ (bits - 1)"
    by (metis of_nat_le_iff of_nat_numeral of_nat_power, metis of_nat_less_iff of_nat_numeral of_nat_power)
  show ?thesis
  proof (cases neg)
    case True
    with r sg have "i = - int ?n" and "?n \<le> 2 ^ (bits - 1)"
      by (auto simp: parse_int_def parse_int_as_def split: if_splits)
    with bounds conv show ?thesis by simp
  next
    case False
    with r sg have "i = int ?n" and "?n < 2 ^ (bits - 1)"
      by (auto simp: parse_int_def parse_int_as_def split: if_splits)
    with bounds conv show ?thesis by simp
  qed
qed

section \<open>Printing and parsing as a pair\<close>

text \<open>
  A value type with a printer and a parser that reads back what was printed on a set of values:
  printing is then injective on that set, and a parser result is determined by the text.
\<close>

locale text_codec =
  fixes print :: "'a \<Rightarrow> string"
    and parse :: "string \<Rightarrow> 'a res"
    and ok :: "'a \<Rightarrow> bool"
  assumes parse_print: "ok x \<Longrightarrow> parse (print x) = Inr x"
begin

lemma print_inject: "ok x \<Longrightarrow> ok y \<Longrightarrow> print x = print y \<Longrightarrow> x = y"
  using parse_print by (metis sum.inject(2))

lemma print_parses: "ok x \<Longrightarrow> \<exists>y. parse (print x) = Inr y \<and> ok y"
  using parse_print by blast

end

interpretation int64_codec: text_codec format_int "parse_int 64"
  "\<lambda>i. - (2 ^ 63) \<le> i \<and> i < 2 ^ 63"
  by unfold_locales (auto intro!: parse_int_format_int)

interpretation uint32_codec: text_codec nat_digits "parse_uint 32" "\<lambda>n. n < 2 ^ 32"
  by unfold_locales (rule parse_uint_nat_digits)

end
