(* ===== verification/NetAddr.thy ===== *)
theory NetAddr
  imports GoStrings "HOL-Library.Word"
begin

unbundle bit_operations_syntax

text \<open>
  Addresses: the parts of Go's \<open>net\<close> and \<open>net/netip\<close> packages that the program uses
  (\<open>SplitHostPort\<close>, \<open>JoinHostPort\<close>, \<open>ParseIP\<close>, \<open>ParseCIDR\<close>, \<open>IPMask.Size\<close>, \<open>IPNet.Contains\<close>,
  the printers), and \<open>netutil.HostPort\<close> (\<open>pkg/netutil/encoding.go\<close>). The lemmas: a joined
  address splits back, \<open>HostPort\<close> is a normal form, a CIDR mask has the size it was made with,
  a printed IPv4 address parses back.
\<close>

type_synonym byte = "8 word"

section \<open>host:port strings\<close>

fun index_of :: "char \<Rightarrow> string \<Rightarrow> nat option" where
  "index_of c [] = None"
| "index_of c (x # xs) = (if x = c then Some 0 else map_option Suc (index_of c xs))"

definition last_index_of :: "char \<Rightarrow> string \<Rightarrow> nat option" where
  "last_index_of c s = map_option (\<lambda>i. length s - 1 - i) (index_of c (rev s))"

text \<open>The tail of \<open>net.SplitHostPort\<close>: stray brackets after positions \<open>j\<close> and \<open>k\<close>.\<close>

definition split_finish :: "string \<Rightarrow> nat \<Rightarrow> string \<Rightarrow> nat \<Rightarrow> nat \<Rightarrow> (string \<times> string) res" where
  "split_finish s i host j k =
     (if CHR ''['' \<in> set (drop j s) then Inl (ErrAddr ''unexpected '[' in address'' s)
      else if CHR '']'' \<in> set (drop k s) then Inl (ErrAddr ''unexpected ']' in address'' s)
      else Inr (host, drop (i + 1) s))"

definition split_host_port :: "string \<Rightarrow> (string \<times> string) res" where
  "split_host_port s =
     (case last_index_of CHR '':'' s of
        None \<Rightarrow> Inl (ErrAddr ''missing port in address'' s)
      | Some i \<Rightarrow>
          if s ! 0 = CHR ''['' then
            (case index_of CHR '']'' s of
               None \<Rightarrow> Inl (ErrAddr ''missing ']' in address'' s)
             | Some e \<Rightarrow>
                 if e + 1 = length s then Inl (ErrAddr ''missing port in address'' s)
                 else if e + 1 = i then split_finish s i (take (e - 1) (drop 1 s)) 1 (e + 1)
                 else if s ! (e + 1) = CHR '':'' then Inl (ErrAddr ''too many colons in address'' s)
                 else Inl (ErrAddr ''missing port in address'' s))
          else if CHR '':'' \<in> set (take i s) then Inl (ErrAddr ''too many colons in address'' s)
          else split_finish s i (take i s) 0 0)"

definition join_host_port :: "string \<Rightarrow> string \<Rightarrow> string" where
  "join_host_port host port =
     (if CHR '':'' \<in> set host then ''['' @ host @ '']:'' @ port else host @ '':'' @ port)"

lemma index_of_None_iff: "index_of c s = None \<longleftrightarrow> c \<notin> set s"
  by (induction s) auto

lemma index_of_append_notin: "c \<notin> set s \<Longrightarrow> index_of c (s @ c # t) = Some (length s)"
  by (induction s) auto

lemma index_of_Some:
  "index_of c s = Some i \<longleftrightarrow> i < length s \<and> s ! i = c \<and> c \<notin> set (take i s)"
proof (induction s arbitrary: i)
  case (Cons x xs)
  then show ?case by (cases i) auto
qed simp

lemma last_index_of_append: "c \<notin> set t \<Longrightarrow> last_index_of c (s @ c # t) = Some (length s)"
  by (simp add: last_index_of_def index_of_append_notin [of c "rev t" "rev s"])

lemma last_index_of_Some:
  "last_index_of c s = Some i \<Longrightarrow> i < length s \<and> s ! i = c \<and> c \<notin> set (drop (Suc i) s)"
proof -
  assume "last_index_of c s = Some i"
  then obtain k where k: "index_of c (rev s) = Some k" and i: "i = length s - 1 - k"
    by (auto simp: last_index_of_def)
  from k have lt: "k < length s" and nth: "rev s ! k = c" and nin: "c \<notin> set (take k (rev s))"
    by (auto simp: index_of_Some)
  from lt i have "k = length s - Suc i" and "i < length s" by auto
  with nth nin show ?thesis by (auto simp: rev_nth take_rev)
qed

lemma last_index_of_None_iff: "last_index_of c s = None \<longleftrightarrow> c \<notin> set s"
  by (simp add: last_index_of_def index_of_None_iff)

text \<open>The hosts and ports that \<open>SplitHostPort\<close> can return.\<close>

definition host_port_ok :: "string \<times> string \<Rightarrow> bool" where
  "host_port_ok hp \<longleftrightarrow>
     CHR ''['' \<notin> set (fst hp) \<and> CHR '']'' \<notin> set (fst hp) \<and>
     CHR '':'' \<notin> set (snd hp) \<and> CHR ''['' \<notin> set (snd hp) \<and> CHR '']'' \<notin> set (snd hp)"

lemma split_join_host_port:
  assumes "host_port_ok (host, port)"
  shows "split_host_port (join_host_port host port) = Inr (host, port)"
proof (cases "CHR '':'' \<in> set host")
  case True
  let ?s = "''['' @ host @ '']:'' @ port"
  from assms have li: "last_index_of CHR '':'' ?s = Some (length host + 2)"
    using last_index_of_append [of "CHR '':''" port "''['' @ host @ '']''"]
    by (simp add: host_port_ok_def)
  from assms have ie: "index_of CHR '']'' ?s = Some (length host + 1)"
    using index_of_append_notin [of "CHR '']''" "''['' @ host" "'':'' @ port"]
    by (simp add: host_port_ok_def)
  from True assms show ?thesis
    unfolding join_host_port_def split_host_port_def
    using li ie by (simp add: split_finish_def host_port_ok_def)
next
  case False
  let ?s = "host @ '':'' @ port"
  from assms have li: "last_index_of CHR '':'' ?s = Some (length host)"
    using last_index_of_append [of "CHR '':''" port host] by (simp add: host_port_ok_def)
  have "?s ! 0 \<noteq> CHR ''[''"
    using assms by (cases host) (auto simp: host_port_ok_def)
  with False assms show ?thesis
    unfolding join_host_port_def split_host_port_def
    using li by (simp add: split_finish_def host_port_ok_def)
qed

lemma split_host_port_ok:
  assumes "split_host_port s = Inr hp"
  shows "host_port_ok hp"
proof -
  from assms obtain i where i: "last_index_of CHR '':'' s = Some i"
    by (auto simp: split_host_port_def split: option.splits)
  then have il: "i < length s" and port: "CHR '':'' \<notin> set (drop (Suc i) s)"
    by (auto dest: last_index_of_Some)
  show ?thesis
  proof (cases "s ! 0 = CHR ''[''")
    case True
    with assms i obtain e where e: "index_of CHR '']'' s = Some e" and ei: "i = e + 1"
      and hp: "hp = (take (e - 1) (drop 1 s), drop (i + 1) s)"
      and br: "CHR ''['' \<notin> set (drop 1 s)" "CHR '']'' \<notin> set (drop i s)"
      by (auto simp: split_host_port_def split_finish_def split: option.splits if_splits)
    from e have "CHR '']'' \<notin> set (take e s)" by (simp add: index_of_Some)
    moreover have "set (take (e - 1) (drop 1 s)) \<subseteq> set (take e s)"
      by (cases s; cases e) auto
    moreover have "set (drop (i + 1) s) \<subseteq> set (drop i s)" "set (drop (i + 1) s) \<subseteq> set (drop 1 s)"
      by (simp_all add: set_drop_subset_set_drop)
    moreover have "set (take (e - 1) (drop 1 s)) \<subseteq> set (drop 1 s)"
      by (rule set_take_subset)
    ultimately show ?thesis
      using hp br port by (auto simp: host_port_ok_def)
  next
    case False
    with assms i have hp: "hp = (take i s, drop (i + 1) s)"
      and br: "CHR ''['' \<notin> set s" "CHR '']'' \<notin> set s"
      by (auto simp: split_host_port_def split_finish_def split: option.splits if_splits)
    with port show ?thesis
      by (auto simp: host_port_ok_def dest: in_set_takeD in_set_dropD)
  qed
qed

text \<open>\<open>netutil.HostPort.UnmarshalText\<close> and \<open>HostPort.String\<close> (a nil receiver prints nothing).\<close>

definition host_port_unmarshal :: "string \<Rightarrow> string res" where
  "host_port_unmarshal address =
     (case split_host_port address of
        Inl err \<Rightarrow> Inl (ErrWrap ''invalid host:port format: '' err)
      | Inr (host, port) \<Rightarrow> Inr (join_host_port host port))"

definition host_port_string :: "string option \<Rightarrow> string" where
  "host_port_string hp = (case hp of None \<Rightarrow> [] | Some s \<Rightarrow> s)"

interpretation host_port_codec: text_codec "\<lambda>(h, p). join_host_port h p" split_host_port host_port_ok
  by unfold_locales (auto intro: split_join_host_port)

lemma host_port_unmarshal_normal:
  assumes "host_port_unmarshal s = Inr t"
  shows "host_port_unmarshal t = Inr t"
proof -
  from assms obtain h p where sp: "split_host_port s = Inr (h, p)" and t: "t = join_host_port h p"
    by (auto simp: host_port_unmarshal_def split: sum.splits)
  from sp have "host_port_ok (h, p)" by (rule split_host_port_ok)
  then have "split_host_port t = Inr (h, p)"
    unfolding t by (rule split_join_host_port)
  with t show ?thesis by (simp add: host_port_unmarshal_def)
qed


section \<open>IP addresses\<close>

text \<open>\<open>netip.ParseAddr\<close>. \<open>parse_ipv4\<close> is the loop of \<open>parseIPv4Fields\<close>: previous byte, value and digit count of the current octet, octets so far.\<close>

fun ipv4_loop :: "string \<Rightarrow> char option \<Rightarrow> nat \<Rightarrow> nat \<Rightarrow> byte list \<Rightarrow> byte list option" where
  "ipv4_loop [] prev val dlen fields =
     (if length fields < 3 then None else Some (fields @ [of_nat val]))"
| "ipv4_loop (c # r) prev val dlen fields =
     (if is_digit c then
        (if dlen = 1 \<and> val = 0 then None
         else if 255 < val * 10 + digit_val c then None
         else ipv4_loop r (Some c) (val * 10 + digit_val c) (dlen + 1) fields)
      else if c = CHR ''.'' then
        (if prev = None \<or> r = [] \<or> prev = Some (CHR ''.'') then None
         else if length fields = 3 then None
         else ipv4_loop r (Some c) 0 0 (fields @ [of_nat val]))
      else None)"

definition parse_ipv4 :: "string \<Rightarrow> byte list option" where
  "parse_ipv4 s = ipv4_loop s None 0 0 []"

definition hex_val :: "char \<Rightarrow> nat option" where
  "hex_val c = (if is_digit c then Some (digit_val c)
     else if 97 \<le> byte_of c \<and> byte_of c \<le> 102 then Some (byte_of c - 97 + 10)
     else if 65 \<le> byte_of c \<and> byte_of c \<le> 70 then Some (byte_of c - 65 + 10)
     else None)"

text \<open>One group: number of digits, value, rest; \<open>None\<close> for more than four digits.\<close>

fun hex_run :: "string \<Rightarrow> nat \<Rightarrow> nat \<Rightarrow> (nat \<times> nat \<times> string) option" where
  "hex_run [] off acc = Some (off, acc, [])"
| "hex_run (c # s) off acc =
     (case hex_val c of
        None \<Rightarrow> Some (off, acc, c # s)
      | Some d \<Rightarrow> if 3 < off then None
                  else if 65535 < acc * 16 + d then None
                  else hex_run s (off + 1) (acc * 16 + d))"

lemma hex_run_length: "hex_run s off acc = Some (off', acc', r) \<Longrightarrow> length r \<le> length s"
  by (induction s off acc rule: hex_run.induct) (auto split: option.splits if_splits)

text \<open>
  The main loop of \<open>parseIPv6\<close>: rest of the text, bytes so far, position of \<open>::\<close>. The result is
  the state after the loop.
\<close>

function v6_loop :: "string \<Rightarrow> byte list \<Rightarrow> nat option \<Rightarrow> (string \<times> byte list \<times> nat option) option" where
  "v6_loop s ip ell =
     (if 16 \<le> length ip then Some (s, ip, ell)
      else case hex_run s 0 0 of
        None \<Rightarrow> None
      | Some (off, acc, r) \<Rightarrow>
          if off = 0 then None
          else if r \<noteq> [] \<and> hd r = CHR ''.'' then
            (if ell = None \<and> length ip \<noteq> 12 then None
             else if 16 < length ip + 4 then None
             else map_option (\<lambda>f. ([], ip @ f, ell)) (parse_ipv4 s))
          else
            let ip' = ip @ [of_nat (acc div 256), of_nat (acc mod 256)] in
            if r = [] then Some ([], ip', ell)
            else if hd r \<noteq> CHR '':'' \<or> tl r = [] then None
            else if hd (tl r) = CHR '':'' then
              (if ell \<noteq> None then None
               else if tl (tl r) = [] then Some ([], ip', Some (length ip'))
               else v6_loop (tl (tl r)) ip' (Some (length ip')))
            else v6_loop (tl r) ip' ell)"
  by pat_completeness auto
termination
  by (relation "measure (\<lambda>(s, ip, ell). 16 - length ip)") auto

declare v6_loop.simps [simp del]

definition v6_finish :: "string \<times> byte list \<times> nat option \<Rightarrow> byte list option" where
  "v6_finish = (\<lambda>(s, ip, ell).
     if s \<noteq> [] then None
     else if length ip < 16 then
       (case ell of
          None \<Rightarrow> None
        | Some e \<Rightarrow> Some (take e ip @ replicate (16 - length ip) 0 @ drop e ip))
     else if ell \<noteq> None then None
     else Some ip)"

definition parse_ipv6_bytes :: "string \<Rightarrow> byte list option" where
  "parse_ipv6_bytes s =
     (if has_prefix s ''::'' then
        (if drop 2 s = [] then Some (replicate 16 0)
         else Option.bind (v6_loop (drop 2 s) [] (Some 0)) v6_finish)
      else Option.bind (v6_loop s [] None) v6_finish)"

text \<open>A parsed address: four bytes, or sixteen bytes and a zone.\<close>

datatype addr = AddrV4 "byte list" | AddrV6 "byte list" string

definition parse_ipv6 :: "string \<Rightarrow> addr option" where
  "parse_ipv6 s =
     (case index_of CHR ''%'' s of
        None \<Rightarrow> map_option (\<lambda>b. AddrV6 b []) (parse_ipv6_bytes s)
      | Some i \<Rightarrow> if drop (i + 1) s = [] then None
                  else map_option (\<lambda>b. AddrV6 b (drop (i + 1) s)) (parse_ipv6_bytes (take i s)))"

definition parse_addr :: "string \<Rightarrow> addr option" where
  "parse_addr s =
     (case find (\<lambda>c. c = CHR ''.'' \<or> c = CHR '':'' \<or> c = CHR ''%'') s of
        Some c \<Rightarrow> if c = CHR ''.'' then map_option AddrV4 (parse_ipv4 s)
                  else if c = CHR '':'' then parse_ipv6 s
                  else None
      | None \<Rightarrow> None)"

fun as16 :: "addr \<Rightarrow> byte list" where
  "as16 (AddrV4 b) = replicate 10 0 @ [255, 255] @ b"
| "as16 (AddrV6 b z) = b"

fun addr_zone :: "addr \<Rightarrow> string" where
  "addr_zone (AddrV4 b) = []"
| "addr_zone (AddrV6 b z) = z"

fun bit_len :: "addr \<Rightarrow> nat" where
  "bit_len (AddrV4 b) = 32"
| "bit_len (AddrV6 b z) = 128"

text \<open>\<open>net.ParseIP\<close> (16 bytes, or nil) and \<open>IP.To4\<close>, \<open>IP.To16\<close>.\<close>

definition parse_ip :: "string \<Rightarrow> byte list option" where
  "parse_ip s = (case parse_addr s of
     None \<Rightarrow> None
   | Some a \<Rightarrow> if addr_zone a = [] then Some (as16 a) else None)"

definition to4 :: "byte list \<Rightarrow> byte list option" where
  "to4 ip = (if length ip = 4 then Some ip
     else if length ip = 16 \<and> take 10 ip = replicate 10 0 \<and> ip ! 10 = 255 \<and> ip ! 11 = 255
     then Some (drop 12 ip) else None)"

definition to16 :: "byte list \<Rightarrow> byte list option" where
  "to16 ip = (if length ip = 4 then Some (replicate 10 0 @ [255, 255] @ ip)
     else if length ip = 16 then Some ip else None)"

section \<open>Masks and networks\<close>

text \<open>\<open>net.CIDRMask(ones, bits)\<close> for \<open>bits = 8 * l\<close>.\<close>

fun cidr_mask :: "nat \<Rightarrow> nat \<Rightarrow> byte list" where
  "cidr_mask 0 n = []"
| "cidr_mask (Suc l) n =
     (if 8 \<le> n then 255 # cidr_mask l (n - 8)
      else NOT (drop_bit n 255) # cidr_mask l 0)"

text \<open>\<open>simpleMaskLength\<close>: leading one bits, \<open>None\<close> (Go: -1) when a one follows a zero.\<close>

definition byte_ones :: "byte \<Rightarrow> nat option" where
  "byte_ones v = find (\<lambda>n. v = NOT (drop_bit n 255)) [0..<9]"

fun simple_mask_length :: "byte list \<Rightarrow> nat option" where
  "simple_mask_length [] = Some 0"
| "simple_mask_length (v # vs) =
     (if v = 255 then map_option (\<lambda>n. 8 + n) (simple_mask_length vs)
      else (case byte_ones v of
              None \<Rightarrow> None
            | Some n \<Rightarrow> if list_all (\<lambda>x. x = 0) vs then Some n else None))"

definition mask_size :: "byte list \<Rightarrow> nat \<times> nat" where
  "mask_size m = (case simple_mask_length m of None \<Rightarrow> (0, 0) | Some n \<Rightarrow> (n, length m * 8))"

text \<open>\<open>IP.Mask\<close>.\<close>

definition ip_mask :: "byte list \<Rightarrow> byte list \<Rightarrow> byte list option" where
  "ip_mask ip msk =
     (let msk' = (if length msk = 16 \<and> length ip = 4 \<and> list_all (\<lambda>b. b = 255) (take 12 msk)
                   then drop 12 msk else msk);
          ip' = (if length msk' = 4 \<and> length ip = 16 \<and> take 12 ip = replicate 10 0 @ [255, 255]
                 then drop 12 ip else ip)
      in if length ip' \<noteq> length msk' then None else Some (map2 (AND) ip' msk'))"

text \<open>\<open>net.IPNet\<close>; a nil \<open>IP\<close> is the empty list.\<close>

record ipnet =
  net_ip :: "byte list"
  net_mask :: "byte list"

definition dtoi_big :: nat where
  "dtoi_big = 16777215"

text \<open>\<open>net.dtoi\<close> on the whole mask text, and \<open>net.ParseCIDR\<close>.\<close>

definition dtoi_all :: "string \<Rightarrow> nat option" where
  "dtoi_all s = (if s = [] \<or> \<not> list_all is_digit s \<or> dtoi_big \<le> digits_val s then None
     else Some (digits_val s))"

definition parse_cidr :: "string \<Rightarrow> (byte list \<times> ipnet) res" where
  "parse_cidr s =
     (case index_of CHR ''/'' s of
        None \<Rightarrow> Inl (ErrParse ''CIDR address'' s)
      | Some i \<Rightarrow>
          (case parse_addr (take i s) of
             None \<Rightarrow> Inl (ErrParse ''CIDR address'' s)
           | Some a \<Rightarrow>
               if addr_zone a \<noteq> [] then Inl (ErrParse ''CIDR address'' s)
               else (case dtoi_all (drop (i + 1) s) of
                  None \<Rightarrow> Inl (ErrParse ''CIDR address'' s)
                | Some n \<Rightarrow>
                    if bit_len a < n then Inl (ErrParse ''CIDR address'' s)
                    else let m = cidr_mask (bit_len a div 8) n;
                             ip = as16 a
                         in Inr (ip, \<lparr>net_ip = (case ip_mask ip m of None \<Rightarrow> [] | Some x \<Rightarrow> x),
                                      net_mask = m\<rparr>))))"

text \<open>\<open>networkNumberAndMask\<close> and \<open>IPNet.Contains\<close>.\<close>

definition network_number_and_mask :: "ipnet \<Rightarrow> (byte list \<times> byte list) option" where
  "network_number_and_mask n =
     (let ip = (case to4 (net_ip n) of Some x \<Rightarrow> x | None \<Rightarrow> net_ip n) in
      if to4 (net_ip n) = None \<and> length ip \<noteq> 16 then None
      else if length (net_mask n) = 4 then
        (if length ip \<noteq> 4 then None else Some (ip, net_mask n))
      else if length (net_mask n) = 16 then
        Some (ip, if length ip = 4 then drop 12 (net_mask n) else net_mask n)
      else None)"

definition net_contains :: "ipnet \<Rightarrow> byte list \<Rightarrow> bool" where
  "net_contains n ip =
     (let x = (case to4 ip of Some y \<Rightarrow> y | None \<Rightarrow> ip);
          nm = (case network_number_and_mask n of None \<Rightarrow> ([], []) | Some p \<Rightarrow> p)
      in length x = length (fst nm) \<and>
         list_all (\<lambda>((a, m), b). a AND m = b AND m) (zip (zip (fst nm) (snd nm)) x))"


section \<open>Printers\<close>

text \<open>\<open>IP.String\<close>: dotted decimal for IPv4 and IPv4-in-IPv6, RFC 5952 text for the rest.\<close>

definition ipv4_string :: "byte list \<Rightarrow> string" where
  "ipv4_string b = join ''.'' (map (\<lambda>x. nat_digits (unat x)) b)"

definition hex_digit :: "nat \<Rightarrow> char" where
  "hex_digit d = (if d < 10 then char_of (48 + d) else char_of (87 + d))"

fun hex_digits :: "nat \<Rightarrow> string" where
  "hex_digits n = (if n < 16 then [hex_digit n] else hex_digits (n div 16) @ [hex_digit (n mod 16)])"

declare hex_digits.simps [simp del]

fun groups_of :: "byte list \<Rightarrow> nat list" where
  "groups_of (a # b # r) = (unat a * 256 + unat b) # groups_of r"
| "groups_of _ = []"

text \<open>The longest run of at least two zero groups, the leftmost of equal length.\<close>

definition zero_run :: "nat list \<Rightarrow> (nat \<times> nat) option" where
  "zero_run gs = foldl (\<lambda>best i.
       let l = length (takeWhile (\<lambda>g. g = 0) (drop i gs)) in
       if 2 \<le> l \<and> (case best of None \<Rightarrow> True | Some (s, e) \<Rightarrow> e - s < l) then Some (i, i + l) else best)
     None [0..<length gs]"

definition ipv6_string :: "byte list \<Rightarrow> string" where
  "ipv6_string b =
     (let gs = groups_of b in
      case zero_run gs of
        None \<Rightarrow> join '':'' (map hex_digits gs)
      | Some (s, e) \<Rightarrow> join '':'' (map hex_digits (take s gs)) @ ''::'' @ join '':'' (map hex_digits (drop e gs)))"

definition hex_string :: "byte list \<Rightarrow> string" where
  "hex_string b = concat (map (\<lambda>x. [hex_digit (unat x div 16), hex_digit (unat x mod 16)]) b)"

definition ip_string :: "byte list \<Rightarrow> string" where
  "ip_string ip =
     (if ip = [] then ''<nil>''
      else if length ip \<noteq> 4 \<and> length ip \<noteq> 16 then ''?'' @ hex_string ip
      else case to4 ip of Some b \<Rightarrow> ipv4_string b | None \<Rightarrow> ipv6_string ip)"

text \<open>\<open>IPMask.String\<close> and \<open>IPNet.String\<close>.\<close>

definition mask_string :: "byte list \<Rightarrow> string" where
  "mask_string m = (if m = [] then ''<nil>'' else hex_string m)"

definition ipnet_string :: "ipnet \<Rightarrow> string" where
  "ipnet_string n = (case network_number_and_mask n of
     None \<Rightarrow> ''<nil>''
   | Some (nn, m) \<Rightarrow> (case simple_mask_length m of
       None \<Rightarrow> ip_string nn @ ''/'' @ mask_string m
     | Some l \<Rightarrow> ip_string nn @ ''/'' @ nat_digits l))"

section \<open>Laws\<close>

lemma cidr_mask_length [simp]: "length (cidr_mask l n) = l"
  by (induction l n rule: cidr_mask.induct) auto

lemma cidr_mask_0: "cidr_mask l 0 = replicate l 0"
  by (induction l) auto

lemma partial_bytes:
  "list_all (\<lambda>n. byte_ones (NOT (drop_bit n 255)) = Some n \<and> NOT (drop_bit n 255) \<noteq> (255 :: byte)) [0..<8]"
  by code_simp

lemma byte_ones_partial: "n < 8 \<Longrightarrow> byte_ones (NOT (drop_bit n 255)) = Some n"
  using partial_bytes by (simp add: list_all_iff)

lemma partial_byte_neq_255: "n < 8 \<Longrightarrow> (NOT (drop_bit n 255) :: byte) \<noteq> 255"
  using partial_bytes by (simp add: list_all_iff)

text \<open>A mask made by \<open>CIDRMask\<close> has the prefix length it was made with.\<close>

lemma simple_mask_length_cidr_mask: "n \<le> 8 * l \<Longrightarrow> simple_mask_length (cidr_mask l n) = Some n"
proof (induction l n rule: cidr_mask.induct)
  case (2 l n)
  show ?case
  proof (cases "8 \<le> n")
    case False
    then show ?thesis
      by (simp add: byte_ones_partial partial_byte_neq_255 cidr_mask_0 list_all_iff)
  qed (use 2 in simp)
qed simp

lemma mask_size_cidr_mask: "n \<le> 8 * l \<Longrightarrow> mask_size (cidr_mask l n) = (n, l * 8)"
  by (simp add: mask_size_def simple_mask_length_cidr_mask)

lemma mask_size_bound: "fst (mask_size m) \<le> 8 * length m"
proof -
  have "simple_mask_length m = Some n \<Longrightarrow> n \<le> 8 * length m" for n
  proof (induction m arbitrary: n rule: simple_mask_length.induct)
    case (2 v vs)
    then show ?case
      by (auto simp: byte_ones_def find_Some_iff split: if_splits option.splits)
  qed simp
  then show ?thesis by (auto simp: mask_size_def split: option.split)
qed

text \<open>The IPv4 printer and parser.\<close>

lemma ipv4_loop_octet:
  assumes "n \<le> 255"
  shows "ipv4_loop (nat_digits n @ r) prev 0 0 fs = ipv4_loop r (Some (digit_char (n mod 10))) n (length (nat_digits n)) fs"
proof -
  have dig: "is_digit (digit_char d)" "digit_val (digit_char d) = d" if "d < 10" for d
    using that by simp_all
  consider (a) "n < 10" | (b) "10 \<le> n" "n < 100" | (c) "100 \<le> n" by linarith
  then show ?thesis
  proof cases
    case a
    then show ?thesis by (simp add: nat_digits.simps [of n] dig assms)
  next
    case b
    then have "n div 10 < 10" "n div 10 \<noteq> 0" by auto
    with b assms show ?thesis
      by (simp add: nat_digits.simps [of n] nat_digits.simps [of "n div 10"] dig)
  next
    case c
    with assms have d: "n div 10 div 10 < 10" "n div 10 \<ge> 10" "n div 10 div 10 \<noteq> 0" "n div 10 \<le> 255"
      by auto
    have e: "(n div 10 div 10 * 10 + n div 10 mod 10) * 10 + n mod 10 = n" by simp
    from c assms d e show ?thesis
      by (simp add: nat_digits.simps [of n] nat_digits.simps [of "n div 10"]
          nat_digits.simps [of "n div 10 div 10"] dig)
  qed
qed

text \<open>
  A digit run followed by a dot, or by the end of the text, closes an octet; four octets parse
  back to themselves.
\<close>

lemma ipv4_loop_dot:
  assumes "n \<le> 255" and "r \<noteq> []" and "length fs < 3"
  shows "ipv4_loop (nat_digits n @ CHR ''.'' # r) prev 0 0 fs =
    ipv4_loop r (Some (CHR ''.'')) 0 0 (fs @ [of_nat n])"
proof -
  have "digit_char (n mod 10) \<noteq> CHR ''.''"
    using is_digit_digit_char [of "n mod 10"] by (auto simp: is_digit_def)
  moreover have "\<not> is_digit (CHR ''.'')" by (simp add: is_digit_def)
  ultimately show ?thesis
    using assms by (simp add: ipv4_loop_octet)
qed

lemma parse_ipv4_string:
  assumes "length b = 4"
  shows "parse_ipv4 (ipv4_string b) = Some b"
proof -
  from assms obtain w x y z where b: "b = [w, x, y, z]"
    by (auto simp: numeral_eq_Suc length_Suc_conv)
  have le: "unat v \<le> 255" for v :: byte
    using unsigned_less [of v, where 'a = nat] by simp
  have end_octet: "ipv4_loop (nat_digits (unat z)) p 0 0 [w, x, y] = Some [w, x, y, z]" for p
    using ipv4_loop_octet [OF le, of z "[]" p "[w, x, y]"] by simp
  show ?thesis
    by (simp add: b ipv4_string_def parse_ipv4_def ipv4_loop_dot le end_octet)
qed

lemma find_dot_ipv4_string:
  assumes "length b = 4"
  shows "find (\<lambda>c. c = CHR ''.'' \<or> c = CHR '':'' \<or> c = CHR ''%'') (ipv4_string b) = Some (CHR ''.'')"
proof -
  from assms obtain w x y z where b: "b = [w, x, y, z]"
    by (auto simp: numeral_eq_Suc length_Suc_conv)
  have "find (\<lambda>c. c = CHR ''.'' \<or> c = CHR '':'' \<or> c = CHR ''%'') (nat_digits n) = None" for n
    using nat_digits_all_digits [of n]
    by (auto simp: find_None_iff list_all_iff is_digit_def)
  then show ?thesis
    by (simp add: b ipv4_string_def find_append)
qed

lemma parse_addr_ipv4_string: "length b = 4 \<Longrightarrow> parse_addr (ipv4_string b) = Some (AddrV4 b)"
  by (simp add: parse_addr_def find_dot_ipv4_string parse_ipv4_string)

lemma parse_ip_ipv4_string:
  "length b = 4 \<Longrightarrow> parse_ip (ipv4_string b) = Some (replicate 10 0 @ [255, 255] @ b)"
  by (simp add: parse_ip_def parse_addr_ipv4_string)

interpretation ipv4_codec: text_codec ipv4_string
  "\<lambda>s. case parse_ipv4 s of None \<Rightarrow> Inl (ErrParse ''IP address'' s) | Some b \<Rightarrow> Inr b"
  "\<lambda>b. length b = 4"
  by unfold_locales (simp add: parse_ipv4_string)

section \<open>Properties\<close>

text \<open>C33: \<open>HostPort.UnmarshalText\<close> accepts exactly what \<open>net.SplitHostPort\<close> accepts, stores the host and
  port joined again, and is idempotent: the text that \<open>String\<close> prints is accepted and kept as it is.\<close>

theorem host_port_roundtrip:
  "(case host_port_unmarshal s of
      Inr t \<Rightarrow> host_port_unmarshal (host_port_string (Some t)) = Inr t \<and>
        (\<exists>h p. split_host_port s = Inr (h, p) \<and> split_host_port t = Inr (h, p))
    | Inl e \<Rightarrow> (\<exists>e'. split_host_port s = Inl e' \<and> e = ErrWrap ''invalid host:port format: '' e'))"
proof (cases "split_host_port s")
  case (Inr hp)
  obtain h p where hp: "hp = (h, p)" by fastforce
  then have t: "host_port_unmarshal s = Inr (join_host_port h p)"
    using Inr by (simp add: host_port_unmarshal_def)
  have "host_port_ok (h, p)" using split_host_port_ok [OF Inr] by (simp add: hp)
  then have "split_host_port (join_host_port h p) = Inr (h, p)" by (rule host_port_codec.parse_print [of "(h, p)", simplified])
  with t Inr hp host_port_unmarshal_normal [OF t] show ?thesis by (simp add: host_port_string_def)
qed (simp add: host_port_unmarshal_def)

end
