(* ===== verification/HostTrie.thy ===== *)
theory HostTrie
  imports GoStrings
begin

text \<open>
  Host names and zones: \<open>pkg/trie/host.go\<close> and \<open>pkg/trie/zone.go\<close>. A \<open>Host\<close> is a map from
  canonical names; a \<open>Zone\<close> is a map from canonical zones together with a tree over reversed
  labels that lets a lookup fail early. The tree's invariant (\<open>zone_inv\<close>) relates it to the map;
  under it a lookup is the longest proper suffix that is a zone, except that a zone which no
  other zone extends also matches its own name.
\<close>

section \<open>Canonical names and the Host map\<close>

definition canonocalize_host :: "(string \<Rightarrow> string) \<Rightarrow> string \<Rightarrow> string" where
  "canonocalize_host ul host = to_lower ul (trim_space host)"

lemma canonocalize_graphic:
  "list_all (\<lambda>c. 33 \<le> byte_of c \<and> byte_of c < 128) s \<Longrightarrow> canonocalize_host ul s = map lower_char s"
  by (auto simp: canonocalize_host_def trim_space_graphic to_lower_def ascii_string_def list_all_iff)

definition split_host :: "string \<Rightarrow> string list" where
  "split_host host = split_on (CHR ''.'') host"

type_synonym 'v host = "(string, 'v) gomap"

definition host_insert :: "(string \<Rightarrow> string) \<Rightarrow> 'v host \<Rightarrow> string \<Rightarrow> 'v \<Rightarrow> 'v host" where
  "host_insert ul m host v = AList.update (canonocalize_host ul host) v m"

text \<open>Lookups return Go's pair: the value, zero when there is none, and a flag.\<close>

definition found :: "'v \<Rightarrow> 'v option \<Rightarrow> 'v \<times> bool" where
  "found zero r = (case r of None \<Rightarrow> (zero, False) | Some v \<Rightarrow> (v, True))"

lemma found_simps [simp, go_simps]: "found z None = (z, False)" "found z (Some v) = (v, True)"
  by (simp_all add: found_def)

lemma snd_found [simp]: "snd (found z r) \<longleftrightarrow> r \<noteq> None"
  by (cases r) auto

definition host_match :: "(string \<Rightarrow> string) \<Rightarrow> 'v \<Rightarrow> 'v host \<Rightarrow> string \<Rightarrow> 'v \<times> bool" where
  "host_match ul zero m host = found zero (map_of m (canonocalize_host ul host))"

lemma host_match_insert:
  "host_match ul zero (host_insert ul m h v) h' =
     (if canonocalize_host ul h' = canonocalize_host ul h then (v, True) else host_match ul zero m h')"
  by (simp add: host_match_def host_insert_def go_simps)

section \<open>The label tree\<close>

text \<open>
  \<open>type node map[string]node\<close>: an entry maps a label to a subtree, or to a nil node, which
  marks the end of a zone that nothing extends. A node value is \<open>None\<close> for nil.
\<close>

datatype node = Node "(string \<times> node option) list"

text \<open>Reading a map entry; reading from a nil map finds nothing.\<close>

fun node_get :: "node option \<Rightarrow> string \<Rightarrow> node option option" where
  "node_get None l = None"
| "node_get (Some (Node m)) l = map_of m l"

text \<open>
  The inner loop of \<open>Insert\<close> builds the chain for the labels to the left of the current one,
  starting from a nil node at \<open>labels[0]\<close>; here the labels come right to left.
\<close>

fun node_chain :: "string list \<Rightarrow> node option" where
  "node_chain [] = None"
| "node_chain (l # ls) = Some (Node [(l, node_chain ls)])"

text \<open>The outer loop: descend through non-nil children, otherwise hang a new chain and stop.\<close>

fun node_insert :: "string list \<Rightarrow> node \<Rightarrow> node" where
  "node_insert [] n = n"
| "node_insert (l # ls) (Node m) =
     (case node_get (Some (Node m)) l of
        Some (Some child) \<Rightarrow> Node (AList.update l (Some (node_insert ls child)) m)
      | _ \<Rightarrow> Node (AList.update l (node_chain ls) m))"

record 'v zone =
  zroot :: "node option"
  zvalues :: "(string, 'v) gomap option"

definition empty_zone :: "'v zone" where
  "empty_zone = \<lparr>zroot = None, zvalues = None\<rparr>"

definition map_or_nil :: "('k, 'v) gomap option \<Rightarrow> ('k, 'v) gomap" where
  "map_or_nil m = (case m of None \<Rightarrow> [] | Some x \<Rightarrow> x)"

lemma map_or_nil_simps [simp, go_simps]: "map_or_nil None = []" "map_or_nil (Some m) = m"
  by (simp_all add: map_or_nil_def)

definition zone_insert :: "(string \<Rightarrow> string) \<Rightarrow> 'v zone \<Rightarrow> string \<Rightarrow> 'v \<Rightarrow> 'v zone" where
  "zone_insert ul w zn v =
     (let z = canonocalize_host ul zn;
          w1 = (if zvalues w = None then w\<lparr>zvalues := Some [], zroot := Some (Node [])\<rparr> else w);
          w2 = w1\<lparr>zvalues := Some (AList.update z v (map_or_nil (zvalues w1)))\<rparr>
      in w2\<lparr>zroot := map_option (node_insert (rev (split_host z))) (zroot w2)\<rparr>)"

text \<open>
  The walk of \<open>Match\<close>, right to left; an index is the number of labels left of the current one.
  \<open>Hit i\<close>: a nil node ended the walk at label \<open>i\<close>. \<open>Miss i\<close>: label \<open>i\<close> had no entry.
  \<open>Through\<close>: the labels ran out.
\<close>

datatype walk = Hit nat | Miss nat | Through

fun zone_walk :: "node option \<Rightarrow> string list \<Rightarrow> walk" where
  "zone_walk n [] = Through"
| "zone_walk n (l # rest) =
     (case node_get n l of
        None \<Rightarrow> Miss (length rest)
      | Some None \<Rightarrow> Hit (length rest)
      | Some (Some n') \<Rightarrow> zone_walk (Some n') rest)"

text \<open>
  \<open>host[offset:]\<close> panics when the offset is past the end: \<open>None\<close> at the outer option is a panic
  in \<open>slice_from\<close>, \<open>zone_scan\<close> and \<open>zone_match\<close>.
\<close>

definition slice_from :: "string \<Rightarrow> nat \<Rightarrow> string option" where
  "slice_from s n = (if n \<le> length s then Some (drop n s) else None)"

fun zone_scan :: "(string, 'v) gomap \<Rightarrow> string \<Rightarrow> nat \<Rightarrow> string list \<Rightarrow> 'v option option" where
  "zone_scan vals host offset [] = Some None"
| "zone_scan vals host offset (l # ls) =
     (case slice_from host offset of
        None \<Rightarrow> None
      | Some suff \<Rightarrow>
          (case map_of vals suff of
             Some v \<Rightarrow> Some (Some v)
           | None \<Rightarrow> zone_scan vals host (offset + (length l + 1)) ls))"

definition zone_match :: "(string \<Rightarrow> string) \<Rightarrow> 'v \<Rightarrow> 'v zone \<Rightarrow> string \<Rightarrow> ('v \<times> bool) option" where
  "zone_match ul zero w hst =
     (let host = canonocalize_host ul hst;
          labels = split_host host;
          vals = map_or_nil (zvalues w);
          backtrack = (\<lambda>j. map_option (found zero)
             (zone_scan vals host (sum_list (map (\<lambda>l. length l + 1) (take (j + 1) labels)))
                (drop (j + 1) labels)))
      in case zone_walk (zroot w) (rev labels) of
           Hit i \<Rightarrow> Some (case map_of vals (join ''.'' (drop i labels)) of
                            Some v \<Rightarrow> v | None \<Rightarrow> zero, True)
         | Miss j \<Rightarrow> backtrack j
         | Through \<Rightarrow> backtrack 0)"

section \<open>Paths of the tree\<close>

fun has_path :: "node option \<Rightarrow> string list \<Rightarrow> bool" where
  "has_path n [] = True"
| "has_path n (l # ls) = (case node_get n l of None \<Rightarrow> False | Some c \<Rightarrow> has_path c ls)"

fun leaf_path :: "node option \<Rightarrow> string list \<Rightarrow> bool" where
  "leaf_path n [] = (n = None)"
| "leaf_path n (l # ls) = (case node_get n l of None \<Rightarrow> False | Some c \<Rightarrow> leaf_path c ls)"

lemma has_path_nil: "has_path None p \<longleftrightarrow> p = []"
  by (cases p) auto

lemma has_path_append: "has_path n (p @ q) \<Longrightarrow> has_path n p"
  by (induction p arbitrary: n) (auto split: option.splits)

lemma leaf_path_no_ext: "leaf_path n p \<Longrightarrow> has_path n (p @ q) \<Longrightarrow> q = []"
  by (induction p arbitrary: n) (auto simp: has_path_nil split: option.splits)

lemma leaf_path_has_path: "leaf_path n p \<Longrightarrow> has_path n p"
  by (induction p arbitrary: n) (auto split: option.splits)

lemma has_path_chain_iff: "has_path (node_chain ls) p \<longleftrightarrow> prefix p ls"
proof (induction ls arbitrary: p)
  case Nil
  then show ?case by (simp add: has_path_nil)
next
  case (Cons l ls)
  then show ?case by (cases p) auto
qed

lemma has_path_chain: "has_path (node_chain (p @ q)) p"
  by (simp add: has_path_chain_iff)

lemma leaf_path_chain_end: "leaf_path (node_chain ls) ls"
  by (induction ls) auto

lemma leaf_path_chain: "leaf_path (node_chain ls) p \<Longrightarrow> p = ls"
proof (induction ls arbitrary: p)
  case Nil
  then show ?case by (cases p) auto
next
  case (Cons l ls)
  then show ?case by (cases p) (auto split: if_splits)
qed

lemma node_get_update:
  "node_get (Some (Node (AList.update l c m))) l' = (if l' = l then Some c else node_get (Some (Node m)) l')"
  by (simp add: go_simps)

text \<open>Insertion adds exactly the prefixes of the new path and no leaf but its end.\<close>

lemma has_path_insert_old: "has_path (Some n) p \<Longrightarrow> has_path (Some (node_insert ls n)) p"
proof (induction ls n arbitrary: p rule: node_insert.induct)
  case (2 l ls m)
  then show ?case
    by (cases p) (auto simp: node_get_update has_path_nil simp del: node_get.simps split: option.splits)
qed simp

lemma has_path_insert_new: "has_path (Some (node_insert (p @ q) n)) p"
proof (induction p arbitrary: n)
  case (Cons l p)
  obtain m where "n = Node m" by (cases n)
  with Cons show ?case
    by (auto simp: node_get_update has_path_chain simp del: node_get.simps split: option.splits)
qed simp

lemma leaf_path_insert: "leaf_path (Some (node_insert ls n)) p \<Longrightarrow> leaf_path (Some n) p \<or> p = ls"
proof (induction ls n arbitrary: p rule: node_insert.induct)
  case (2 l ls m)
  then show ?case
    by (cases p)
      (auto simp: node_get_update dest: leaf_path_chain simp del: node_get.simps split: option.splits if_splits)
qed simp

lemma has_path_insert_iff:
  "has_path (Some (node_insert ls n)) p \<longleftrightarrow> has_path (Some n) p \<or> prefix p ls"
proof
  show "has_path (Some (node_insert ls n)) p \<Longrightarrow> has_path (Some n) p \<or> prefix p ls"
  proof (induction ls n arbitrary: p rule: node_insert.induct)
    case (2 l ls m)
    then show ?case
      by (cases p)
        (auto simp: node_get_update has_path_chain_iff simp del: node_get.simps
          split: option.splits if_splits)
  qed simp
next
  show "has_path (Some n) p \<or> prefix p ls \<Longrightarrow> has_path (Some (node_insert ls n)) p"
    by (auto simp: prefix_def intro: has_path_insert_old has_path_insert_new)
qed

lemma leaf_path_insert_keep:
  "leaf_path (Some n) p \<Longrightarrow> \<not> strict_prefix p ls \<Longrightarrow> leaf_path (Some (node_insert ls n)) p"
proof (induction ls n arbitrary: p rule: node_insert.induct)
  case (2 l ls m)
  then obtain x p' where p: "p = x # p'" by (cases p) auto
  show ?case
  proof (cases "x = l \<and> node_get (Some (Node m)) l = Some None")
    case True
    with 2 p have p': "p' = []" by (cases p') auto
    with 2 p True have "ls = []" by (cases ls) auto
    with True p p' show ?thesis by (simp add: go_simps)
  next
    case False
    with 2 p show ?thesis
      by (auto simp: node_get_update simp del: node_get.simps split: option.splits)
  qed
qed simp

lemma leaf_path_insert_end:
  "\<not> has_path (Some n) ls \<Longrightarrow> leaf_path (Some (node_insert ls n)) ls"
proof (induction ls n rule: node_insert.induct)
  case (2 l ls m)
  then show ?case
    by (auto simp: node_get_update leaf_path_chain_end simp del: node_get.simps split: option.splits)
qed simp

text \<open>Every inner node has a child: a path that is no leaf extends.\<close>

definition bushy :: "node option \<Rightarrow> bool" where
  "bushy n \<longleftrightarrow> (\<forall>p. p \<noteq> [] \<longrightarrow> has_path n p \<longrightarrow> leaf_path n p \<or> (\<exists>l. has_path n (p @ [l])))"

lemma bushy_insert:
  assumes "bushy (Some n)"
  shows "bushy (Some (node_insert ls n))"
  unfolding bushy_def
proof (intro allI impI)
  fix p assume ne: "p \<noteq> []" and path: "has_path (Some (node_insert ls n)) p"
  show "leaf_path (Some (node_insert ls n)) p \<or> (\<exists>l. has_path (Some (node_insert ls n)) (p @ [l]))"
  proof (cases "strict_prefix p ls")
    case True
    then obtain l q where "ls = p @ l # q" by (auto elim: strict_prefixE')
    then have "prefix (p @ [l]) ls" by simp
    then show ?thesis by (auto simp: has_path_insert_iff)
  next
    case False
    show ?thesis
    proof (cases "has_path (Some n) p")
      case True
      with assms ne False show ?thesis
        by (auto simp: bushy_def has_path_insert_iff intro: leaf_path_insert_keep)
    next
      case no: False
      with path False have "p = ls"
        by (auto simp: has_path_insert_iff strict_prefix_def)
      with no show ?thesis by (simp add: leaf_path_insert_end)
    qed
  qed
qed

section \<open>The invariant\<close>

definition zone_inv :: "'v zone \<Rightarrow> bool" where
  "zone_inv w \<longleftrightarrow>
     (zvalues w = None \<longleftrightarrow> zroot w = None) \<and>
     wf_map (map_or_nil (zvalues w)) \<and>
     (\<forall>k \<in> dom (map_of (map_or_nil (zvalues w))). has_path (zroot w) (rev (split_host k))) \<and>
     (\<forall>p. p \<noteq> [] \<longrightarrow> has_path (zroot w) p \<longrightarrow>
        (\<exists>k \<in> dom (map_of (map_or_nil (zvalues w))). prefix p (rev (split_host k)))) \<and>
     bushy (zroot w)"

lemma zone_inv_leaf_key:
  assumes inv: "zone_inv w" and ne: "p \<noteq> []" and leaf: "leaf_path (zroot w) (rev p)"
  shows "join ''.'' p \<in> dom (map_of (map_or_nil (zvalues w)))"
proof -
  from inv ne leaf obtain k where k: "k \<in> dom (map_of (map_or_nil (zvalues w)))"
    and "prefix (rev p) (rev (split_host k))"
    by (metis leaf_path_has_path rev_is_Nil_conv zone_inv_def)
  moreover from inv k have "has_path (zroot w) (rev (split_host k))"
    by (simp add: zone_inv_def)
  ultimately obtain q where q: "rev (split_host k) = rev p @ q" and "has_path (zroot w) (rev p @ q)"
    by (auto simp: prefix_def)
  then have "q = []" using leaf_path_no_ext [OF leaf] by blast
  with q have "p = split_host k" by simp
  with k show ?thesis by (simp add: split_host_def)
qed

lemma zone_inv_empty: "zone_inv empty_zone"
  by (auto simp: zone_inv_def empty_zone_def has_path_nil bushy_def)

lemma split_host_join: "join ''.'' (split_host s) = s"
  by (simp add: split_host_def)

lemma zone_insert_fields:
  assumes "zone_inv w" and "z = canonocalize_host ul zn"
  obtains n where
    "zroot (zone_insert ul w zn v) = Some (node_insert (rev (split_host z)) n)"
    and "zvalues (zone_insert ul w zn v) = Some (AList.update z v (map_or_nil (zvalues w)))"
    and "zroot w = Some n \<or> zroot w = None \<and> zvalues w = None \<and> n = Node []"
proof (cases "zvalues w")
  case None
  with assms show ?thesis
    by (intro that [of "Node []"]) (auto simp: zone_inv_def zone_insert_def Let_def)
next
  case (Some vs)
  with assms obtain n where "zroot w = Some n" by (auto simp: zone_inv_def)
  with Some assms show ?thesis
    by (intro that [of n]) (auto simp: zone_insert_def Let_def)
qed

lemma zone_inv_insert:
  assumes inv: "zone_inv w"
  shows "zone_inv (zone_insert ul w zn v)"
proof -
  define z where "z = canonocalize_host ul zn"
  from inv obtain n where root: "zroot (zone_insert ul w zn v) = Some (node_insert (rev (split_host z)) n)"
    and vals: "zvalues (zone_insert ul w zn v) = Some (AList.update z v (map_or_nil (zvalues w)))"
    and n: "zroot w = Some n \<or> zroot w = None \<and> zvalues w = None \<and> n = Node []"
    by (rule zone_insert_fields [OF _ z_def])
  have paths: "has_path (Some n) p" if "has_path (zroot w) p" for p
    using n that by (auto simp: has_path_nil)
  have bushy: "bushy (Some n)"
    using n inv by (auto simp: zone_inv_def bushy_def)
      (metis has_path.elims(2) node_get.simps(2) map_of.simps(1) option.simps(4) list.distinct(1) has_path.simps(2))
  have paths': "has_path (zroot w) p" if "has_path (Some n) p" "p \<noteq> []" for p
    using n that by (cases p) auto
  have "has_path (Some (node_insert (rev (split_host z)) n)) (rev (split_host k))"
    if "k = z \<or> k \<in> dom (map_of (map_or_nil (zvalues w)))" for k
    using that inv by (auto simp: zone_inv_def has_path_insert_iff intro: paths)
  moreover have "\<exists>k. (k = z \<or> k \<in> dom (map_of (map_or_nil (zvalues w)))) \<and> prefix p (rev (split_host k))"
    if "p \<noteq> []" "has_path (Some (node_insert (rev (split_host z)) n)) p" for p
  proof (cases "prefix p (rev (split_host z))")
    case False
    with that have "has_path (zroot w) p" by (auto simp: has_path_insert_iff intro: paths')
    with that inv show ?thesis unfolding zone_inv_def by blast
  qed auto
  moreover note bushy_insert [OF bushy]
  ultimately show ?thesis
    using inv unfolding zone_inv_def root vals
    by (auto simp: go_simps) (metis (no_types, lifting) domI option.inject)+
qed

section \<open>What a lookup finds\<close>

text \<open>The first of the suffixes of the labels, longest first, that is a key.\<close>

fun suffix_lookup :: "(string \<rightharpoonup> 'v) \<Rightarrow> string list \<Rightarrow> 'v option" where
  "suffix_lookup m [] = None"
| "suffix_lookup m (l # ls) =
     (case m (join ''.'' (l # ls)) of Some v \<Rightarrow> Some v | None \<Rightarrow> suffix_lookup m ls)"

text \<open>A zone that ends the tree at the host's own name: no other zone lies below it.\<close>

definition zone_leaf :: "'v zone \<Rightarrow> string \<Rightarrow> bool" where
  "zone_leaf w host \<longleftrightarrow> leaf_path (zroot w) (rev (split_host host))"

text \<open>
  In terms of the map alone: the host is itself a zone, and no other zone lies below it. This is
  \<open>zone_leaf_iff\<close> below.
\<close>

definition lone_zone :: "(string \<rightharpoonup> 'v) \<Rightarrow> string \<Rightarrow> bool" where
  "lone_zone m host \<longleftrightarrow> host \<in> dom m \<and>
     (\<forall>k \<in> dom m. suffix (split_host host) (split_host k) \<longrightarrow> k = host)"

definition zone_spec :: "'v zone \<Rightarrow> string \<Rightarrow> 'v option" where
  "zone_spec w host =
     (if zone_leaf w host then map_of (map_or_nil (zvalues w)) host
      else suffix_lookup (map_of (map_or_nil (zvalues w))) (tl (split_host host)))"

lemma zone_walk_Hit:
  "zone_walk n rl = Hit i \<Longrightarrow> \<exists>p rest. rl = p @ rest \<and> length rest = i \<and> p \<noteq> [] \<and> leaf_path n p"
proof (induction n rl rule: zone_walk.induct)
  case (2 n l rest)
  then show ?case
  proof (cases "node_get n l")
    case (Some c)
    show ?thesis
    proof (cases c)
      case None
      with Some 2 show ?thesis by (intro exI [of _ "[l]"] exI [of _ rest]) auto
    next
      case (Some n')
      with \<open>node_get n l = Some c\<close> 2 obtain p r where "rest = p @ r" "length r = i" "leaf_path (Some n') p"
        by auto
      with Some \<open>node_get n l = Some c\<close> show ?thesis
        by (intro exI [of _ "l # p"] exI [of _ r]) simp
    qed
  qed simp
qed simp

lemma zone_walk_Miss:
  "zone_walk n rl = Miss i \<Longrightarrow> \<exists>p rest. rl = p @ rest \<and> length rest = i \<and> \<not> has_path n p"
proof (induction n rl rule: zone_walk.induct)
  case (2 n l rest)
  then show ?case
  proof (cases "node_get n l")
    case None
    with 2 show ?thesis by (intro exI [of _ "[l]"] exI [of _ rest]) auto
  next
    case (Some c)
    with 2 obtain n' where "c = Some n'" by (cases c) auto
    with Some 2 obtain p r where "rest = p @ r" "length r = i" "\<not> has_path (Some n') p"
      by auto
    with Some \<open>c = Some n'\<close> show ?thesis
      by (intro exI [of _ "l # p"] exI [of _ r]) simp
  qed
qed simp

lemma zone_walk_Through: "zone_walk n rl = Through \<Longrightarrow> rl \<noteq> [] \<Longrightarrow> \<not> leaf_path n rl"
proof (induction n rl rule: zone_walk.induct)
  case (2 n l rest)
  then obtain n' where "node_get n l = Some (Some n')" "zone_walk (Some n') rest = Through"
    by (auto split: option.splits)
  with 2 show ?case by (cases rest) auto
qed simp

text \<open>The scan never slices past the end, and finds the longest suffix from its position on.\<close>

lemma zone_scan_suffix_lookup:
  "i \<le> length labels \<Longrightarrow>
     zone_scan vals (join ''.'' labels) (sum_list (map (\<lambda>l. length l + 1) (take i labels))) (drop i labels)
       = Some (suffix_lookup (map_of vals) (drop i labels))"
proof (induction "length labels - i" arbitrary: i)
  case (Suc k)
  then have i: "i < length labels" by simp
  let ?off = "\<lambda>i. sum_list (map (\<lambda>l. length l + 1) (take i labels))"
  have "slice_from (join ''.'' labels) (?off i) = Some (join ''.'' (drop i labels))"
    using join_offset_le [OF i, of "CHR ''.''"] join_drop [OF i, of "CHR ''.''"]
    by (simp add: slice_from_def)
  moreover have "?off (Suc i) = ?off i + (length (labels ! i) + 1)"
    using i by (simp add: take_Suc_conv_app_nth)
  moreover from Suc i have "zone_scan vals (join ''.'' labels) (?off (Suc i)) (drop (Suc i) labels)
      = Some (suffix_lookup (map_of vals) (drop (Suc i) labels))"
    by (intro Suc.hyps) auto
  moreover note drop_eq_Cons_nth [OF i]
  ultimately show ?case by (simp split: option.split)
qed simp

lemma suffix_lookup_skip:
  "(\<And>k. k < i \<Longrightarrow> m (join ''.'' (drop k ls)) = None) \<Longrightarrow> i \<le> length ls \<Longrightarrow>
     suffix_lookup m ls = suffix_lookup m (drop i ls)"
proof (induction i)
  case (Suc i)
  then have "i < length ls" "m (join ''.'' (drop i ls)) = None" by auto
  moreover from Suc have "suffix_lookup m ls = suffix_lookup m (drop i ls)" by simp
  ultimately show ?case by (simp add: drop_eq_Cons_nth [of i])
qed simp

lemma suffix_lookup_skip_tl:
  assumes "\<And>k. 0 < k \<Longrightarrow> k < i \<Longrightarrow> m (join ''.'' (drop k ls)) = None" and "0 < i" and "i \<le> length ls"
  shows "suffix_lookup m (tl ls) = suffix_lookup m (drop i ls)"
proof -
  have "suffix_lookup m (tl ls) = suffix_lookup m (drop (i - 1) (tl ls))"
  proof (rule suffix_lookup_skip)
    fix k assume "k < i - 1"
    with assms(1) [of "Suc k"] show "m (join ''.'' (drop k (tl ls))) = None"
      by (simp add: drop_Suc)
  qed (use assms(3) in simp)
  with assms(2) show ?thesis by (cases i) (simp_all add: drop_Suc)
qed

text \<open>A key that is a suffix of the labels has its reversed labels as a path of the tree.\<close>

lemma zone_key_path:
  assumes inv: "zone_inv w" and key: "map_of (map_or_nil (zvalues w)) (join ''.'' (drop k labels)) = Some v"
    and k: "k < length labels" and labels: "labels = split_host host"
  shows "has_path (zroot w) (rev (drop k labels))"
proof -
  have "split_host (join ''.'' (drop k labels)) = drop k labels"
    unfolding labels split_host_def
    using k labels by (intro split_on_join) (auto simp: split_host_def dest: in_set_dropD split_on_labels)
  with inv key show ?thesis by (auto simp: zone_inv_def dom_def)
qed

lemma rev_drop_eq:
  assumes "rev labels = p @ rest" and "k \<le> length rest"
  shows "rev (drop k labels) = p @ take (length rest - k) rest"
proof -
  have "labels = rev rest @ rev p"
    using assms(1) by (metis rev_append rev_rev_ident)
  with assms(2) show ?thesis by (simp add: rev_drop)
qed

lemma zone_match_spec_aux:
  assumes inv: "zone_inv w"
  shows "zone_match ul zero w hst = Some (found zero (zone_spec w (canonocalize_host ul hst)))"
proof -
  define host where "host = canonocalize_host ul hst"
  define labels where "labels = split_host host"
  define m where "m = map_of (map_or_nil (zvalues w))"
  have ne: "labels \<noteq> []" by (simp add: labels_def split_host_def)
  have host: "join ''.'' labels = host" by (simp add: labels_def split_host_join)
  have absent: "m (join ''.'' (drop k labels)) = None"
    if "rev labels = p @ rest" "k \<le> length rest" "k < length labels"
      "\<not> has_path (zroot w) (p @ take (length rest - k) rest)" for p rest k
    using zone_key_path [OF inv, of k labels _ host] that rev_drop_eq [OF that(1,2)]
    by (cases "m (join ''.'' (drop k labels))") (auto simp: labels_def m_def)
  have scan: "zone_scan (map_or_nil (zvalues w)) host
      (sum_list (map (\<lambda>l. length l + 1) (take (j + 1) labels))) (drop (j + 1) labels)
      = Some (suffix_lookup m (drop (j + 1) labels))" if "j < length labels" for j
    using zone_scan_suffix_lookup [of "j + 1" labels] that host by (simp add: m_def)
  show ?thesis
  proof (cases "zone_walk (zroot w) (rev labels)")
    case (Hit i)
    then obtain p rest where rl: "rev labels = p @ rest" and i: "length rest = i" "p \<noteq> []"
      and leaf: "leaf_path (zroot w) p" using zone_walk_Hit by blast
    have drop_i: "rev (drop i labels) = p" using rev_drop_eq [OF rl, of i] i by simp
    then have drop_i': "drop i labels = rev p" by (metis rev_rev_ident)
    obtain v where v: "m (join ''.'' (drop i labels)) = Some v"
      using zone_inv_leaf_key [OF inv, of "rev p"] leaf i by (auto simp: m_def drop_i')
    have less: "i < length labels" using arg_cong [OF rl, of length] i by (cases p) auto
    have "zone_spec w host = Some v"
    proof (cases "i = 0")
      case True
      with v leaf drop_i host show ?thesis by (simp add: zone_spec_def zone_leaf_def labels_def m_def)
    next
      case False
      have no: "\<not> has_path (zroot w) (p @ take (length rest - k) rest)" if "k < i" for k
        using leaf_path_no_ext [OF leaf] that i by fastforce
      have "\<not> zone_leaf w host"
        using no [of 0] False leaf_path_has_path rl i by (auto simp: zone_leaf_def labels_def)
      moreover have "suffix_lookup m (tl labels) = suffix_lookup m (drop i labels)"
        using absent [OF rl] no less i False by (intro suffix_lookup_skip_tl) auto
      ultimately show ?thesis
        using v less by (simp add: zone_spec_def labels_def m_def drop_eq_Cons_nth)
    qed
    with Hit v show ?thesis
      by (simp add: zone_match_def Let_def host_def [symmetric] labels_def [symmetric] m_def)
  next
    case (Miss j)
    then obtain p rest where rl: "rev labels = p @ rest" and j: "length rest = j"
      and miss: "\<not> has_path (zroot w) p" using zone_walk_Miss by blast
    have no: "\<not> has_path (zroot w) (p @ q)" for q
      using miss has_path_append by blast
    have pne: "p \<noteq> []" using miss by auto
    have less: "j < length labels" using arg_cong [OF rl, of length] j pne by (cases p) auto
    have "\<not> zone_leaf w host"
      using no leaf_path_has_path rl by (auto simp: zone_leaf_def labels_def)
    moreover have "suffix_lookup m (tl labels) = suffix_lookup m (drop (j + 1) labels)"
      using absent [OF rl] no less j by (intro suffix_lookup_skip_tl) auto
    ultimately have "zone_spec w host = suffix_lookup m (drop (j + 1) labels)"
      by (simp add: zone_spec_def labels_def m_def)
    with Miss scan [OF less] show ?thesis
      by (simp add: zone_match_def Let_def host_def [symmetric] labels_def [symmetric])
  next
    case Through
    then have "\<not> zone_leaf w host"
      using zone_walk_Through [of "zroot w" "rev labels"] ne by (simp add: zone_leaf_def labels_def)
    then have "zone_spec w host = suffix_lookup m (drop (0 + 1) labels)"
      by (simp add: zone_spec_def labels_def m_def drop_Suc)
    with Through scan [of 0] ne show ?thesis
      by (simp add: zone_match_def Let_def host_def [symmetric] labels_def [symmetric])
  qed
qed


lemma zone_leaf_iff:
  assumes inv: "zone_inv w"
  shows "zone_leaf w host \<longleftrightarrow> lone_zone (map_of (map_or_nil (zvalues w))) host"
proof
  let ?m = "map_of (map_or_nil (zvalues w))"
  assume leaf: "zone_leaf w host"
  then have "host \<in> dom ?m"
    using zone_inv_leaf_key [OF inv, of "split_host host"]
    by (simp add: zone_leaf_def split_host_join) (simp add: split_host_def)
  moreover have "k = host" if k: "k \<in> dom ?m" and suf: "suffix (split_host host) (split_host k)" for k
  proof -
    from suf obtain q where q: "split_host k = q @ split_host host" by (auto simp: suffix_def)
    from inv k have "has_path (zroot w) (rev (split_host host) @ rev q)"
      unfolding zone_inv_def by (metis q rev_append)
    with leaf have "rev q = []" unfolding zone_leaf_def by (rule leaf_path_no_ext)
    with q show ?thesis by (simp add: split_host_def split_on_inject)
  qed
  ultimately show "lone_zone ?m host" by (auto simp: lone_zone_def)
next
  let ?m = "map_of (map_or_nil (zvalues w))"
  let ?p = "rev (split_host host)"
  assume lone: "lone_zone ?m host"
  have ne: "?p \<noteq> []" by (simp add: split_host_def)
  from lone inv have path: "has_path (zroot w) ?p" by (simp add: lone_zone_def zone_inv_def)
  show "zone_leaf w host"
  proof (rule ccontr)
    assume "\<not> zone_leaf w host"
    with ne path inv obtain l where "has_path (zroot w) (?p @ [l])"
      by (auto simp: zone_leaf_def zone_inv_def bushy_def)
    with inv obtain k where k: "k \<in> dom ?m" and pre: "prefix (?p @ [l]) (rev (split_host k))"
      unfolding zone_inv_def by (metis snoc_eq_iff_butlast)
    from pre have pre': "suffix (l # split_host host) (split_host k)"
      by (simp add: suffix_to_prefix)
    then have "k = host" using lone k by (auto simp: lone_zone_def dest: suffix_ConsD)
    with pre' show False by (auto simp: suffix_def dest: arg_cong [where f = length])
  qed
qed

text \<open>A zone set built by insertions, and the map it stores.\<close>

definition zone_of :: "(string \<Rightarrow> string) \<Rightarrow> (string \<times> 'v) list \<Rightarrow> 'v zone" where
  "zone_of ul rules = foldl (\<lambda>w (zn, v). zone_insert ul w zn v) empty_zone rules"

definition rule_map :: "(string \<Rightarrow> string) \<Rightarrow> (string \<times> 'v) list \<Rightarrow> string \<rightharpoonup> 'v" where
  "rule_map ul rules = foldl (\<lambda>m (zn, v). m(canonocalize_host ul zn \<mapsto> v)) Map.empty rules"

lemma rule_map_snoc [simp]:
  "rule_map ul (rules @ [(h, v)]) = (rule_map ul rules)(canonocalize_host ul h \<mapsto> v)"
  by (simp add: rule_map_def)

lemma zone_insert_values:
  "map_of (map_or_nil (zvalues (zone_insert ul w zn v))) =
     (map_of (map_or_nil (zvalues w)))(canonocalize_host ul zn \<mapsto> v)"
  by (auto simp: zone_insert_def Let_def go_simps)

lemma zone_of_inv: "zone_inv (zone_of ul rules)"
proof (induction rules rule: rev_induct)
  case Nil
  then show ?case by (simp add: zone_of_def zone_inv_empty)
next
  case (snoc r rules)
  then show ?case by (cases r) (simp add: zone_of_def zone_inv_insert)
qed

lemma zone_of_values: "map_of (map_or_nil (zvalues (zone_of ul rules))) = rule_map ul rules"
proof (induction rules rule: rev_induct)
  case Nil
  then show ?case by (simp add: zone_of_def rule_map_def empty_zone_def)
next
  case (snoc r rules)
  then show ?case by (cases r) (simp add: zone_of_def zone_insert_values)
qed

text \<open>The lookup in the rules alone; the tree is gone.\<close>

definition zone_rules_match :: "(string \<Rightarrow> string) \<Rightarrow> (string \<times> 'v) list \<Rightarrow> string \<Rightarrow> 'v option" where
  "zone_rules_match ul rules host =
     (if lone_zone (rule_map ul rules) (canonocalize_host ul host)
      then rule_map ul rules (canonocalize_host ul host)
      else suffix_lookup (rule_map ul rules) (tl (split_host (canonocalize_host ul host))))"

lemma zone_match_rules:
  "zone_match ul zero (zone_of ul rules) host = Some (found zero (zone_rules_match ul rules host))"
  using zone_match_spec_aux [OF zone_of_inv, of ul zero ul rules host]
  by (simp add: zone_spec_def zone_leaf_iff [OF zone_of_inv] zone_of_values zone_rules_match_def)

section \<open>Properties\<close>

text \<open>The suffixes of a host that are shorter than it.\<close>

lemma suffix_lookup_None:
  "(\<And>i. i < length ls \<Longrightarrow> join ''.'' (drop i ls) \<notin> dom m) \<Longrightarrow> suffix_lookup m ls = None"
proof (induction ls)
  case (Cons l ls)
  have "join ''.'' (l # ls) \<notin> dom m" using Cons.prems [of 0] by simp
  moreover have "suffix_lookup m ls = None"
    by (rule Cons.IH) (use Cons.prems [of "Suc i" for i] in auto)
  ultimately show ?case by (auto simp: domIff)
qed simp

lemma join_proper_suffix_shorter:
  "i < length (tl ls) \<Longrightarrow> length (join [c] (drop i (tl ls))) < length (join [c] ls)"
proof (cases ls)
  case (Cons l ls')
  moreover assume "i < length (tl ls)"
  ultimately have i: "i < length ls'" and ne: "ls' \<noteq> []" by auto
  have "length (join [c] (drop i ls')) \<le> length (join [c] ls')"
    using join_drop [OF i, of c] by (metis diff_le_self length_drop)
  then show ?thesis using Cons ne by (simp add: join_Cons)
qed simp

lemma split_host_sub: "CHR ''.'' \<notin> set l \<Longrightarrow> split_host (l @ ''.'' @ z) = l # split_host z"
  by (simp add: split_host_def split_on_append)

text \<open>a zone rule also matches the zone's own name, as long as no other rule lies below the zone;
  adding a rule for a sub-zone takes that match away. The README says that \<open>*.example.com\<close> does not
  match \<open>example.com\<close>.\<close>

theorem zone_apex_depends_on_subzones:
  assumes "canonocalize_host ul z = z" and "canonocalize_host ul (l @ ''.'' @ z) = l @ ''.'' @ z"
    and "CHR ''.'' \<notin> set l"
  shows "zone_match ul zero (zone_of ul [(z, v)]) z = Some (v, True) \<and>
    zone_match ul zero (zone_of ul [(z, v), (l @ ''.'' @ z, v')]) z = Some (zero, False)"
proof
  have m1: "rule_map ul [(z, v)] = [z \<mapsto> v]" using assms(1) by (simp add: rule_map_def)
  show "zone_match ul zero (zone_of ul [(z, v)]) z = Some (v, True)"
    by (simp add: zone_match_rules zone_rules_match_def m1 assms(1) lone_zone_def)
next
  let ?k = "l @ ''.'' @ z"
  let ?m = "[z \<mapsto> v, ?k \<mapsto> v']"
  have m2: "rule_map ul [(z, v), (?k, v')] = ?m" using assms(1,2) by (simp add: rule_map_def)
  have "suffix (split_host z) (split_host ?k)" using split_host_sub [OF assms(3)] by (simp add: suffix_ConsI)
  then have "\<not> lone_zone ?m z" by (auto simp: lone_zone_def dest: arg_cong [where f = length])
  moreover have "suffix_lookup ?m (tl (split_host z)) = None"
  proof (rule suffix_lookup_None)
    fix i
    assume i: "i < length (tl (split_host z))"
    have "length (join ''.'' (drop i (tl (split_host z)))) < length z"
      using join_proper_suffix_shorter [OF i, of "CHR ''.''"] by (simp add: split_host_join)
    then show "join ''.'' (drop i (tl (split_host z))) \<notin> dom ?m" by auto
  qed
  ultimately show "zone_match ul zero (zone_of ul [(z, v), (?k, v')]) z = Some (zero, False)"
    unfolding zone_match_rules zone_rules_match_def assms(1) m2 by simp
qed

lemma zone_apex_depends_on_subzones_witness:
  "zone_match id (0 :: nat) (zone_of id [(''b.c'', 1)]) ''b.c'' = Some (1, True) \<and>
    zone_match id 0 (zone_of id [(''b.c'', 1), (''a'' @ ''.'' @ ''b.c'', 2 :: nat)]) ''b.c'' = Some (0, False)"
  by (rule zone_apex_depends_on_subzones) (simp_all add: canonocalize_graphic lower_char_def)

end
