(* ===== verification/CidrTable.thy ===== *)
theory CidrTable
  imports NetAddr HostTrie
begin

text \<open>
  The CIDR list of \<open>pkg/trie/cidr.go\<close>. \<open>Insert\<close> ranges over the slice while it inserts into it:
  the range expression is evaluated once, so the loop sees the old slice header, and whether it
  also sees the shifted elements depends on whether \<open>slices.Insert\<close> had room to work in place.
  The model keeps both: the slice has a capacity, \<open>grow\<close> stands for the runtime's choice of a new
  capacity, and the loop reads a view that aliases the list until the first reallocation. The
  lemmas hold for every \<open>grow\<close>: the lookup is longest-prefix match with the earliest rule
  winning ties, although the loop does not stop after its first insertion and so may insert the
  same node many times.
\<close>

section \<open>Data\<close>

record 'v cidr_node =
  nd_network :: ipnet
  nd_value :: 'v

record 'v cidr =
  celems :: "'v cidr_node list"
  ccap :: nat

definition empty_cidr :: "'v cidr" where
  "empty_cidr = \<lparr>celems = [], ccap = 0\<rparr>"

definition node_ones :: "'v cidr_node \<Rightarrow> nat" where
  "node_ones n = fst (mask_size (net_mask (nd_network n)))"

section \<open>Insert\<close>

text \<open>
  \<open>slices.Insert(s, i, m)\<close>: in place when the capacity suffices, otherwise a new array. The flag
  says whether the backing array is still the one that the loop ranges over.
\<close>

definition insert_at :: "nat \<Rightarrow> 'a \<Rightarrow> 'a list \<Rightarrow> 'a list" where
  "insert_at i x xs = take i xs @ x # drop i xs"

text \<open>
  The loop over \<open>i = k .. length view - 1\<close>: \<open>view\<close> is what the old slice header sees, \<open>aliased\<close>
  whether it shares its array with the current slice, whose elements and capacity are \<open>cur\<close> and \<open>cp\<close>.
\<close>

function cidr_loop ::
  "(nat \<Rightarrow> nat \<Rightarrow> nat) \<Rightarrow> 'v cidr_node \<Rightarrow> nat \<Rightarrow> 'v cidr_node list \<Rightarrow> bool \<Rightarrow>
   'v cidr_node list \<Rightarrow> nat \<Rightarrow> 'v cidr_node list \<times> nat" where
  "cidr_loop grow m i view aliased cur cp =
     (if i < length view then
        if node_ones (view ! i) < node_ones m then
          let cur' = insert_at i m cur in
          if length cur + 1 \<le> cp
          then cidr_loop grow m (i + 1) (if aliased then take (length view) cur' else view) aliased cur' cp
          else cidr_loop grow m (i + 1) view False cur' (grow cp (length cur + 1))
        else cidr_loop grow m (i + 1) view aliased cur cp
      else (cur, cp))"
  by pat_completeness auto
termination
  by (relation "measure (\<lambda>(grow, m, i, view, aliased, cur, cp). length view - i)") auto

declare cidr_loop.simps [simp del]

definition cidr_insert :: "(nat \<Rightarrow> nat \<Rightarrow> nat) \<Rightarrow> 'v cidr \<Rightarrow> ipnet \<Rightarrow> 'v \<Rightarrow> 'v cidr" where
  "cidr_insert grow t net v =
     (let m = \<lparr>nd_network = net, nd_value = v\<rparr>;
          (cur, cp) = cidr_loop grow m 0 (celems t) True (celems t) (ccap t)
      in \<lparr>celems = cur @ [m],
          ccap = (if length cur + 1 \<le> cp then cp else grow cp (length cur + 1))\<rparr>)"

section \<open>Match\<close>

definition cidr_match :: "'v \<Rightarrow> 'v cidr \<Rightarrow> byte list \<Rightarrow> 'v \<times> bool" where
  "cidr_match zero t ip =
     found zero (map_option nd_value (find (\<lambda>n. net_contains (nd_network n) ip) (celems t)))"

section \<open>What the loop does to the list\<close>

lemma length_insert_at [simp]: "length (insert_at i x xs) = Suc (length xs)"
  by (simp add: insert_at_def)

lemma set_insert_at [simp]: "set (insert_at i x xs) = insert x (set xs)"
proof -
  have "set (take i xs) \<union> set (drop i xs) = set xs"
    by (metis append_take_drop_id set_append)
  then show ?thesis by (auto simp: insert_at_def)
qed

lemma filter_insert_at: "filter (\<lambda>x. x \<noteq> m) (insert_at i m xs) = filter (\<lambda>x. x \<noteq> m) xs"
  by (simp add: insert_at_def) (metis append_take_drop_id filter_append)

lemma take_insert_at: "j \<le> i \<Longrightarrow> i \<le> length xs \<Longrightarrow> take j (insert_at i x xs) = take j xs"
  by (simp add: insert_at_def min_absorb1)

lemma take_Suc_insert_at: "i \<le> length xs \<Longrightarrow> take (Suc i) (insert_at i x xs) = take i xs @ [x]"
  by (simp add: insert_at_def)

text \<open>After the first insertion the loop only adds copies of the node further right.\<close>

lemma cidr_loop_later:
  assumes "cidr_loop grow m i view aliased cur cp = (cur', cp')" and "length view \<le> length cur"
  shows "take i cur' = take i cur \<and> filter (\<lambda>x. x \<noteq> m) cur' = filter (\<lambda>x. x \<noteq> m) cur
    \<and> length cur \<le> length cur'"
  using assms
proof (induction grow m i view aliased cur cp arbitrary: cur' cp' rule: cidr_loop.induct)
  case (1 grow m i view aliased cur cp)
  let ?ins = "insert_at i m cur"
  show ?case
  proof (cases "i < length view")
    case True
    note i = this
    have step: "take i cur' = take i cur \<and> filter (\<lambda>x. x \<noteq> m) cur' = filter (\<lambda>x. x \<noteq> m) cur
        \<and> length cur \<le> length cur'"
      if "take (i + 1) cur' = take (i + 1) c \<and> filter (\<lambda>x. x \<noteq> m) cur' = filter (\<lambda>x. x \<noteq> m) c
          \<and> length c \<le> length cur'" "c = cur \<or> c = ?ins" for c
    proof -
      have "take i c = take i cur"
        using that(2) i "1.prems"(2) by (auto simp: take_insert_at)
      moreover have "take i cur' = take i c"
        using that(1) by (metis Suc_eq_plus1 min.absorb1 le_add1 take_take)
      ultimately show ?thesis using that by (auto simp: filter_insert_at)
    qed
    show ?thesis
    proof (cases "node_ones (view ! i) < node_ones m")
      case less: True
      show ?thesis
      proof (cases "length cur + 1 \<le> cp")
        case room: True
        show ?thesis
          using "1.IH"(1) [OF i less refl room] "1.prems" i less room
          by (intro step [of ?ins]) (simp_all add: cidr_loop.simps [of grow m i] Let_def)
      next
        case full: False
        show ?thesis
          using "1.IH"(2) [OF i less refl full] "1.prems" i less full
          by (intro step [of ?ins]) (simp_all add: cidr_loop.simps [of grow m i] Let_def)
      qed
    next
      case ge: False
      show ?thesis
        using "1.IH"(3) [OF i ge] "1.prems" i ge
        by (intro step [of cur]) (simp_all add: cidr_loop.simps [of grow m i])
    qed
  next
    case False
    with "1.prems" show ?thesis by (simp add: cidr_loop.simps [of grow m i])
  qed
qed

text \<open>Up to the first insertion nothing has changed.\<close>

lemma cidr_loop_first:
  assumes "\<And>j. j < i \<Longrightarrow> \<not> node_ones (xs ! j) < node_ones m" and "i \<le> length xs"
  shows "cidr_loop grow m 0 xs aliased xs cp = cidr_loop grow m i xs aliased xs cp"
  using assms
proof (induction i)
  case (Suc i)
  then have "cidr_loop grow m 0 xs aliased xs cp = cidr_loop grow m i xs aliased xs cp"
    by simp
  also have "\<dots> = cidr_loop grow m (Suc i) xs aliased xs cp"
    using Suc.prems by (subst cidr_loop.simps) simp
  finally show ?case .
qed simp

text \<open>
  The shape of the result: the nodes with at least the new prefix length, the new node, then the
  rest in the old order with copies of the new node among them.
\<close>

lemma cidr_loop_shape:
  assumes "cidr_loop grow m 0 xs True xs cp = (cur, cp')"
  defines "A \<equiv> takeWhile (\<lambda>e. node_ones m \<le> node_ones e) xs"
    and "B \<equiv> dropWhile (\<lambda>e. node_ones m \<le> node_ones e) xs"
  shows "if B = [] then cur = xs
    else \<exists>C. cur = A @ m # C \<and> filter (\<lambda>x. x \<noteq> m) C = filter (\<lambda>x. x \<noteq> m) B"
proof -
  have xs: "xs = A @ B" by (simp add: A_def B_def)
  have A: "\<not> node_ones (xs ! j) < node_ones m" if "j < length A" for j
    using that by (metis A_def nth_mem not_le set_takeWhileD takeWhile_nth)
  from A xs have start: "cidr_loop grow m (length A) xs True xs cp = (cur, cp')"
    using cidr_loop_first [of "length A" xs m grow True cp] assms(1) by (simp add: xs)
  show ?thesis
  proof (cases B)
    case Nil
    with start xs show ?thesis by (simp add: cidr_loop.simps)
  next
    case (Cons b B')
    then have less: "node_ones b < node_ones m"
      using takeWhile_dropWhile_neq_Nil by (metis B_def not_le)
    define ys where "ys = insert_at (length A) m xs"
    have ys: "ys = A @ m # B" by (simp add: ys_def insert_at_def xs)
    have nth: "xs ! length A = b" and lt: "length A < length xs" using xs Cons by simp_all
    from start obtain view al c where
      "cidr_loop grow m (length A + 1) view al ys c = (cur, cp')" and "length view \<le> length ys"
      using nth lt less
      by (subst (asm) cidr_loop.simps) (auto simp: Let_def ys_def split: if_splits)
    from cidr_loop_later [OF this]
    have "take (length A + 1) cur = A @ [m]" and fil: "filter (\<lambda>x. x \<noteq> m) cur = filter (\<lambda>x. x \<noteq> m) ys"
      by (simp_all add: ys)
    then obtain C where cur: "cur = A @ m # C"
      by (metis append.assoc append_Cons append_Nil append_take_drop_id)
    with fil ys have "filter (\<lambda>x. x \<noteq> m) C = filter (\<lambda>x. x \<noteq> m) B" by simp
    with cur Cons show ?thesis by simp
  qed
qed

section \<open>Longest-prefix match\<close>

text \<open>
  The order the lookup relies on: whatever stands before the first occurrence of a node has at
  least its prefix length.
\<close>

definition lpm_order :: "'v cidr_node list \<Rightarrow> bool" where
  "lpm_order xs \<longleftrightarrow>
     (\<forall>us e vs. xs = us @ e # vs \<longrightarrow> e \<notin> set us \<longrightarrow> (\<forall>u \<in> set us. node_ones e \<le> node_ones u))"

text \<open>The better of a match so far and a later rule: the earlier one unless the later is narrower.\<close>

definition narrower :: "(ipnet \<times> 'v) option \<Rightarrow> ipnet \<times> 'v \<Rightarrow> (ipnet \<times> 'v) option" where
  "narrower best r = (case best of
     None \<Rightarrow> Some r
   | Some b \<Rightarrow> if fst (mask_size (net_mask (fst b))) < fst (mask_size (net_mask (fst r))) then Some r else Some b)"

definition lpm :: "(ipnet \<times> 'v) list \<Rightarrow> byte list \<Rightarrow> (ipnet \<times> 'v) option" where
  "lpm rules ip = foldl (\<lambda>best r. if net_contains (fst r) ip then narrower best r else best) None rules"

definition cidr_of :: "(nat \<Rightarrow> nat \<Rightarrow> nat) \<Rightarrow> (ipnet \<times> 'v) list \<Rightarrow> 'v cidr" where
  "cidr_of grow rules = foldl (\<lambda>t (net, v). cidr_insert grow t net v) empty_cidr rules"

lemma lpm_order_Nil [simp]: "lpm_order []"
  by (simp add: lpm_order_def)

lemma lpm_orderD:
  "lpm_order xs \<Longrightarrow> xs = us @ e # vs \<Longrightarrow> e \<notin> set us \<Longrightarrow> u \<in> set us \<Longrightarrow> node_ones e \<le> node_ones u"
  by (auto simp: lpm_order_def)


text \<open>\<open>Insert\<close> as a whole has the same shape: the new node in its place, copies of it behind.\<close>

lemma cidr_insert_shape:
  fixes t :: "'v cidr"
  assumes m_def: "m = \<lparr>nd_network = net, nd_value = v\<rparr>"
  obtains C where
    "celems (cidr_insert grow t net v) =
       takeWhile (\<lambda>e. node_ones m \<le> node_ones e) (celems t) @ m # C"
    and "filter (\<lambda>x. x \<noteq> m) C =
       filter (\<lambda>x. x \<noteq> m) (dropWhile (\<lambda>e. node_ones m \<le> node_ones e) (celems t))"
proof -
  let ?xs = "celems t"
  let ?A = "takeWhile (\<lambda>e. node_ones m \<le> node_ones e) ?xs"
  let ?B = "dropWhile (\<lambda>e. node_ones m \<le> node_ones e) ?xs"
  obtain cur cp where loop: "cidr_loop grow m 0 ?xs True ?xs (ccap t) = (cur, cp)" by fastforce
  then have elems: "celems (cidr_insert grow t net v) = cur @ [m]"
    by (simp add: cidr_insert_def m_def)
  show ?thesis
  proof (cases "?B = []")
    case True
    with cidr_loop_shape [OF loop] have "cur = ?xs" by simp
    moreover from True have "?xs = ?A" by (metis append_Nil2 takeWhile_dropWhile_id)
    ultimately have "celems (cidr_insert grow t net v) = ?A @ m # []" using elems by metis
    then show ?thesis by (rule that) (simp only: True filter.simps)
  next
    case False
    then obtain C where "cur = ?A @ m # C"
      and "filter (\<lambda>x. x \<noteq> m) C = filter (\<lambda>x. x \<noteq> m) ?B"
      using cidr_loop_shape [OF loop] unfolding if_not_P [OF False] by blast
    with elems show ?thesis by (intro that [of "C @ [m]"]) simp_all
  qed
qed

lemma lpm_order_drop: "lpm_order (A @ B) \<Longrightarrow> u \<in> set us \<Longrightarrow> B = us @ e # vs \<Longrightarrow> e \<notin> set A \<Longrightarrow>
    e \<notin> set us \<Longrightarrow> node_ones e \<le> node_ones u"
  by (rule lpm_orderD [of "A @ B" "A @ us" e vs]) auto

text \<open>Dropping copies of one node keeps what precedes a first occurrence.\<close>

lemma filter_split_first:
  "filter P ys = us @ e # vs \<Longrightarrow> \<exists>us' vs'. ys = us' @ e # vs' \<and> filter P us' = us"
proof (induction ys arbitrary: us)
  case (Cons y ys)
  show ?case
  proof (cases "P y")
    case True
    with Cons.prems consider "us = []" "y = e" | us1 where "us = y # us1" "filter P ys = us1 @ e # vs"
      by (cases us) auto
    then show ?thesis
    proof cases
      case 1
      then show ?thesis by (intro exI [of _ "[]"] exI [of _ ys]) auto
    next
      case 2
      then obtain us' vs' where "ys = us' @ e # vs'" "filter P us' = us1" using Cons.IH by blast
      with 2 True show ?thesis by (intro exI [of _ "y # us'"] exI [of _ vs']) auto
    qed
  next
    case False
    with Cons.prems Cons.IH [of us] obtain us' vs' where "ys = us' @ e # vs'" "filter P us' = us"
      by auto
    with False show ?thesis by (intro exI [of _ "y # us'"] exI [of _ vs']) auto
  qed
qed simp

lemma lpm_order_insert:
  assumes ord: "lpm_order (A @ B)"
    and A: "\<And>a. a \<in> set A \<Longrightarrow> node_ones m \<le> node_ones a"
    and B: "\<And>b B'. B = b # B' \<Longrightarrow> node_ones b < node_ones m"
    and C: "filter (\<lambda>x. x \<noteq> m) C = filter (\<lambda>x. x \<noteq> m) B"
  shows "lpm_order (A @ m # C)"
  unfolding lpm_order_def
proof (intro allI impI ballI)
  fix us e vs u
  assume split: "A @ m # C = us @ e # vs" and first: "e \<notin> set us" and u: "u \<in> set us"
  show "node_ones e \<le> node_ones u"
  proof (cases "e \<in> set A")
    case True
    then obtain a1 a2 where a: "A = a1 @ e # a2" "e \<notin> set a1" by (meson split_list_first)
    with split first have "us = a1"
      using before_first_unique [of us e vs a1 "a2 @ m # C"] by simp
    with u a ord show ?thesis
      by (intro lpm_orderD [of "A @ B" a1 e "a2 @ B"]) auto
  next
    case nA: False
    show ?thesis
    proof (cases "e = m")
      case True
      with nA split first have "us = A"
        using before_first_unique [of us e vs A C] by simp
      with u A True show ?thesis by simp
    next
      case ne: False
      have "e \<in> set (A @ m # C)" by (simp add: split)
      with nA ne have eC: "e \<in> set C" by simp
      then obtain c1 c2 where c: "C = c1 @ e # c2" "e \<notin> set c1" by (meson split_list_first)
      from c nA ne have "e \<notin> set (A @ m # c1)" by simp
      with split c first have us: "us = A @ m # c1"
        using before_first_unique [of us e vs "A @ m # c1" c2] by simp
      from c ne have "filter (\<lambda>x. x \<noteq> m) B = filter (\<lambda>x. x \<noteq> m) c1 @ e # filter (\<lambda>x. x \<noteq> m) c2"
        using C by simp
      then obtain b1 b2 where b: "B = b1 @ e # b2" and fb: "filter (\<lambda>x. x \<noteq> m) b1 = filter (\<lambda>x. x \<noteq> m) c1"
        using filter_split_first by metis
      have eb1: "e \<notin> set b1" using arg_cong [OF fb, of set] c(2) ne by auto
      have em: "node_ones e \<le> node_ones m"
      proof (cases b1)
        case Nil
        with b B show ?thesis by fastforce
      next
        case (Cons b0 b1')
        then have "node_ones e \<le> node_ones b0"
          using lpm_order_drop [OF ord _ b nA eb1, of b0] by simp
        moreover have "node_ones b0 < node_ones m" using B b Cons by simp
        ultimately show ?thesis by simp
      qed
      from u us consider "u \<in> set A" | "u = m" | "u \<in> set b1" "u \<noteq> m"
        using arg_cong [OF fb, of set] by auto
      then show ?thesis
      proof cases
        case 1
        with em A show ?thesis by (meson order_trans)
      next
        case 3
        then show ?thesis using lpm_order_drop [OF ord _ b nA eb1] by simp
      qed (use em in simp)
    qed
  qed
qed

text \<open>One insertion changes the first match exactly as \<open>narrower\<close> says.\<close>

lemma find_insert:
  assumes ord: "lpm_order (A @ B)"
    and A: "\<And>a. a \<in> set A \<Longrightarrow> node_ones m \<le> node_ones a"
    and B: "\<And>b B'. B = b # B' \<Longrightarrow> node_ones b < node_ones m"
    and C: "filter (\<lambda>x. x \<noteq> m) C = filter (\<lambda>x. x \<noteq> m) B"
  shows "find P (A @ m # C) =
    (if P m then (case find P (A @ B) of
        None \<Rightarrow> Some m | Some e \<Rightarrow> if node_ones e < node_ones m then Some m else Some e)
     else find P (A @ B))"
proof (cases "P m")
  case False
  have "find P C = find P B"
    using find_filter_neq [of P m C] find_filter_neq [of P m B] False C by simp
  with False show ?thesis by (simp add: find_append split: option.split)
next
  case True
  show ?thesis
  proof (cases "find P A")
    case (Some e)
    then have "node_ones m \<le> node_ones e" using A by (auto simp: find_Some_iff)
    with Some True show ?thesis by (simp add: find_append)
  next
    case None
    show ?thesis
    proof (cases "find P B")
      case (Some e)
      then obtain b1 b2 where b: "B = b1 @ e # b2" "\<forall>x \<in> set b1. \<not> P x" "P e"
        using find_Some_split [of P B e] by blast
      then have eA: "e \<notin> set A" and eb1: "e \<notin> set b1" using None by (auto simp: find_None_iff)
      have "node_ones e < node_ones m"
      proof (cases b1)
        case Nil
        with b(1) B show ?thesis by simp
      next
        case (Cons b0 b1')
        then have "node_ones e \<le> node_ones b0"
          using lpm_order_drop [OF ord _ b(1) eA eb1, of b0] by simp
        moreover have "node_ones b0 < node_ones m" using B b(1) Cons by simp
        ultimately show ?thesis by simp
      qed
      with None Some True show ?thesis by (simp add: find_append)
    qed (use None True in \<open>simp add: find_append\<close>)
  qed
qed

text \<open>The order invariant and the lookup, for a whole table.\<close>

lemma cidr_insert_parts:
  fixes t :: "'v cidr"
  assumes m_def: "m = \<lparr>nd_network = net, nd_value = v\<rparr>"
  obtains A B C where "celems t = A @ B"
    and "celems (cidr_insert grow t net v) = A @ m # C"
    and "\<And>a. a \<in> set A \<Longrightarrow> node_ones m \<le> node_ones a"
    and "\<And>b B'. B = b # B' \<Longrightarrow> node_ones b < node_ones m"
    and "filter (\<lambda>x. x \<noteq> m) C = filter (\<lambda>x. x \<noteq> m) B"
proof -
  let ?A = "takeWhile (\<lambda>e. node_ones m \<le> node_ones e) (celems t)"
  let ?B = "dropWhile (\<lambda>e. node_ones m \<le> node_ones e) (celems t)"
  obtain C where C: "celems (cidr_insert grow t net v) = ?A @ m # C"
    "filter (\<lambda>x. x \<noteq> m) C = filter (\<lambda>x. x \<noteq> m) ?B"
    by (rule cidr_insert_shape [OF m_def, of grow t])
  have head: "node_ones b < node_ones m" if "?B = b # B'" for b B'
    using takeWhile_dropWhile_neq_Nil [OF that] by simp
  show ?thesis
    by (rule that [of ?A ?B C]) (simp_all only: C takeWhile_dropWhile_id head, blast dest: set_takeWhileD)
qed

lemma cidr_insert_order:
  assumes "lpm_order (celems t)"
  shows "lpm_order (celems (cidr_insert grow t net v))"
proof -
  obtain A B C where p: "celems t = A @ B"
    "celems (cidr_insert grow t net v) = A @ \<lparr>nd_network = net, nd_value = v\<rparr> # C"
    "\<And>a. a \<in> set A \<Longrightarrow> node_ones \<lparr>nd_network = net, nd_value = v\<rparr> \<le> node_ones a"
    "\<And>b B'. B = b # B' \<Longrightarrow> node_ones b < node_ones \<lparr>nd_network = net, nd_value = v\<rparr>"
    "filter (\<lambda>x. x \<noteq> \<lparr>nd_network = net, nd_value = v\<rparr>) C = filter (\<lambda>x. x \<noteq> \<lparr>nd_network = net, nd_value = v\<rparr>) B"
    by (rule cidr_insert_parts [OF refl, of t grow net v]) blast
  show ?thesis unfolding p(2)
    by (rule lpm_order_insert [OF _ p(3) p(4) p(5)]) (simp_all only: assms p(1) [symmetric])
qed

lemma cidr_insert_find:
  assumes ord: "lpm_order (celems t)" and m_def: "m = \<lparr>nd_network = net, nd_value = v\<rparr>"
  shows "find P (celems (cidr_insert grow t net v)) =
    (if P m then (case find P (celems t) of
        None \<Rightarrow> Some m | Some e \<Rightarrow> if node_ones e < node_ones m then Some m else Some e)
     else find P (celems t))"
proof -
  obtain A B C where p: "celems t = A @ B" "celems (cidr_insert grow t net v) = A @ m # C"
    "\<And>a. a \<in> set A \<Longrightarrow> node_ones m \<le> node_ones a"
    "\<And>b B'. B = b # B' \<Longrightarrow> node_ones b < node_ones m"
    "filter (\<lambda>x. x \<noteq> m) C = filter (\<lambda>x. x \<noteq> m) B"
    by (rule cidr_insert_parts [OF m_def, of t grow]) blast
  show ?thesis unfolding p(2) p(1)
    by (rule find_insert [OF _ p(3) p(4) p(5)]) (simp_all only: ord p(1) [symmetric])
qed

definition node_of :: "ipnet \<times> 'v \<Rightarrow> 'v cidr_node" where
  "node_of r = \<lparr>nd_network = fst r, nd_value = snd r\<rparr>"

lemma cidr_of_snoc: "cidr_of grow (rules @ [(net, v)]) = cidr_insert grow (cidr_of grow rules) net v"
  by (simp add: cidr_of_def)

lemma cidr_of_order: "lpm_order (celems (cidr_of grow rules))"
proof (induction rules rule: rev_induct)
  case (snoc r rules)
  then show ?case by (cases r) (simp add: cidr_of_snoc cidr_insert_order)
qed (simp add: cidr_of_def empty_cidr_def)

lemma lpm_snoc: "lpm (rules @ [r]) ip =
    (if net_contains (fst r) ip then narrower (lpm rules ip) r else lpm rules ip)"
  by (simp add: lpm_def)

lemma cidr_of_find:
  "find (\<lambda>n. net_contains (nd_network n) ip) (celems (cidr_of grow rules)) =
     map_option node_of (lpm rules ip)"
proof (induction rules rule: rev_induct)
  case Nil
  then show ?case by (simp add: cidr_of_def empty_cidr_def lpm_def)
next
  case (snoc r rules)
  obtain net v where r: "r = (net, v)" by fastforce
  show ?case
    using snoc unfolding r cidr_of_snoc cidr_insert_find [OF cidr_of_order refl] lpm_snoc
    by (auto simp: narrower_def node_of_def node_ones_def split: option.split)
qed

lemma cidr_match_of_rules:
  "cidr_match zero (cidr_of grow rules) ip = found zero (map_option snd (lpm rules ip))"
  by (simp add: cidr_match_def cidr_of_find option.map_comp comp_def node_of_def)

text \<open>What \<open>lpm\<close> promises: a rule that contains the address, and none that does is narrower.\<close>

lemma lpm_None_iff: "lpm rules ip = None \<longleftrightarrow> (\<forall>r \<in> set rules. \<not> net_contains (fst r) ip)"
  by (induction rules rule: rev_induct) (auto simp: lpm_snoc narrower_def lpm_def split: option.splits)

lemma lpm_Some:
  "lpm rules ip = Some r \<Longrightarrow> r \<in> set rules \<and> net_contains (fst r) ip \<and>
     (\<forall>r' \<in> set rules. net_contains (fst r') ip \<longrightarrow>
        fst (mask_size (net_mask (fst r'))) \<le> fst (mask_size (net_mask (fst r))))"
proof (induction rules arbitrary: r rule: rev_induct)
  case Nil
  then show ?case by (simp add: lpm_def)
next
  case (snoc x xs)
  show ?case
  proof (cases "net_contains (fst x) ip")
    case False
    with snoc show ?thesis by (auto simp: lpm_snoc)
  next
    case True
    show ?thesis
    proof (cases "lpm xs ip")
      case None
      with True snoc.prems have "r = x" by (simp add: lpm_snoc narrower_def)
      with True None show ?thesis by (auto simp: lpm_None_iff)
    next
      case (Some b)
      with snoc.IH True snoc.prems show ?thesis
        by (fastforce simp: lpm_snoc narrower_def split: if_splits)
    qed
  qed
qed

section \<open>How the list grows\<close>

text \<open>
  The loop has no \<open>break\<close> after \<open>slices.Insert\<close> and \<open>append\<close> runs in any case: a node narrower than
  every present one is inserted once for each of them and once more at the end, so a table
  filled with ever narrower networks doubles with every rule.
\<close>

lemma cidr_loop_all_wider:
  assumes "\<And>j. j < length view \<Longrightarrow> i \<le> j \<Longrightarrow> node_ones (view ! j) < node_ones m"
    and "aliased \<Longrightarrow> view = take (length view) cur" and "length view \<le> length cur"
  shows "length (fst (cidr_loop grow m i view aliased cur cp)) = length cur + (length view - i)"
  using assms
proof (induction grow m i view aliased cur cp rule: cidr_loop.induct)
  case (1 grow m i view aliased cur cp)
  let ?ins = "insert_at i m cur"
  show ?case
  proof (cases "i < length view")
    case True
    then have less: "node_ones (view ! i) < node_ones m" using "1.prems"(1) by simp
    show ?thesis
    proof (cases "length cur + 1 \<le> cp")
      case room: True
      let ?view = "if aliased then take (length view) ?ins else view"
      have len: "length ?view = length view" using "1.prems"(3) by simp
      have wider: "node_ones (?view ! j) < node_ones m" if "j < length view" "i + 1 \<le> j" for j
      proof (cases aliased)
        case al: True
        have "?ins ! j = cur ! (j - 1)"
          using that True "1.prems"(3) by (simp add: insert_at_def nth_append min_absorb1 nth_Cons')
        also have "\<dots> = view ! (j - 1)"
          using "1.prems"(2) [OF al] that by (metis diff_le_self le_less_trans nth_take)
        finally show ?thesis using "1.prems"(1) [of "j - 1"] that al by simp
      qed (use "1.prems"(1) that in simp)
      have "length (fst (cidr_loop grow m (i + 1) ?view aliased ?ins cp))
          = length ?ins + (length ?view - (i + 1))"
        by (rule "1.IH"(1) [OF True less refl room]) (use wider len "1.prems"(3) in auto)
      then show ?thesis
        using True less room len by (subst cidr_loop.simps) (simp add: Let_def)
    next
      case full: False
      have "length (fst (cidr_loop grow m (i + 1) view False ?ins (grow cp (length cur + 1))))
          = length ?ins + (length view - (i + 1))"
        by (rule "1.IH"(2) [OF True less refl full]) (use "1.prems" in auto)
      then show ?thesis
        using True less full by (subst cidr_loop.simps) (simp add: Let_def)
    qed
  next
    case False
    then show ?thesis by (subst cidr_loop.simps) simp
  qed
qed

lemma cidr_insert_narrowest_length:
  assumes "\<And>n. n \<in> set (celems t) \<Longrightarrow> node_ones n < fst (mask_size (net_mask net))"
  shows "length (celems (cidr_insert grow t net v)) = 2 * length (celems t) + 1"
proof -
  define m where "m = \<lparr>nd_network = net, nd_value = v\<rparr>"
  have "length (fst (cidr_loop grow m 0 (celems t) True (celems t) (ccap t)))
      = length (celems t) + (length (celems t) - 0)"
    by (rule cidr_loop_all_wider) (use assms in \<open>auto simp: m_def node_ones_def\<close>)
  then show ?thesis
    unfolding cidr_insert_def m_def [symmetric] by (simp add: Let_def case_prod_beta)
qed

lemma cidr_insert_set:
  "set (celems (cidr_insert grow t net v)) = insert (node_of (net, v)) (set (celems t))"
proof -
  define m where "m = \<lparr>nd_network = net, nd_value = v\<rparr>"
  obtain A B C where t: "celems t = A @ B" and el: "celems (cidr_insert grow t net v) = A @ m # C"
    and C: "filter (\<lambda>x. x \<noteq> m) C = filter (\<lambda>x. x \<noteq> m) B"
    by (rule cidr_insert_parts [OF m_def, of t grow]) blast
  have "set C - {m} = set B - {m}"
    using arg_cong [OF C, of set] by (simp add: set_filter Collect_conj_eq Diff_eq) blast
  moreover have "node_of (net, v) = m" by (simp add: node_of_def m_def)
  ultimately show ?thesis unfolding el t by (simp only: set_append set_simps) blast
qed

lemma cidr_of_set: "set (celems (cidr_of grow rules)) = node_of ` set rules"
proof (induction rules rule: rev_induct)
  case Nil
  then show ?case by (simp add: cidr_of_def empty_cidr_def)
next
  case (snoc r rules)
  then show ?case by (cases r) (simp add: cidr_of_snoc cidr_insert_set)
qed

lemma cidr_of_narrowing_length:
  "sorted_wrt (\<lambda>a b. fst (mask_size (net_mask (fst a))) < fst (mask_size (net_mask (fst b)))) rules \<Longrightarrow>
   length (celems (cidr_of grow rules)) = 2 ^ length rules - 1"
proof (induction rules rule: rev_induct)
  case Nil
  then show ?case by (simp add: cidr_of_def empty_cidr_def)
next
  case (snoc r rules)
  obtain net v where r: "r = (net, v)" by fastforce
  have "length (celems (cidr_of grow (rules @ [r]))) = 2 * length (celems (cidr_of grow rules)) + 1"
    unfolding r cidr_of_snoc
    by (rule cidr_insert_narrowest_length)
      (use snoc.prems r in \<open>auto simp: cidr_of_set sorted_wrt_append node_ones_def node_of_def\<close>)
  also have "\<dots> = 2 * (2 ^ length rules - 1) + 1"
    using snoc by (simp add: sorted_wrt_append)
  also have "\<dots> = 2 ^ length (rules @ [r]) - (1 :: nat)"
    by (cases "2 ^ length rules :: nat") simp_all
  finally show ?case .
qed

section \<open>Properties\<close>

text \<open>C8: whatever capacities the runtime picks, a lookup in the CIDR list of some rules is a
  longest-prefix match, the earliest rule winning among equal prefixes: it finds a rule's value exactly
  when a rule contains the address, and then no containing rule has a longer prefix.\<close>

theorem cidr_longest_prefix_match:
  "cidr_match zero (cidr_of grow rules) ip = found zero (map_option snd (lpm rules ip)) \<and>
   (case lpm rules ip of
      None \<Rightarrow> (\<forall>r \<in> set rules. \<not> net_contains (fst r) ip)
    | Some r \<Rightarrow> r \<in> set rules \<and> net_contains (fst r) ip \<and>
        (\<forall>r' \<in> set rules. net_contains (fst r') ip \<longrightarrow>
           fst (mask_size (net_mask (fst r'))) \<le> fst (mask_size (net_mask (fst r)))))"
  using cidr_match_of_rules [of zero grow rules ip] lpm_None_iff [of rules ip] lpm_Some [of rules ip]
  by (cases "lpm rules ip") auto

lemma cidr_longest_prefix_match_witness:
  "(case lpm [(\<lparr>net_ip = [10,0,0,0], net_mask = [255,0,0,0]\<rparr>, 1 :: nat),
      (\<lparr>net_ip = [10,1,0,0], net_mask = [255,255,0,0]\<rparr>, 2)] [10,1,2,3] of
     None \<Rightarrow> False | Some r \<Rightarrow> snd r = 2) \<and>
   cidr_match 0 (cidr_of (\<lambda>c n. n) [(\<lparr>net_ip = [10,0,0,0], net_mask = [255,0,0,0]\<rparr>, 1 :: nat),
      (\<lparr>net_ip = [10,1,0,0], net_mask = [255,255,0,0]\<rparr>, 2)]) [10,1,2,3] = (2, True)"
proof
  show hit: "case lpm [(\<lparr>net_ip = [10,0,0,0], net_mask = [255,0,0,0]\<rparr>, 1 :: nat),
      (\<lparr>net_ip = [10,1,0,0], net_mask = [255,255,0,0]\<rparr>, 2)] [10,1,2,3] of
     None \<Rightarrow> False | Some r \<Rightarrow> snd r = 2" by code_simp
  then show "cidr_match 0 (cidr_of (\<lambda>c n. n) [(\<lparr>net_ip = [10,0,0,0], net_mask = [255,0,0,0]\<rparr>, 1 :: nat),
      (\<lparr>net_ip = [10,1,0,0], net_mask = [255,255,0,0]\<rparr>, 2)]) [10,1,2,3] = (2, True)"
    using cidr_longest_prefix_match [of 0 "\<lambda>c n. n" "[(\<lparr>net_ip = [10,0,0,0], net_mask = [255,0,0,0]\<rparr>, 1 :: nat),
      (\<lparr>net_ip = [10,1,0,0], net_mask = [255,255,0,0]\<rparr>, 2)]" "[10,1,2,3]"]
    by (auto split: option.splits)
qed

text \<open>C40: \<open>Insert\<close> goes on after it has inserted, so rules that come in order of ever longer prefixes
  double the list: \<open>n\<close> of them leave \<open>2 ^ n - 1\<close> nodes.\<close>

theorem cidr_insert_doubles:
  assumes "sorted_wrt (\<lambda>a b. fst (mask_size (net_mask (fst a))) < fst (mask_size (net_mask (fst b)))) rules"
  shows "length (celems (cidr_of grow rules)) = 2 ^ length rules - 1"
  using assms by (rule cidr_of_narrowing_length)

lemma cidr_insert_doubles_witness:
  "length (celems (cidr_of (\<lambda>c n. n) [(\<lparr>net_ip = [10,0,0,0], net_mask = [255,0,0,0]\<rparr>, 1 :: nat),
      (\<lparr>net_ip = [10,1,0,0], net_mask = [255,255,0,0]\<rparr>, 2)])) = 2 ^ 2 - 1"
proof -
  have "sorted_wrt (\<lambda>a b. fst (mask_size (net_mask (fst a))) < fst (mask_size (net_mask (fst b))))
    [(\<lparr>net_ip = [10,0,0,0], net_mask = [255,0,0,0]\<rparr>, 1 :: nat),
      (\<lparr>net_ip = [10,1,0,0], net_mask = [255,255,0,0]\<rparr>, 2)]" by code_simp
  from cidr_insert_doubles [OF this, of "\<lambda>c n. n"] show ?thesis by (simp add: eval_nat_numeral)
qed

end
