(* ===== verification/RuleTrie.thy ===== *)
theory RuleTrie
  imports CidrTable
begin

text \<open>
  The rule trie of \<open>pkg/trie/trie.go\<close> and the rule set of \<open>pkg/dialer/ruleset.go\<close> that wraps it.
  A rule is text; \<open>Insert\<close> decides whether it is a network, a zone with its apex (\<open>.zone\<close>), a zone
  (\<open>*.zone\<close>) or a host. \<open>trie_match_rules\<close> says what a lookup in the trie of a list of rules finds, in
  terms of the rules alone.
\<close>

section \<open>The trie\<close>

record 'v trie =
  thost :: "'v host"
  tzone :: "'v zone"
  tcidr :: "'v cidr"

definition empty_trie :: "'v trie" where
  "empty_trie = \<lparr>thost = [], tzone = empty_zone, tcidr = empty_cidr\<rparr>"

definition trie_insert ::
  "(string \<Rightarrow> string) \<Rightarrow> (nat \<Rightarrow> nat \<Rightarrow> nat) \<Rightarrow> 'v trie \<Rightarrow> string \<Rightarrow> 'v \<Rightarrow> 'v trie" where
  "trie_insert ul grow m host v =
     (case parse_cidr host of
        Inr (ip, net) \<Rightarrow> m\<lparr>tcidr := cidr_insert grow (tcidr m) net v\<rparr>
      | Inl _ \<Rightarrow>
          let (base, ok) = cut_prefix host ''.'' in
          if ok then m\<lparr>tzone := zone_insert ul (tzone m) base v, thost := host_insert ul (thost m) base v\<rparr>
          else let (base, ok) = cut_prefix host ''*.'' in
          if ok then m\<lparr>tzone := zone_insert ul (tzone m) base v\<rparr>
          else m\<lparr>thost := host_insert ul (thost m) host v\<rparr>)"

definition trie_match :: "(string \<Rightarrow> string) \<Rightarrow> 'v \<Rightarrow> 'v trie \<Rightarrow> string \<Rightarrow> ('v \<times> bool) option" where
  "trie_match ul zero m host =
     (let (v, ok) = host_match ul zero (thost m) host in
      if ok then Some (v, ok)
      else (case parse_ip host of
              Some ip \<Rightarrow> Some (cidr_match zero (tcidr m) ip)
            | None \<Rightarrow> zone_match ul zero (tzone m) host))"

text \<open>
  \<open>Walk\<close> hands entries to \<open>yield\<close> until it returns false. \<open>yield\<close> threads the state of the loop body;
  \<open>hs\<close> and \<open>zs\<close> are the orders in which the runtime ranges over the two maps.
\<close>

definition trie_walk ::
  "('s \<Rightarrow> string \<times> 'v \<Rightarrow> 's \<times> bool) \<Rightarrow> 's \<Rightarrow> 'v trie \<Rightarrow> (string \<times> 'v) list \<Rightarrow> (string \<times> 'v) list \<Rightarrow> 's" where
  "trie_walk yield s m hs zs =
     (let (s1, go) = yield_loop yield s hs in
      if \<not> go then s1 else
      let (s2, go) = yield_loop (\<lambda>s (k, v). yield s (''*.'' @ k, v)) s1 zs in
      if \<not> go then s2 else
      fst (yield_loop (\<lambda>s n. yield s (ipnet_string (nd_network n), nd_value n)) s2 (celems (tcidr m))))"

section \<open>The rule set\<close>

definition ruleset_add ::
  "(string \<Rightarrow> string) \<Rightarrow> (nat \<Rightarrow> nat \<Rightarrow> nat) \<Rightarrow> 'v trie \<Rightarrow> string \<Rightarrow> 'v \<Rightarrow> 'v trie" where
  "ruleset_add ul grow rs host p = trie_insert ul grow rs host p"

text \<open>A nil \<open>*RuleSet\<close> is \<open>None\<close>.\<close>

definition ruleset_hosts ::
  "('s \<Rightarrow> string \<Rightarrow> 's \<times> bool) \<Rightarrow> 's \<Rightarrow> 'v trie option \<Rightarrow> (string \<times> 'v) list \<Rightarrow> (string \<times> 'v) list \<Rightarrow> 's" where
  "ruleset_hosts yield s rs hs zs =
     (case rs of None \<Rightarrow> s | Some m \<Rightarrow> trie_walk (\<lambda>s (k, v). yield s k) s m hs zs)"

definition ruleset_match :: "(string \<Rightarrow> string) \<Rightarrow> 'v \<Rightarrow> 'v trie option \<Rightarrow> string \<Rightarrow> ('v \<times> bool) option" where
  "ruleset_match ul nil rs host = (case rs of None \<Rightarrow> Some (nil, False) | Some m \<Rightarrow> trie_match ul nil m host)"

section \<open>What a list of rules means\<close>

datatype rule = Network ipnet | ZoneApex string | ZoneOnly string | HostName string

definition rule_kind :: "string \<Rightarrow> rule" where
  "rule_kind r = (case parse_cidr r of
      Inr (ip, net) \<Rightarrow> Network net
    | Inl _ \<Rightarrow> if has_prefix r ''.'' then ZoneApex (drop 1 r)
        else if has_prefix r ''*.'' then ZoneOnly (drop 2 r) else HostName r)"

fun host_rules :: "(string \<times> 'v) list \<Rightarrow> (string \<times> 'v) list" where
  "host_rules [] = []"
| "host_rules ((r, v) # rs) = (case rule_kind r of
     ZoneApex z \<Rightarrow> (z, v) # host_rules rs | HostName h \<Rightarrow> (h, v) # host_rules rs | _ \<Rightarrow> host_rules rs)"

fun zone_rules :: "(string \<times> 'v) list \<Rightarrow> (string \<times> 'v) list" where
  "zone_rules [] = []"
| "zone_rules ((r, v) # rs) = (case rule_kind r of
     ZoneApex z \<Rightarrow> (z, v) # zone_rules rs | ZoneOnly z \<Rightarrow> (z, v) # zone_rules rs | _ \<Rightarrow> zone_rules rs)"

fun net_rules :: "(string \<times> 'v) list \<Rightarrow> (ipnet \<times> 'v) list" where
  "net_rules [] = []"
| "net_rules ((r, v) # rs) = (case rule_kind r of
     Network n \<Rightarrow> (n, v) # net_rules rs | _ \<Rightarrow> net_rules rs)"

definition rules_match :: "(string \<Rightarrow> string) \<Rightarrow> (string \<times> 'v) list \<Rightarrow> string \<Rightarrow> 'v option" where
  "rules_match ul rules host =
     (case rule_map ul (host_rules rules) (canonocalize_host ul host) of
        Some v \<Rightarrow> Some v
      | None \<Rightarrow> (case parse_ip host of
          Some ip \<Rightarrow> map_option snd (lpm (net_rules rules) ip)
        | None \<Rightarrow> zone_rules_match ul (zone_rules rules) host))"

definition trie_of ::
  "(string \<Rightarrow> string) \<Rightarrow> (nat \<Rightarrow> nat \<Rightarrow> nat) \<Rightarrow> (string \<times> 'v) list \<Rightarrow> 'v trie" where
  "trie_of ul grow rules = foldl (\<lambda>m (r, v). ruleset_add ul grow m r v) empty_trie rules"

section \<open>The trie of a list of rules\<close>

lemma rules_append:
  "host_rules (xs @ ys) = host_rules xs @ host_rules ys"
  "zone_rules (xs @ ys) = zone_rules xs @ zone_rules ys"
  "net_rules (xs @ ys) = net_rules xs @ net_rules ys"
  by (induction xs) (auto split: rule.split)

lemma has_prefix_cut: "has_prefix s p \<Longrightarrow> cut_prefix s p = (drop (length p) s, True)"
  "\<not> has_prefix s p \<Longrightarrow> cut_prefix s p = (s, False)"
  by (simp_all add: cut_prefix_def)

lemma trie_insert_kind:
  "trie_insert ul grow m r v = (case rule_kind r of
     Network n \<Rightarrow> m\<lparr>tcidr := cidr_insert grow (tcidr m) n v\<rparr>
   | ZoneApex z \<Rightarrow> m\<lparr>tzone := zone_insert ul (tzone m) z v, thost := host_insert ul (thost m) z v\<rparr>
   | ZoneOnly z \<Rightarrow> m\<lparr>tzone := zone_insert ul (tzone m) z v\<rparr>
   | HostName h \<Rightarrow> m\<lparr>thost := host_insert ul (thost m) h v\<rparr>)"
  by (auto simp: trie_insert_def rule_kind_def has_prefix_cut eval_nat_numeral split: sum.split prod.split)

lemma trie_of_parts:
  "map_of (thost (trie_of ul grow rules)) = rule_map ul (host_rules rules)
   \<and> tzone (trie_of ul grow rules) = zone_of ul (zone_rules rules)
   \<and> tcidr (trie_of ul grow rules) = cidr_of grow (net_rules rules)"
proof (induction rules rule: rev_induct)
  case Nil
  then show ?case
    by (simp add: trie_of_def empty_trie_def rule_map_def zone_of_def cidr_of_def)
next
  case (snoc x rules)
  obtain r v where x: "x = (r, v)" by fastforce
  have step: "trie_of ul grow (rules @ [(r, v)]) = trie_insert ul grow (trie_of ul grow rules) r v"
    by (simp add: trie_of_def ruleset_add_def)
  show ?case
    using snoc unfolding x step rules_append trie_insert_kind
    by (cases "rule_kind r")
      (simp_all add: host_insert_def zone_of_def cidr_of_def go_simps)
qed

lemma trie_of_match: "trie_match ul zero (trie_of ul grow rules) host = Some (found zero (rules_match ul rules host))"
  using trie_of_parts [of ul grow rules]
  by (simp add: trie_match_def host_match_def rules_match_def cidr_match_of_rules zone_match_rules
      split: option.split)

lemma wf_trie_hosts: "wf_map (thost (trie_of ul grow rules))"
proof (induction rules rule: rev_induct)
  case Nil
  then show ?case by (simp add: trie_of_def empty_trie_def)
next
  case (snoc x rules)
  then show ?case
    by (cases x) (simp add: trie_of_def ruleset_add_def trie_insert_kind host_insert_def split: rule.split)
qed

text \<open>
  The law a client of a rule table relies on: a lookup depends on the rules that were added, and is
  given by \<open>meaning\<close>. Lookups return the code's pair; \<open>None\<close> is a panic.
\<close>

locale rule_table =
  fixes empty :: 't
    and add :: "'t \<Rightarrow> string \<Rightarrow> 'v \<Rightarrow> 't"
    and lookup :: "'t \<Rightarrow> string \<Rightarrow> ('v \<times> bool) option"
    and meaning :: "(string \<times> 'v) list \<Rightarrow> string \<Rightarrow> 'v option"
    and zero :: 'v
  assumes lookup_meaning:
    "lookup (foldl (\<lambda>t (r, v). add t r v) empty rules) h = Some (found zero (meaning rules h))"
begin

lemma lookup_total: "\<exists>v ok. lookup (foldl (\<lambda>t (r, v). add t r v) empty rules) h = Some (v, ok)"
  by (simp add: lookup_meaning)

lemma lookup_hit:
  "lookup (foldl (\<lambda>t (r, v). add t r v) empty rules) h = Some (v, True) \<longleftrightarrow> meaning rules h = Some v"
  by (auto simp: lookup_meaning found_def split: option.split)

lemma lookup_miss:
  "lookup (foldl (\<lambda>t (r, v). add t r v) empty rules) h = Some (v, False) \<longleftrightarrow> meaning rules h = None \<and> v = zero"
  by (auto simp: lookup_meaning found_def split: option.split)

text \<open>Two tables whose rules mean the same cannot be told apart by lookups.\<close>

lemma lookup_cong:
  "(\<And>h. meaning rs h = meaning rs' h) \<Longrightarrow>
   lookup (foldl (\<lambda>t (r, v). add t r v) empty rs) = lookup (foldl (\<lambda>t (r, v). add t r v) empty rs')"
  by (rule ext) (simp add: lookup_meaning)

end

interpretation trie_table: rule_table empty_trie "trie_insert ul grow" "trie_match ul zero" "rules_match ul" zero
  for ul grow zero
  by unfold_locales (use trie_of_match in \<open>simp add: trie_of_def ruleset_add_def\<close>)

interpretation zone_table: rule_table empty_zone "zone_insert ul" "zone_match ul zero" "zone_rules_match ul" zero
  for ul zero
  by unfold_locales (use zone_match_rules in \<open>simp add: zone_of_def\<close>)

text \<open>\<open>Walk\<close> with a body that never stops is the three loops in a row.\<close>

definition walk_entries :: "'v trie \<Rightarrow> (string \<times> 'v) list \<Rightarrow> (string \<times> 'v) list \<Rightarrow> (string \<times> 'v) list" where
  "walk_entries m hs zs = hs @ map (\<lambda>(k, v). (''*.'' @ k, v)) zs
     @ map (\<lambda>n. (ipnet_string (nd_network n), nd_value n)) (celems (tcidr m))"

lemma trie_walk_entries: "trie_walk yield s m hs zs = fst (yield_loop yield s (walk_entries m hs zs))"
  by (simp add: trie_walk_def walk_entries_def yield_loop_append yield_loop_map Let_def
      case_prod_beta' split: prod.split)

section \<open>Properties\<close>

text \<open>C5: a lookup in the trie of a list of rules never panics and finds what the rules say: the last
  host rule for the name, else for an address the longest-prefix network, else the longest zone
  above the name (or the zone itself when nothing lies below it).\<close>

theorem trie_match_meaning:
  "trie_match ul zero (trie_of ul grow rules) host = Some (found zero (rules_match ul rules host))"
  by (rule trie_of_match)

text \<open>\<open>Walk\<close> with a body that collects entries and stops after \<open>n\<close> hands over the first \<open>n\<close> entries of
  the hosts, the zones as \<open>*.zone\<close> and the networks, in that order, and nothing after the stop.\<close>

theorem trie_walk_prefix:
  assumes "0 < n"
  shows "trie_walk (\<lambda>acc x. (acc @ [x], length acc + 1 < n)) [] m hs zs = take n (walk_entries m hs zs)"
proof -
  have "max 1 (n - length []) = n" using assms by simp
  then show ?thesis
    unfolding trie_walk_entries yield_loop_take by (cases "walk_entries m hs zs = []") simp_all
qed

lemma trie_walk_prefix_witness:
  "trie_walk (\<lambda>acc x. (acc @ [x], length acc + 1 < 1)) []
     (trie_of id (\<lambda>c n. n) [(''a.b'', 1 :: nat)]) [(''a.b'', 1)] [] =
   take 1 (walk_entries (trie_of id (\<lambda>c n. n) [(''a.b'', 1)]) [(''a.b'', 1)] [])"
  by (rule trie_walk_prefix) simp

end
