(* ===== verification/Dialers.thy ===== *)
theory Dialers
  imports RuleTrie
begin

text \<open>
  The dialers of \<open>pkg/dialer\<close> that need no concurrency of their own: \<open>Chain\<close>, \<open>RewritingDialer\<close>,
  \<open>ByHost\<close>, and the two helpers that run a blocking call under a context (\<open>dialContext\<close>,
  \<open>FromURLContext\<close>); and the DNS dial loop of \<open>netutil.NewResolver\<close>. A dialer is a function of a
  context, a network, an address and the state of the world; it returns Go's pair of a connection
  and an error, either of which may be nil, and the new state.
\<close>

type_synonym ('x, 'c, 'w) dialer = "'x \<Rightarrow> string \<Rightarrow> string \<Rightarrow> 'w \<Rightarrow> ('c option \<times> goerr option) \<times> 'w"

section \<open>Chain\<close>

text \<open>\<open>ctx_err ctx w\<close> is \<open>ctx.Err()\<close> in the state \<open>w\<close>.\<close>

fun chain_loop ::
  "('x \<Rightarrow> 'w \<Rightarrow> goerr option) \<Rightarrow> 'x \<Rightarrow> string \<Rightarrow> string \<Rightarrow> goerr list \<Rightarrow> ('x, 'c, 'w) dialer list \<Rightarrow>
   'w \<Rightarrow> ('c option \<times> goerr option) \<times> 'w" where
  "chain_loop ctx_err ctx net addr errs [] w = ((None, errors_join errs), w)"
| "chain_loop ctx_err ctx net addr errs (d # ds) w =
     (case ctx_err ctx w of
        Some e \<Rightarrow> ((None, Some e), w)
      | None \<Rightarrow>
          let ((conn, err), w') = d ctx net addr w in
          (case err of
             None \<Rightarrow> ((conn, None), w')
           | Some e \<Rightarrow> chain_loop ctx_err ctx net addr (errs @ [e]) ds w'))"

definition chain_dial_context ::
  "('x \<Rightarrow> 'w \<Rightarrow> goerr option) \<Rightarrow> ('x, 'c, 'w) dialer list \<Rightarrow> ('x, 'c, 'w) dialer" where
  "chain_dial_context ctx_err c ctx net addr w = chain_loop ctx_err ctx net addr [] c w"

definition chain_dial ::
  "('x \<Rightarrow> 'w \<Rightarrow> goerr option) \<Rightarrow> 'x \<Rightarrow> ('x, 'c, 'w) dialer list \<Rightarrow>
   string \<Rightarrow> string \<Rightarrow> 'w \<Rightarrow> ('c option \<times> goerr option) \<times> 'w" where
  "chain_dial ctx_err background c net addr w = chain_dial_context ctx_err c background net addr w"

text \<open>The dialers of \<open>ds\<close> are asked in turn under a live context and all fail, with these errors.\<close>

fun failing_run ::
  "('x \<Rightarrow> 'w \<Rightarrow> goerr option) \<Rightarrow> 'x \<Rightarrow> string \<Rightarrow> string \<Rightarrow> ('x, 'c, 'w) dialer list \<Rightarrow> 'w \<Rightarrow>
   (goerr list \<times> 'w) option" where
  "failing_run ctx_err ctx net addr [] w = Some ([], w)"
| "failing_run ctx_err ctx net addr (d # ds) w =
     (case ctx_err ctx w of
        Some _ \<Rightarrow> None
      | None \<Rightarrow> (case d ctx net addr w of
          ((_, None), _) \<Rightarrow> None
        | ((_, Some e), w') \<Rightarrow> map_option (\<lambda>(es, w''). (e # es, w'')) (failing_run ctx_err ctx net addr ds w')))"

lemma chain_loop_failing:
  "failing_run ctx_err ctx net addr ds w = Some (es, w') \<Longrightarrow>
   chain_loop ctx_err ctx net addr errs (ds @ rest) w = chain_loop ctx_err ctx net addr (errs @ es) rest w'"
proof (induction ds arbitrary: errs es w)
  case (Cons d ds)
  then obtain c e w1 es' where d: "d ctx net addr w = ((c, Some e), w1)" "es = e # es'"
    "failing_run ctx_err ctx net addr ds w1 = Some (es', w')" "ctx_err ctx w = None"
    by (auto split: option.splits prod.splits)
  with Cons.IH [OF d(3), of "errs @ [e]"] show ?case by simp
qed simp

text \<open>Every call is one of three cases.\<close>

lemma failing_run_cases:
  obtains (all_fail) es w' where "failing_run ctx_err ctx net addr ds w = Some (es, w')"
  | (succeeds) pre d rest es w' conn w'' where "ds = pre @ d # rest"
      "failing_run ctx_err ctx net addr pre w = Some (es, w')" "ctx_err ctx w' = None"
      "d ctx net addr w' = ((conn, None), w'')"
  | (cancelled) pre d rest es w' e where "ds = pre @ d # rest"
      "failing_run ctx_err ctx net addr pre w = Some (es, w')" "ctx_err ctx w' = Some e"
proof (induction ds arbitrary: w thesis)
  case Nil
  then show ?case by simp
next
  case (Cons d ds)
  show ?case
  proof (cases "ctx_err ctx w")
    case (Some e)
    then show ?thesis using Cons.prems(3) [of "[]" d ds] by simp
  next
    case live: None
    obtain c err w1 where d: "d ctx net addr w = ((c, err), w1)" by (metis surj_pair)
    show ?thesis
    proof (cases err)
      case None
      with live d show ?thesis using Cons.prems(2) [of "[]" d ds] by simp
    next
      case (Some e)
      note run = live d Some
      show ?thesis
      proof (rule Cons.IH [of w1])
        fix es w'
        assume "failing_run ctx_err ctx net addr ds w1 = Some (es, w')"
        with run show ?thesis using Cons.prems(1) by simp
      next
        fix pre d' rest es w' conn w''
        assume "ds = pre @ d' # rest" "failing_run ctx_err ctx net addr pre w1 = Some (es, w')"
          "ctx_err ctx w' = None" "d' ctx net addr w' = ((conn, None), w'')"
        with run show ?thesis using Cons.prems(2) [of "d # pre" d' rest "e # es" w'] by simp
      next
        fix pre d' rest es w' e'
        assume "ds = pre @ d' # rest" "failing_run ctx_err ctx net addr pre w1 = Some (es, w')"
          "ctx_err ctx w' = Some e'"
        with run show ?thesis using Cons.prems(3) [of "d # pre" d' rest "e # es" w'] by simp
      qed
    qed
  qed
qed

section \<open>RewritingDialer\<close>

definition rewriting_dial_context ::
  "(string \<Rightarrow> string) \<Rightarrow> ('x, 'c, 'w) dialer \<Rightarrow> string \<Rightarrow> ('x, 'c, 'w) dialer" where
  "rewriting_dial_context ul d suff ctx net addr w =
     (case split_host_port addr of
        Inl e \<Rightarrow> ((None, Some e), w)
      | Inr (host, port) \<Rightarrow>
          let (subdomain, ok) = cut_suffix (to_lower ul host) (to_lower ul (''.'' @ suff)) in
          if ok then
            if subdomain = [] then ((None, Some (ErrText ''Invalid hostname'')), w)
            else d ctx net (join_host_port subdomain port) w
          else d ctx net addr w)"

definition rewriting_dial ::
  "(string \<Rightarrow> string) \<Rightarrow> 'x \<Rightarrow> ('x, 'c, 'w) dialer \<Rightarrow> string \<Rightarrow> string \<Rightarrow> string \<Rightarrow>
   'w \<Rightarrow> ('c option \<times> goerr option) \<times> 'w" where
  "rewriting_dial ul background d suff net addr w = rewriting_dial_context ul d suff background net addr w"

lemma to_lower_append_ascii:
  "ascii_string s \<Longrightarrow> ascii_string t \<Longrightarrow> to_lower ul (s @ t) = to_lower ul s @ to_lower ul t"
  by (auto simp: to_lower_def ascii_string_def)

lemma rewriting_suffix:
  assumes "ascii_string h" "ascii_string suff" "h \<noteq> []" "host_port_ok (h @ ''.'' @ suff, port)"
  shows "rewriting_dial_context ul d suff ctx net (join_host_port (h @ ''.'' @ suff) port) w
     = d ctx net (join_host_port (map lower_char h) port) w"
proof -
  have "ascii_string (''.'' @ suff)" using assms(2) by (simp add: ascii_string_def)
  then have "to_lower ul (h @ ''.'' @ suff) = map lower_char h @ to_lower ul (''.'' @ suff)"
    using assms(1) by (subst to_lower_append_ascii) (auto simp: to_lower_def ascii_string_def)
  with assms(3,4) show ?thesis
    by (simp add: rewriting_dial_context_def split_join_host_port)
qed

section \<open>Blocking calls under a context\<close>

text \<open>
  \<open>dialContext\<close> runs a plain \<open>Dial\<close> in a goroutine and returns early when the context ends first; a
  second goroutine then closes the connection once the dial is through. \<open>Cancelled\<close> or \<open>Finished\<close>
  is the branch that \<open>select\<close> takes. The result carries the connections that the helper closes in
  the background.
\<close>

datatype race = Cancelled | Finished

datatype ('x, 'c, 'w) any_dialer =
    Plain "string \<Rightarrow> string \<Rightarrow> 'w \<Rightarrow> ('c option \<times> goerr option) \<times> 'w"
  | WithContext "('x, 'c, 'w) dialer"

definition dial_context ::
  "('x \<Rightarrow> 'w \<Rightarrow> goerr option) \<Rightarrow> race \<Rightarrow> ('x, 'c, 'w) any_dialer \<Rightarrow> 'x \<Rightarrow> string \<Rightarrow> string \<Rightarrow> 'w \<Rightarrow>
   (('c option \<times> goerr option) \<times> 'w) \<times> 'c list" where
  "dial_context ctx_err r d ctx net addr w =
     (case d of
        WithContext xd \<Rightarrow> (xd ctx net addr w, [])
      | Plain dial \<Rightarrow>
          let ((conn, err), w') = dial net addr w in
          (case r of
             Finished \<Rightarrow> (((conn, err), w'), [])
           | Cancelled \<Rightarrow> (((None, ctx_err ctx w'), w'), case conn of Some c \<Rightarrow> [c] | None \<Rightarrow> [])))"

text \<open>
  \<open>FromURLContext\<close>: constructors of dialers, with the same race for those that know no context.
  \<open>closer\<close> tells which dialers implement \<open>io.Closer\<close>.
\<close>

record ('u, 'x, 'd) schemes =
  ctx_schemes :: "(string, 'x \<Rightarrow> 'u \<Rightarrow> 'd \<Rightarrow> 'd option \<times> goerr option) gomap"
  proxy_schemes :: "(string, 'u \<Rightarrow> 'd \<Rightarrow> 'd option \<times> goerr option) gomap"

definition register_context_dialer_type ::
  "'x \<Rightarrow> string \<Rightarrow> ('x \<Rightarrow> 'u \<Rightarrow> 'd \<Rightarrow> 'd option \<times> goerr option) \<Rightarrow> ('u, 'x, 'd) schemes \<Rightarrow> ('u, 'x, 'd) schemes" where
  "register_context_dialer_type background scheme fn s =
     s\<lparr>ctx_schemes := AList.update scheme fn (ctx_schemes s),
       proxy_schemes := AList.update scheme (\<lambda>u fwd. fn background u fwd) (proxy_schemes s)\<rparr>"

definition from_url_context ::
  "('u, 'x, 'd) schemes \<Rightarrow> ('u \<Rightarrow> string) \<Rightarrow> ('u \<Rightarrow> 'd \<Rightarrow> 'd option \<times> goerr option) \<Rightarrow> ('d \<Rightarrow> bool) \<Rightarrow>
   ('x \<Rightarrow> goerr option) \<Rightarrow> race \<Rightarrow> 'x \<Rightarrow> 'u \<Rightarrow> 'd \<Rightarrow> ('d option \<times> goerr option) \<times> 'd list" where
  "from_url_context s scheme_of proxy_from_url closer ctx_err r ctx u forward =
     (case map_of (ctx_schemes s) (scheme_of u) of
        Some fn \<Rightarrow> (fn ctx u forward, [])
      | None \<Rightarrow>
          let (d, err) = proxy_from_url u forward in
          (case r of
             Finished \<Rightarrow> ((d, err), [])
           | Cancelled \<Rightarrow> ((None, ctx_err ctx), case d of Some c \<Rightarrow> if closer c then [c] else [] | None \<Rightarrow> [])))"

lemma from_url_registered:
  "from_url_context (register_context_dialer_type bg sch fn s) scheme_of pfu closer ctx_err r ctx u fwd =
     (if scheme_of u = sch then (fn ctx u fwd, [])
      else from_url_context s scheme_of pfu closer ctx_err r ctx u fwd)"
  by (auto simp: from_url_context_def register_context_dialer_type_def go_simps)

section \<open>ByHost\<close>

text \<open>
  The dialer of a rule is \<open>None\<close> when it is nil. \<open>lookup\<close> is \<open>resolver.LookupIP\<close> of the Go standard
  library over a resolver that refuses every DNS connection, so that it only reads local files. An
  outer \<open>None\<close> is a panic.
\<close>

record ('x, 'c, 'w) by_host =
  bh_default :: "('x, 'c, 'w) dialer option"
  bh_rs :: "('x, 'c, 'w) dialer option trie option"

definition by_host_dial_context ::
  "(string \<Rightarrow> string) \<Rightarrow> ('x \<Rightarrow> string \<Rightarrow> 'w \<Rightarrow> byte list list res \<times> 'w) \<Rightarrow> ('x, 'c, 'w) dialer \<Rightarrow>
   ('x, 'c, 'w) by_host \<Rightarrow> 'x \<Rightarrow> string \<Rightarrow> string \<Rightarrow> 'w \<Rightarrow>
   (('c option \<times> goerr option) \<times> 'w) option" where
  "by_host_dial_context ul lookup direct d ctx net addr w =
     (case split_host_port addr of
        Inl e \<Rightarrow> Some ((None, Some e), w)
      | Inr (host, port) \<Rightarrow>
          Option.bind (ruleset_match ul None (bh_rs d) host) (\<lambda>(pd, ok).
          let (ips, w) = lookup ctx host w;
              override = (case ips of
                  Inr (i # is) \<Rightarrow> if ip_string i \<noteq> host then Some (ip_string i) else None
                | _ \<Rightarrow> None);
              addr = (case override of Some ip \<Rightarrow> join_host_port ip port | None \<Rightarrow> addr)
          in Option.bind (case override of
               Some ip \<Rightarrow> if \<not> ok then ruleset_match ul None (bh_rs d) ip else Some (pd, ok)
             | None \<Rightarrow> Some (pd, ok)) (\<lambda>(pd, ok).
             let pd = (case pd of Some p \<Rightarrow> p
                       | None \<Rightarrow> (case bh_default d of Some p \<Rightarrow> p | None \<Rightarrow> direct))
             in Some (pd ctx net addr w))))"

definition by_host_dial ::
  "(string \<Rightarrow> string) \<Rightarrow> ('x \<Rightarrow> string \<Rightarrow> 'w \<Rightarrow> byte list list res \<times> 'w) \<Rightarrow> ('x, 'c, 'w) dialer \<Rightarrow> 'x \<Rightarrow>
   ('x, 'c, 'w) by_host \<Rightarrow> string \<Rightarrow> string \<Rightarrow> 'w \<Rightarrow> (('c option \<times> goerr option) \<times> 'w) option" where
  "by_host_dial ul lookup direct background d net addr w =
     by_host_dial_context ul lookup direct d background net addr w"

definition by_host_swap :: "('x, 'c, 'w) by_host \<Rightarrow> ('x, 'c, 'w) dialer option trie option \<Rightarrow> ('x, 'c, 'w) by_host" where
  "by_host_swap d rs = d\<lparr>bh_rs := rs\<rparr>"

definition by_host_hosts ::
  "('s \<Rightarrow> string \<Rightarrow> 's \<times> bool) \<Rightarrow> 's \<Rightarrow> ('x, 'c, 'w) by_host \<Rightarrow>
   (string \<times> ('x, 'c, 'w) dialer option) list \<Rightarrow> (string \<times> ('x, 'c, 'w) dialer option) list \<Rightarrow> 's" where
  "by_host_hosts yield s d hs zs =
     (case bh_rs d of None \<Rightarrow> s | Some rs \<Rightarrow> ruleset_hosts yield s (Some rs) hs zs)"

text \<open>Which dialer and which address a call ends up with, from the rules alone.\<close>

definition route_value ::
  "(string \<Rightarrow> string) \<Rightarrow> (string \<times> 'v option) list \<Rightarrow> string \<Rightarrow> string option \<Rightarrow> 'v option" where
  "route_value ul rules host override =
     (case rules_match ul rules host of
        Some p \<Rightarrow> p
      | None \<Rightarrow> (case override of
          None \<Rightarrow> None
        | Some ip \<Rightarrow> (case rules_match ul rules ip of Some p \<Rightarrow> p | None \<Rightarrow> None)))"

definition route ::
  "(string \<Rightarrow> string) \<Rightarrow> ('x, 'c, 'w) dialer \<Rightarrow> ('x, 'c, 'w) dialer option \<Rightarrow>
   (string \<times> ('x, 'c, 'w) dialer option) list \<Rightarrow> string \<Rightarrow> string option \<Rightarrow> ('x, 'c, 'w) dialer" where
  "route ul direct dflt rules host override =
     (case route_value ul rules host override of Some p \<Rightarrow> p | None \<Rightarrow> (case dflt of Some p \<Rightarrow> p | None \<Rightarrow> direct))"

definition hosts_override :: "byte list list res \<Rightarrow> string \<Rightarrow> string option" where
  "hosts_override ips host =
     (case ips of Inr (i # is) \<Rightarrow> if ip_string i \<noteq> host then Some (ip_string i) else None | _ \<Rightarrow> None)"

text \<open>All that matters of the trie is what it finds.\<close>

lemma by_host_dial_rules:
  assumes "split_host_port addr = Inr (host, port)"
    and "bh_rs d = Some m" and "\<And>h. trie_match ul None m h = Some (found None (rules_match ul rules h))"
    and "lookup ctx host w = (ips, w')"
  shows "by_host_dial_context ul lookup direct d ctx net addr w =
    Some (route ul direct (bh_default d) rules host (hosts_override ips host) ctx net
      (case hosts_override ips host of Some ip \<Rightarrow> join_host_port ip port | None \<Rightarrow> addr) w')"
  using assms
  by (cases "rules_match ul rules host"; cases "hosts_override ips host")
    (simp_all add: by_host_dial_context_def ruleset_match_def route_def route_value_def
      hosts_override_def [symmetric] found_def split: option.split)

lemma by_host_dial_route:
  assumes "split_host_port addr = Inr (host, port)"
    and "bh_rs d = Some (trie_of ul grow rules)"
    and "lookup ctx host w = (ips, w')"
  shows "by_host_dial_context ul lookup direct d ctx net addr w =
    Some (route ul direct (bh_default d) rules host (hosts_override ips host) ctx net
      (case hosts_override ips host of Some ip \<Rightarrow> join_host_port ip port | None \<Rightarrow> addr) w')"
  by (rule by_host_dial_rules [where lookup = lookup, OF assms(1,2) _ assms(3)]) (rule trie_of_match)

section \<open>The DNS dial loop\<close>

text \<open>
  \<open>NewResolver\<close>: every server is tried in turn; the server that was asked is remembered so that
  \<open>LookupIP\<close> can hide it in the error text. \<open>go_lookup\<close> is the standard library's resolver, which
  reports what \<open>attempted\<close> was left at by its calls of the dial function.
\<close>

fun dns_loop ::
  "('x, 'c, 'w) dialer \<Rightarrow> 'x \<Rightarrow> string \<Rightarrow> goerr list \<Rightarrow> string list \<Rightarrow> 'w \<Rightarrow>
   (goerr list + 'c option) \<times> 'w" where
  "dns_loop dial ctx net errs [] w = (Inl errs, w)"
| "dns_loop dial ctx net errs (a # as) w =
     (let ((conn, err), w') = dial ctx net a w in
      case err of None \<Rightarrow> (Inr conn, w') | Some e \<Rightarrow> dns_loop dial ctx net (errs @ [e]) as w')"

definition dns_dial ::
  "string list \<Rightarrow> ('x, 'c, 'w) dialer \<Rightarrow> 'x \<Rightarrow> string \<Rightarrow> string \<Rightarrow> string option \<Rightarrow> 'w \<Rightarrow>
   (('c option \<times> goerr option) \<times> 'w) \<times> string option" where
  "dns_dial servers dial ctx net host ptr w =
     (let ptr' = map_option (\<lambda>_. host) ptr in
      case dns_loop dial ctx net [] servers w of
        (Inr conn, w') \<Rightarrow> (((conn, None), w'), ptr')
      | (Inl errs, w') \<Rightarrow>
          if servers = [] then (((None, Some (ErrText ''no DNS servers configured'')), w'), ptr')
          else (((None, errors_join errs), w'), ptr'))"

definition resolver_lookup_ip ::
  "('x \<Rightarrow> string \<Rightarrow> string \<Rightarrow> 'w \<Rightarrow> ((byte list list \<times> goerr option) \<times> string) \<times> 'w) \<Rightarrow> (goerr \<Rightarrow> string) \<Rightarrow>
   'x \<Rightarrow> string \<Rightarrow> string \<Rightarrow> 'w \<Rightarrow> (byte list list \<times> goerr option) \<times> 'w" where
  "resolver_lookup_ip go_lookup err_text ctx net host w =
     (let (((ips, err), attempted), w') = go_lookup ctx net host w in
      case err of
        Some e \<Rightarrow> if attempted \<noteq> [] then (([], Some (ErrText (replace_all (err_text e) attempted ''x.x.x.x''))), w')
                   else ((ips, None), w')
      | None \<Rightarrow> ((ips, None), w'))"

lemma dns_dial_some:
  "servers \<noteq> [] \<Longrightarrow> fst (fst (fst (dns_dial servers dial ctx net host ptr w))) = None \<Longrightarrow>
   (\<And>a w c w'. dial ctx net a w = ((c, None), w') \<Longrightarrow> c \<noteq> None) \<Longrightarrow>
   snd (fst (fst (dns_dial servers dial ctx net host ptr w))) \<noteq> None"
proof -
  assume ne: "servers \<noteq> []" and none: "fst (fst (fst (dns_dial servers dial ctx net host ptr w))) = None"
    and conn: "\<And>a w c w'. dial ctx net a w = ((c, None), w') \<Longrightarrow> c \<noteq> None"
  have loop: "case dns_loop dial ctx net errs ss v of
      (Inr c, _) \<Rightarrow> c \<noteq> None | (Inl es, _) \<Rightarrow> (errs \<noteq> [] \<or> ss \<noteq> []) \<longrightarrow> es \<noteq> []" for errs ss v
  proof (induction ss arbitrary: errs v)
    case (Cons a ss)
    obtain c err v' where d: "dial ctx net a v = ((c, err), v')" by (metis surj_pair)
    show ?case
    proof (cases err)
      case None
      with d conn show ?thesis by simp
    next
      case (Some e)
      with d Cons.IH [of "errs @ [e]" v'] show ?thesis by (simp split: prod.splits sum.splits)
    qed
  qed simp
  from loop [of "[]" servers w] ne none show ?thesis
    by (auto simp: dns_dial_def errors_join_def split: prod.splits sum.splits if_splits)
qed

section \<open>Properties\<close>

text \<open>\<open>Chain.DialContext\<close> has three outcomes: the connection of the first dialer that succeeds, all
  earlier ones having failed; the context's error as soon as the context is over before a dialer; or,
  when every dialer failed, the errors joined in order. An empty chain returns neither a connection
  nor an error.\<close>

theorem chain_outcome:
  "(\<exists>pre d rest es w1 conn w'. c = pre @ d # rest \<and> failing_run ctx_err ctx net addr pre w = Some (es, w1) \<and>
      ctx_err ctx w1 = None \<and> d ctx net addr w1 = ((conn, None), w') \<and>
      chain_dial_context ctx_err c ctx net addr w = ((conn, None), w')) \<or>
   (\<exists>pre d rest es w1 e. c = pre @ d # rest \<and> failing_run ctx_err ctx net addr pre w = Some (es, w1) \<and>
      ctx_err ctx w1 = Some e \<and> chain_dial_context ctx_err c ctx net addr w = ((None, Some e), w1)) \<or>
   (\<exists>es w'. failing_run ctx_err ctx net addr c w = Some (es, w') \<and>
      chain_dial_context ctx_err c ctx net addr w = ((None, if c = [] then None else Some (ErrJoin es)), w'))"
proof (rule failing_run_cases [of ctx_err ctx net addr c w])
  fix es w'
  assume run: "failing_run ctx_err ctx net addr c w = Some (es, w')"
  then have "es = [] \<longleftrightarrow> c = []"
    by (cases c) (auto split: option.splits prod.splits)
  with run chain_loop_failing [OF run, of "[]" "[]"] show ?thesis
    by (auto simp: chain_dial_context_def errors_join_def)
next
  fix pre d rest es w1 conn w'
  assume a: "c = pre @ d # rest" "failing_run ctx_err ctx net addr pre w = Some (es, w1)"
    "ctx_err ctx w1 = None" "d ctx net addr w1 = ((conn, None), w')"
  have "chain_dial_context ctx_err c ctx net addr w = ((conn, None), w')"
    using chain_loop_failing [OF a(2), of "[]" "d # rest"] a(1,3,4) by (simp add: chain_dial_context_def)
  with a show ?thesis by blast
next
  fix pre d rest es w1 e
  assume a: "c = pre @ d # rest" "failing_run ctx_err ctx net addr pre w = Some (es, w1)"
    "ctx_err ctx w1 = Some e"
  have "chain_dial_context ctx_err c ctx net addr w = ((None, Some e), w1)"
    using chain_loop_failing [OF a(2), of "[]" "d # rest"] a(1,3) by (simp add: chain_dial_context_def)
  with a show ?thesis by blast
qed

text \<open>\<open>RewritingDialer\<close> strips its suffix: dialling \<open>host.SUFFIX:port\<close> is dialling the lower-cased
  host at the same port.\<close>

theorem rewriting_strips_suffix:
  assumes "ascii_string h" and "ascii_string suff" and "h \<noteq> []" and "host_port_ok (h @ ''.'' @ suff, port)"
  shows "rewriting_dial_context ul d suff ctx net (join_host_port (h @ ''.'' @ suff) port) w
    = d ctx net (join_host_port (map lower_char h) port) w"
  using assms by (rule rewriting_suffix)

lemma rewriting_strips_suffix_witness:
  "rewriting_dial_context id (\<lambda>ctx net addr w. ((Some addr, None), w)) ''ocna'' () ''tcp''
     (join_host_port (''X1'' @ ''.'' @ ''ocna'') ''22'') (0 :: nat) =
   (\<lambda>ctx net addr w. ((Some addr, None), w)) () ''tcp'' (join_host_port (map lower_char ''X1'') ''22'') 0"
  by (rule rewriting_strips_suffix; code_simp)

text \<open>a dial that loses the race against its context is not lost: the caller gets the context's error
  and no connection, and a connection that the dial still makes is closed; otherwise the caller gets
  it and nothing is closed.\<close>

theorem dial_context_no_leak:
  "(case dial net addr w of ((conn, err), w') \<Rightarrow>
     dial_context ctx_err Finished (Plain dial) ctx net addr w = (((conn, err), w'), []) \<and>
     dial_context ctx_err Cancelled (Plain dial) ctx net addr w =
       (((None, ctx_err ctx w'), w'), (case conn of Some c \<Rightarrow> [c] | None \<Rightarrow> [])))"
  by (simp add: dial_context_def split: prod.split)


definition sample_by_host :: "(unit, nat, nat) by_host" where
  "sample_by_host = \<lparr>bh_default = None, bh_rs = Some (trie_of id (\<lambda>c n. n)
     [(''*.corp'', Some (\<lambda>ctx net addr w. ((Some 5, None), w)))])\<rparr>"


text \<open>when the resolver fails before it has asked a server, \<open>LookupIP\<close> swallows the error: it returns
  no addresses and no error.\<close>

theorem lookup_ip_swallows_error:
  assumes "go_lookup ctx net host w = ((([], Some e), []), w')"
  shows "resolver_lookup_ip go_lookup err_text ctx net host w = (([], None), w')"
  using assms by (simp add: resolver_lookup_ip_def)

lemma lookup_ip_swallows_error_witness:
  "resolver_lookup_ip (\<lambda>ctx net host w. ((([], Some (ErrText ''no such host'')), []), w)) (\<lambda>e. ''x'')
     () ''ip'' ''a'' (0 :: nat) = (([], None), 0)"
  by (rule lookup_ip_swallows_error) simp

end
