(* ===== verification/Throttle.thy ===== *)
theory Throttle
  imports Prelude
begin

text \<open>
  \<open>pkg/throttle/counter.go\<close>: a counter over a sliding window; and \<open>pkg/iterutil/maps.go\<close>. Instants and
  durations are integers (nanoseconds); every operation that reads the clock takes the instant it
  reads. The lemmas describe \<open>prune\<close> on both sides: with an event left in the window it keeps exactly
  the events in the window, without one it keeps everything.
\<close>

record 't counter =
  max_count :: int
  window :: int
  last_value :: 't
  timestamps :: "int list"

text \<open>The scan for the first timestamp after the cutoff; 0 also when there is none.\<close>

fun cut_index :: "int \<Rightarrow> nat \<Rightarrow> int list \<Rightarrow> nat" where
  "cut_index cutoff i [] = 0"
| "cut_index cutoff i (ts # rest) = (if cutoff < ts then i else cut_index cutoff (Suc i) rest)"

definition prune :: "int \<Rightarrow> 't counter \<Rightarrow> 't counter" where
  "prune now c =
     (let cutoff = now - window c; cut = cut_index cutoff 0 (timestamps c)
      in if 0 < cut then c\<lparr>timestamps := drop cut (timestamps c)\<rparr> else c)"

definition counter_increment :: "int \<Rightarrow> 't \<Rightarrow> 't counter \<Rightarrow> bool \<times> 't counter" where
  "counter_increment now v c =
     (let c = prune now c; c = c\<lparr>timestamps := timestamps c @ [now], last_value := v\<rparr>
      in (max_count c < int (length (timestamps c)), c))"

definition counter_count :: "int \<Rightarrow> 't counter \<Rightarrow> nat \<times> 't counter" where
  "counter_count now c = (let c = prune now c in (length (timestamps c), c))"

definition counter_reset :: "'t \<Rightarrow> 't counter \<Rightarrow> 't counter" where
  "counter_reset zero c = c\<lparr>timestamps := [], last_value := zero\<rparr>"

definition counter_throttled :: "int \<Rightarrow> 't counter \<Rightarrow> bool \<times> 't counter" where
  "counter_throttled now c = (let c = prune now c in (max_count c < int (length (timestamps c)), c))"

definition counter_force :: "int \<Rightarrow> 't \<Rightarrow> 't counter \<Rightarrow> 't counter" where
  "counter_force now v c = c\<lparr>last_value := v, timestamps := replicate (nat (max_count c + 1)) now\<rparr>"

text \<open>\<open>time.Time{}\<close>, the zero time, is an argument.\<close>

definition counter_last :: "'t \<Rightarrow> int \<Rightarrow> int \<Rightarrow> 't counter \<Rightarrow> ('t \<times> int \<times> bool) \<times> 't counter" where
  "counter_last zero zero_time now c =
     (let c = prune now c in
      (if length (timestamps c) = 0 then (zero, zero_time, False)
       else (last_value c, timestamps c ! (length (timestamps c) - 1), True), c))"

section \<open>The window\<close>

definition in_window :: "int \<Rightarrow> 't counter \<Rightarrow> int \<Rightarrow> bool" where
  "in_window now c ts \<longleftrightarrow> now - window c < ts"

text \<open>Events are recorded in the order of the clock.\<close>

definition chronological :: "int \<Rightarrow> 't counter \<Rightarrow> bool" where
  "chronological now c \<longleftrightarrow> sorted (timestamps c) \<and> (\<forall>ts \<in> set (timestamps c). ts \<le> now)"

lemma cut_index_eq:
  "cut_index cutoff i xs = (if \<exists>x \<in> set xs. cutoff < x then i + length (takeWhile (\<lambda>x. \<not> cutoff < x) xs) else 0)"
  by (induction xs arbitrary: i) auto

lemma prune_timestamps:
  "timestamps (prune now c) =
     (if \<exists>ts \<in> set (timestamps c). in_window now c ts
      then dropWhile (\<lambda>ts. \<not> in_window now c ts) (timestamps c) else timestamps c)"
  by (auto simp: prune_def Let_def cut_index_eq in_window_def dropWhile_eq_drop)

lemma prune_fields [simp]:
  "max_count (prune now c) = max_count c" "window (prune now c) = window c"
  "last_value (prune now c) = last_value c"
  by (simp_all add: prune_def Let_def)

lemma sorted_dropWhile_filter:
  "sorted xs \<Longrightarrow> dropWhile (\<lambda>x. \<not> a < x) xs = filter (\<lambda>x. a < (x :: int)) xs"
  by (induction xs) (auto intro!: filter_True [symmetric])

lemma prune_window:
  assumes "sorted (timestamps c)" and "\<exists>ts \<in> set (timestamps c). in_window now c ts"
  shows "timestamps (prune now c) = filter (in_window now c) (timestamps c)"
  using assms sorted_dropWhile_filter [of "timestamps c" "now - window c"]
  by (simp add: prune_timestamps in_window_def [abs_def])

lemma prune_stale:
  "\<not> (\<exists>ts \<in> set (timestamps c). in_window now c ts) \<Longrightarrow> prune now c = c"
  by (simp add: prune_def Let_def cut_index_eq in_window_def)

lemma prune_suffix: "\<exists>n. timestamps (prune now c) = drop n (timestamps c)"
  by (metis drop_0 dropWhile_eq_drop prune_timestamps)

lemma chronological_prune: "chronological now c \<Longrightarrow> chronological now (prune now c)"
proof -
  obtain n where "timestamps (prune now c) = drop n (timestamps c)" using prune_suffix by blast
  then show "chronological now c \<Longrightarrow> chronological now (prune now c)"
    using set_drop_subset [of n "timestamps c"] by (auto simp: chronological_def sorted_wrt_drop)
qed

lemma chronological_increment:
  "chronological now c \<Longrightarrow> chronological now (snd (counter_increment now v c))"
  using chronological_prune [of now c]
  by (auto simp: counter_increment_def Let_def chronological_def sorted_append)

lemma chronological_later: "chronological now c \<Longrightarrow> now \<le> now' \<Longrightarrow> chronological now' c"
  by (force simp: chronological_def)

lemma chronological_force: "chronological now (counter_force now v c)"
  by (simp add: chronological_def counter_force_def)

text \<open>\<open>Throttled\<close> with an event in the window counts the events in the window.\<close>

lemma throttled_window:
  assumes "chronological now c" and "\<exists>ts \<in> set (timestamps c). in_window now c ts"
  shows "fst (counter_throttled now c) \<longleftrightarrow>
    max_count c < int (length (filter (in_window now c) (timestamps c)))"
  using prune_window [OF _ assms(2)] assms(1)
  by (simp add: counter_throttled_def Let_def chronological_def)

lemma force_not_pruned:
  "0 < window c \<or> 0 \<le> max_count c \<Longrightarrow> prune now' (counter_force now v c) = counter_force now v c"
  by (auto simp: prune_def Let_def counter_force_def cut_index_eq)

section \<open>SortedMapIter\<close>

definition sorted_map_iter ::
  "('k :: linorder, 'v) gomap \<Rightarrow> ('s \<Rightarrow> 'k \<times> 'v \<Rightarrow> 's \<times> bool) \<Rightarrow> 's \<Rightarrow> 's \<times> bool" where
  "sorted_map_iter m yield s =
     yield_loop (\<lambda>s k. yield s (k, the (map_of m k))) s (sort (map fst m))"

lemma sorted_map_iter_entries:
  "sorted_map_iter m yield s = yield_loop yield s (map (\<lambda>k. (k, the (map_of m k))) (sort (map fst m)))"
  by (simp add: sorted_map_iter_def yield_loop_map)

text \<open>The order in which the runtime ranges over the map does not matter.\<close>

lemma sorted_map_iter_range:
  assumes "wf_map m" "range_of m xs"
  shows "sorted_map_iter xs yield s = sorted_map_iter m yield s"
proof -
  have "set (map fst xs) = set (map fst m)"
    using assms(2) by (metis dom_map_of_conv_image_fst image_set range_of_def)
  then have "sort (map fst xs) = sort (map fst m)"
    using assms by (metis distinct_sort range_of_def set_sort sorted_distinct_set_unique sorted_sort wf_map_def)
  with assms(2) show ?thesis by (simp add: sorted_map_iter_def range_of_def)
qed

section \<open>Properties\<close>

text \<open>when an event lies in the window, \<open>Throttled\<close> is true exactly when more than \<open>MaxCount\<close> of the
  recorded events lie in the window.\<close>

theorem throttled_counts_window:
  assumes "chronological now c" and "\<exists>ts \<in> set (timestamps c). in_window now c ts"
  shows "fst (counter_throttled now c) \<longleftrightarrow>
    max_count c < int (length (filter (in_window now c) (timestamps c)))"
  using assms by (rule throttled_window)

lemma throttled_counts_window_witness:
  "fst (counter_throttled 100 \<lparr>max_count = 1, window = 10, last_value = (), timestamps = [50, 95, 99]\<rparr>) \<longleftrightarrow>
    (1 :: int) < int (length (filter (in_window 100 \<lparr>max_count = 1, window = 10, last_value = (), timestamps = [50, 95, 99]\<rparr>) [50, 95, 99]))"
  using throttled_counts_window [of 100 "\<lparr>max_count = 1, window = 10, last_value = (), timestamps = [50, 95, 99]\<rparr>"]
  by (simp add: chronological_def in_window_def)

text \<open>when every recorded event has left the window, nothing is pruned: the counter still counts
  them all. A forced counter stays throttled for ever, not for the window.\<close>

theorem stale_events_never_expire:
  assumes "0 \<le> max_count c"
  shows "fst (counter_throttled now' (counter_force now v c)) \<and>
    ((\<forall>ts \<in> set (timestamps c). \<not> in_window now' c ts) \<longrightarrow> fst (counter_count now' c) = length (timestamps c))"
  using assms force_not_pruned [of c now' now v] prune_stale [of c now']
  by (auto simp: counter_throttled_def counter_count_def Let_def) (simp add: counter_force_def)

lemma stale_events_never_expire_witness:
  "fst (counter_throttled 100000 (counter_force 0 () \<lparr>max_count = 3, window = 10, last_value = (), timestamps = []\<rparr>))"
  using stale_events_never_expire [of "\<lparr>max_count = 3, window = 10, last_value = (), timestamps = []\<rparr>" 100000 0 "()"]
  by simp

end
