(* ===== verification/EnvDecode.thy ===== *)
theory EnvDecode
  imports GoStrings
begin

text \<open>
  \<open>pkg/env/env.go\<close>: filling the tagged fields of a struct from the environment. A Go type is a
  \<open>gotype\<close>, a value a \<open>goval\<close>; \<open>'f\<close> is the type of floats, whose parser is a parameter, as is \<open>gq\<close>, the
  \<open>%q\<close> verb of \<open>fmt\<close>. A type that implements \<open>encoding.TextUnmarshaler\<close> carries its method.
\<close>

datatype 'f goval = VString string | VInt int | VUint nat | VBool bool | VFloat 'f | VPtr "'f goval option" | VStrings "string list" | VOther

datatype 'f gotype =
    TString | TInt nat | TUint nat | TBool | TFloat nat
  | TPtr "'f gotype"
  | TText "string \<Rightarrow> 'f goval res" "'f gotype"  \<comment> \<open>method and underlying type\<close>
  | TOther string                                \<comment> \<open>any other kind, by name\<close>

section \<open>NewDecoder\<close>

type_synonym env = "(string, string) gomap"

definition new_decoder :: "string list \<Rightarrow> env" where
  "new_decoder environ = foldl (\<lambda>env e.
     if CHR ''='' \<in> set e
     then AList.update (takeWhile (\<lambda>c. c \<noteq> CHR ''='') e) (tl (dropWhile (\<lambda>c. c \<noteq> CHR ''='') e)) env
     else env) [] environ"

section \<open>unmarshal\<close>

definition parse_bool :: "string \<Rightarrow> bool res" where
  "parse_bool s =
     (if s \<in> {''1'', ''t'', ''T'', ''true'', ''TRUE'', ''True''} then Inr True
      else if s \<in> {''0'', ''f'', ''F'', ''false'', ''FALSE'', ''False''} then Inr False
      else Inl (ErrNum ''ParseBool'' s ''invalid syntax''))"

fun zero_val :: "'f \<Rightarrow> 'f gotype \<Rightarrow> 'f goval" where
  "zero_val z TString = VString []"
| "zero_val z (TInt b) = VInt 0"
| "zero_val z (TUint b) = VUint 0"
| "zero_val z TBool = VBool False"
| "zero_val z (TFloat b) = VFloat z"
| "zero_val z (TPtr t) = VPtr None"
| "zero_val z (TText u t) = zero_val z t"
| "zero_val z (TOther k) = VOther"

text \<open>
  The loop through pointers and the switch on the kind: it allocates what is nil on the way down, also
  when it then fails. The result is the error and the new value of the field.
\<close>

fun unmarshal_kind ::
  "(nat \<Rightarrow> string \<Rightarrow> 'f res) \<Rightarrow> 'f \<Rightarrow> 'f gotype \<Rightarrow> string \<Rightarrow> 'f goval \<Rightarrow> goerr option \<times> 'f goval" where
  "unmarshal_kind pf z (TPtr t) s v =
     (let x = (case v of VPtr (Some x) \<Rightarrow> x | _ \<Rightarrow> zero_val z t);
          (err, x') = unmarshal_kind pf z t s x
      in (err, VPtr (Some x')))"
| "unmarshal_kind pf z (TText u t) s v = unmarshal_kind pf z t s v"
| "unmarshal_kind pf z TString s v = (None, VString s)"
| "unmarshal_kind pf z (TInt b) s v = (case parse_int b s of Inl e \<Rightarrow> (Some e, v) | Inr i \<Rightarrow> (None, VInt i))"
| "unmarshal_kind pf z (TUint b) s v = (case parse_uint b s of Inl e \<Rightarrow> (Some e, v) | Inr u \<Rightarrow> (None, VUint u))"
| "unmarshal_kind pf z TBool s v = (case parse_bool s of Inl e \<Rightarrow> (Some e, v) | Inr x \<Rightarrow> (None, VBool x))"
| "unmarshal_kind pf z (TFloat b) s v = (case pf b s of Inl e \<Rightarrow> (Some e, v) | Inr x \<Rightarrow> (None, VFloat x))"
| "unmarshal_kind pf z (TOther k) s v = (Some (ErrText (''env: unsupported kind '' @ k)), v)"

text \<open>Only the field's own type is asked for \<open>UnmarshalText\<close>, not what it points to.\<close>

definition unmarshal_field ::
  "(nat \<Rightarrow> string \<Rightarrow> 'f res) \<Rightarrow> 'f \<Rightarrow> 'f gotype \<Rightarrow> string \<Rightarrow> 'f goval \<Rightarrow> goerr option \<times> 'f goval" where
  "unmarshal_field pf z t s v = (case t of
     TText u _ \<Rightarrow> (case u s of Inl e \<Rightarrow> (Some e, v) | Inr x \<Rightarrow> (None, x))
   | _ \<Rightarrow> unmarshal_kind pf z t s v)"

section \<open>Decoder.Unmarshal\<close>

record 'f field =
  fd_name :: string
  fd_settable :: bool
  fd_tag :: string
  fd_type :: "'f gotype"

datatype 'f target = NotPointer | NilPointer | PointsElsewhere | Struct string "('f field \<times> 'f goval) list"

text \<open>The options after the key; \<open>Inl\<close> is the first unknown one.\<close>

fun tag_options :: "string list \<Rightarrow> bool \<Rightarrow> string + bool" where
  "tag_options [] required = Inr required"
| "tag_options (opt # opts) required =
     (if opt = ''required'' then tag_options opts True
      else if opt = [] then tag_options opts required else Inl opt)"

definition env_field ::
  "(nat \<Rightarrow> string \<Rightarrow> 'f res) \<Rightarrow> 'f \<Rightarrow> (string \<Rightarrow> string) \<Rightarrow> env \<Rightarrow> string \<Rightarrow> 'f field \<Rightarrow> 'f goval \<Rightarrow>
   goerr option \<times> 'f goval" where
  "env_field pf z gq env tname fd v =
     (if \<not> fd_settable fd \<or> fd_tag fd = [] then (None, v)
      else let parts = split_on CHR '','' (fd_tag fd); key = hd parts in
      case tag_options (tl parts) False of
        Inl opt \<Rightarrow> (Some (ErrText (''env: unknown option '' @ gq opt @ '' for field '' @ CHR 0x27 #
            tname @ ''.'' @ fd_name fd @ [CHR 0x27])), v)
      | Inr required \<Rightarrow> (case map_of env key of
          None \<Rightarrow> (if required
            then Some (ErrText (''env: required key '' @ gq key @ '' for field '' @ CHR 0x27 #
              tname @ ''.'' @ fd_name fd @ CHR 0x27 # '' not found''))
            else None, v)
        | Some val \<Rightarrow> (case unmarshal_field pf z (fd_type fd) val v of
            (Some e, v') \<Rightarrow> (Some (ErrWrap (''env: error setting field '' @ CHR 0x27 # fd_name fd @ CHR 0x27 # '': '') e), v')
          | (None, v') \<Rightarrow> (None, v'))))"

fun env_fields ::
  "(nat \<Rightarrow> string \<Rightarrow> 'f res) \<Rightarrow> 'f \<Rightarrow> (string \<Rightarrow> string) \<Rightarrow> env \<Rightarrow> string \<Rightarrow> ('f field \<times> 'f goval) list \<Rightarrow>
   goerr option \<times> ('f field \<times> 'f goval) list" where
  "env_fields pf z gq env tname [] = (None, [])"
| "env_fields pf z gq env tname ((fd, v) # fs) =
     (case env_field pf z gq env tname fd v of
        (Some e, v') \<Rightarrow> (Some e, (fd, v') # fs)
      | (None, v') \<Rightarrow> (let (err, fs') = env_fields pf z gq env tname fs in (err, (fd, v') # fs')))"

definition decoder_unmarshal ::
  "(nat \<Rightarrow> string \<Rightarrow> 'f res) \<Rightarrow> 'f \<Rightarrow> (string \<Rightarrow> string) \<Rightarrow> env \<Rightarrow> 'f target \<Rightarrow> goerr option \<times> 'f target" where
  "decoder_unmarshal pf z gq env t = (case t of
     Struct name fs \<Rightarrow> (let (err, fs') = env_fields pf z gq env name fs in (err, Struct name fs'))
   | PointsElsewhere \<Rightarrow> (Some (ErrText ''env: target must point to a struct''), t)
   | _ \<Rightarrow> (Some (ErrText ''env: target must be a non-nil pointer to a struct''), t))"

definition env_unmarshal ::
  "(nat \<Rightarrow> string \<Rightarrow> 'f res) \<Rightarrow> 'f \<Rightarrow> (string \<Rightarrow> string) \<Rightarrow> 'f target \<Rightarrow> string list \<Rightarrow> goerr option \<times> 'f target" where
  "env_unmarshal pf z gq t environ = decoder_unmarshal pf z gq (new_decoder environ) t"

section \<open>Laws\<close>

lemma new_decoder_snoc:
  "new_decoder (es @ [e]) = (if CHR ''='' \<in> set e
     then AList.update (takeWhile (\<lambda>c. c \<noteq> CHR ''='') e) (tl (dropWhile (\<lambda>c. c \<noteq> CHR ''='') e)) (new_decoder es)
     else new_decoder es)"
  by (simp add: new_decoder_def)

text \<open>The last assignment of a key wins; text without \<open>=\<close> is skipped.\<close>

lemma new_decoder_assign:
  assumes "CHR ''='' \<notin> set k"
  shows "map_of (new_decoder (es @ [k @ ''='' @ v])) k = Some v"
  using assms by (simp add: new_decoder_snoc cut_at go_simps)

lemma new_decoder_other:
  "\<not> has_prefix e (k @ ''='') \<Longrightarrow> map_of (new_decoder (es @ [e])) k = map_of (new_decoder es) k"
proof -
  assume no: "\<not> has_prefix e (k @ ''='')"
  show ?thesis
  proof (cases "CHR ''='' \<in> set e")
    case True
    let ?t = "takeWhile (\<lambda>c. c \<noteq> CHR ''='') e"
    have "dropWhile (\<lambda>c. c \<noteq> CHR ''='') e \<noteq> []" using True by auto
    then obtain c r where d: "dropWhile (\<lambda>c. c \<noteq> CHR ''='') e = c # r" by (cases "dropWhile (\<lambda>c. c \<noteq> CHR ''='') e") auto
    then have "c = CHR ''=''" using takeWhile_dropWhile_neq_Nil by fastforce
    with d have "e = ?t @ ''='' @ r" by (metis append_Cons append_Nil takeWhile_dropWhile_id)
    then have "k \<noteq> ?t" using no by (metis append.assoc has_prefix_append)
    then show ?thesis by (simp add: new_decoder_snoc go_simps)
  qed (simp add: new_decoder_snoc)
qed

lemma env_fields_shape:
  "env_fields pf z gq env n fs = (err, fs') \<Longrightarrow> map fst fs' = map fst fs"
proof (induction fs arbitrary: err fs')
  case (Cons x fs)
  obtain fd v where x: "x = (fd, v)" by fastforce
  obtain e v' where f: "env_field pf z gq env n fd v = (e, v')" by fastforce
  obtain err2 fs2 where r: "env_fields pf z gq env n fs = (err2, fs2)" by fastforce
  from Cons.IH [OF r] Cons.prems show ?case by (cases e) (auto simp: x f r)
qed simp

text \<open>Without an error every field went through \<open>env_field\<close>; with one, the fields after it are as before.\<close>

lemma env_fields_result:
  "env_fields pf z gq env n fs = (err, fs') \<Longrightarrow>
   \<exists>k \<le> length fs. (\<forall>i < k. env_field pf z gq env n (fst (fs ! i)) (snd (fs ! i)) = (None, snd (fs' ! i))) \<and>
     (case err of None \<Rightarrow> k = length fs
      | Some e \<Rightarrow> k < length fs \<and> env_field pf z gq env n (fst (fs ! k)) (snd (fs ! k)) = (Some e, snd (fs' ! k)) \<and>
          drop (Suc k) fs' = drop (Suc k) fs)"
proof (induction fs arbitrary: err fs')
  case (Cons x fs)
  obtain fd v where x: "x = (fd, v)" by fastforce
  obtain e v' where f: "env_field pf z gq env n fd v = (e, v')" by fastforce
  show ?case
  proof (cases e)
    case (Some e')
    with Cons.prems show ?thesis by (intro exI [of _ 0]) (auto simp: x f)
  next
    case None
    obtain err2 fs2 where r: "env_fields pf z gq env n fs = (err2, fs2)" by fastforce
    with Cons.prems None have eq: "err = err2" "fs' = (fd, v') # fs2" by (auto simp: x f)
    from Cons.IH [OF r] obtain k where "k \<le> length fs"
      "\<forall>i < k. env_field pf z gq env n (fst (fs ! i)) (snd (fs ! i)) = (None, snd (fs2 ! i))"
      "case err2 of None \<Rightarrow> k = length fs
      | Some e \<Rightarrow> k < length fs \<and> env_field pf z gq env n (fst (fs ! k)) (snd (fs ! k)) = (Some e, snd (fs2 ! k)) \<and>
          drop (Suc k) fs2 = drop (Suc k) fs" by blast
    then show ?thesis
      using f None by (intro exI [of _ "Suc k"]) (auto simp: x eq nth_Cons' less_Suc_eq_0_disj split: option.splits)
  qed
qed simp

section \<open>Types\<close>

text \<open>A value of a type; integers fit their width. A \<open>TOther\<close> type has the values its text method makes.\<close>

fun has_type :: "'f gotype \<Rightarrow> 'f goval \<Rightarrow> bool" where
  "has_type TString v = (\<exists>s. v = VString s)"
| "has_type (TInt b) v = (\<exists>i. v = VInt i \<and> - (2 ^ (b - 1)) \<le> i \<and> i < 2 ^ (b - 1))"
| "has_type (TUint b) v = (\<exists>n. v = VUint n \<and> n < 2 ^ b)"
| "has_type TBool v = (\<exists>x. v = VBool x)"
| "has_type (TFloat b) v = (\<exists>x. v = VFloat x)"
| "has_type (TPtr t) v = (case v of VPtr None \<Rightarrow> True | VPtr (Some x) \<Rightarrow> has_type t x | _ \<Rightarrow> False)"
| "has_type (TText u t) v = has_type t v"
| "has_type (TOther k) v = (v = VOther \<or> (\<exists>xs. v = VStrings xs))"

text \<open>Text methods return values of their own type.\<close>

fun text_ok :: "'f gotype \<Rightarrow> bool" where
  "text_ok (TText u t) = ((\<forall>s x. u s = Inr x \<longrightarrow> has_type t x) \<and> text_ok t)"
| "text_ok (TPtr t) = text_ok t"
| "text_ok _ = True"

lemma has_type_zero: "has_type t (zero_val z t)"
  by (induction t) auto

lemma unmarshal_kind_type: "has_type t v \<Longrightarrow> has_type t (snd (unmarshal_kind pf z t s v))"
proof (induction t arbitrary: v)
  case (TPtr t)
  have "has_type t (case v of VPtr (Some x) \<Rightarrow> x | _ \<Rightarrow> zero_val z t)"
    using TPtr.prems has_type_zero by (auto split: goval.splits option.splits)
  from TPtr.IH [OF this] show ?case by (simp add: case_prod_beta Let_def)
qed (auto split: sum.split dest: parse_int_bound parse_uint_bound)

lemma unmarshal_field_type: "has_type t v \<Longrightarrow> text_ok t \<Longrightarrow> has_type t (snd (unmarshal_field pf z t s v))"
  using unmarshal_kind_type [of t v pf z s] by (auto simp: unmarshal_field_def split: gotype.split sum.split)

lemma env_field_type:
  "has_type (fd_type fd) v \<Longrightarrow> text_ok (fd_type fd) \<Longrightarrow> has_type (fd_type fd) (snd (env_field pf z gq env n fd v))"
  using unmarshal_field_type [of "fd_type fd" v]
  by (auto simp: env_field_def Let_def split: sum.split option.split prod.split) (metis snd_conv)+

lemma env_fields_type:
  "\<forall>(fd, v) \<in> set fs. has_type (fd_type fd) v \<and> text_ok (fd_type fd) \<Longrightarrow>
   \<forall>(fd, v) \<in> set (snd (env_fields pf z gq env n fs)). has_type (fd_type fd) v"
proof (induction fs)
  case (Cons x fs)
  obtain fd v where x: "x = (fd, v)" by fastforce
  have h: "has_type (fd_type fd) (snd (env_field pf z gq env n fd v))"
    using Cons.prems x env_field_type [of fd v] by simp
  moreover have "\<forall>(fd, v) \<in> set (snd (env_fields pf z gq env n fs)). has_type (fd_type fd) v"
    using Cons.prems by (intro Cons.IH) simp
  ultimately show ?case using Cons.prems x by (auto simp: case_prod_beta split: prod.split option.split)
qed simp

section \<open>Properties\<close>

text \<open>decoding stops at the first field that fails: the fields before it hold their decoded values,
  the fields after it are untouched; without an error every field was decoded.\<close>

theorem env_decodes_in_order:
  assumes "decoder_unmarshal pf z gq env (Struct n fs) = (err, t)"
  shows "\<exists>fs'. t = Struct n fs' \<and> map fst fs' = map fst fs \<and>
    (\<exists>k \<le> length fs. (\<forall>i < k. env_field pf z gq env n (fst (fs ! i)) (snd (fs ! i)) = (None, snd (fs' ! i))) \<and>
     (case err of None \<Rightarrow> k = length fs
      | Some e \<Rightarrow> k < length fs \<and> env_field pf z gq env n (fst (fs ! k)) (snd (fs ! k)) = (Some e, snd (fs' ! k)) \<and>
          drop (Suc k) fs' = drop (Suc k) fs))"
proof -
  obtain err2 fs2 where r: "env_fields pf z gq env n fs = (err2, fs2)" by fastforce
  with assms have "err = err2" "t = Struct n fs2" by (auto simp: decoder_unmarshal_def)
  with env_fields_shape [OF r] env_fields_result [OF r] show ?thesis by blast
qed

definition sample_fields :: "(unit field \<times> unit goval) list" where
  "sample_fields = [(\<lparr>fd_name = ''Port'', fd_settable = True, fd_tag = ''PORT,required'', fd_type = TUint 16\<rparr>, VUint 0)]"

lemma env_decodes_in_order_witness:
  "\<exists>fs'. snd (decoder_unmarshal (\<lambda>b s. Inr ()) () id [] (Struct ''Opts'' sample_fields)) = Struct ''Opts'' fs'"
  using env_decodes_in_order [of "\<lambda>b s. Inr ()" "()" id "[]" "''Opts''" sample_fields
    "fst (decoder_unmarshal (\<lambda>b s. Inr ()) () id [] (Struct ''Opts'' sample_fields))"
    "snd (decoder_unmarshal (\<lambda>b s. Inr ()) () id [] (Struct ''Opts'' sample_fields))"]
  by auto

text \<open>an integer field tagged with a key gets the integer that was printed into the environment,
  when it fits the field's width; the last assignment of the key counts.\<close>

theorem env_integer_roundtrip:
  assumes "CHR ''='' \<notin> set key" and "CHR '','' \<notin> set key" and "key \<noteq> []" and "0 < b"
    and "- (2 ^ (b - 1)) \<le> i" and "i < 2 ^ (b - 1)"
  shows "env_unmarshal pf z gq (Struct n [(\<lparr>fd_name = f, fd_settable = True, fd_tag = key, fd_type = TInt b\<rparr>, v)])
      (es @ [key @ ''='' @ format_int i]) =
    (None, Struct n [(\<lparr>fd_name = f, fd_settable = True, fd_tag = key, fd_type = TInt b\<rparr>, VInt i)])"
  using assms new_decoder_assign [OF assms(1), of es "format_int i"] parse_int_format_int [of b i]
  by (simp add: env_unmarshal_def decoder_unmarshal_def env_field_def unmarshal_field_def split_on_no_sep Let_def)

lemma env_integer_roundtrip_witness:
  "env_unmarshal (\<lambda>b s. Inr ()) () id (Struct ''T'' [(\<lparr>fd_name = ''F'', fd_settable = True, fd_tag = ''K'', fd_type = TInt 8\<rparr>, VInt 0)])
      ([''K=1''] @ [''K'' @ ''='' @ format_int (-128)]) =
    (None, Struct ''T'' [(\<lparr>fd_name = ''F'', fd_settable = True, fd_tag = ''K'', fd_type = TInt 8\<rparr>, VInt (-128))])"
  by (rule env_integer_roundtrip) simp_all



end
