(* ===== verification/Hostscan.thy ===== *)
theory Hostscan
  imports GoStrings "HOL-Library.List_Lexorder" "HOL-Library.Char_ord"
begin

text \<open>
  \<open>pkg/openconnect/hostscan\<close>: the manifest's fields, the mock scanner that answers it, the marshaler that
  turns a report into assignments, and the client's requests. \<open>newMarshaler\<close> compiles a Go type to a
  marshaler, which then runs on values; \<open>marshal_spec\<close> proves that equal to printing the
  assignments of the value directly. XML decoding, HTTP and the clock are parameters.
\<close>

section \<open>The manifest\<close>

record mfield =
  mf_type :: string
  mf_label :: string
  mf_value :: string

abbreviation apos :: char where
  "apos \<equiv> CHR 0x27"

text \<open>
  The regular expression \<open>^'([^']+)','([^']+)','([^']+)'$\<close>: a group takes everything up to the next quote.
\<close>

definition quoted :: "string \<Rightarrow> (string \<times> string) option" where
  "quoted s = (case s of
     [] \<Rightarrow> None
   | c # r \<Rightarrow>
       let g = takeWhile (\<lambda>x. x \<noteq> apos) r; rest = dropWhile (\<lambda>x. x \<noteq> apos) r in
       if c = apos \<and> g \<noteq> [] \<and> rest \<noteq> [] then Some (g, tl rest) else None)"

definition field_match :: "string \<Rightarrow> (string \<times> string \<times> string) option" where
  "field_match s =
     Option.bind (quoted s) (\<lambda>(a, r).
       if has_prefix r '','' then Option.bind (quoted (tl r)) (\<lambda>(b, r).
         if has_prefix r '','' then Option.bind (quoted (tl r)) (\<lambda>(c, r).
           if r = [] then Some (a, b, c) else None)
         else None)
       else None)"

text \<open>
  \<open>Field.UnmarshalXML\<close>; the argument is what \<open>DecodeElement\<close> returned: an error, or the name and value
  attributes.
\<close>

definition field_unmarshal_xml :: "mfield \<Rightarrow> (string \<times> string) res \<Rightarrow> goerr option \<times> mfield" where
  "field_unmarshal_xml f decoded = (case decoded of
     Inl e \<Rightarrow> (Some e, f)
   | Inr (name, value) \<Rightarrow>
       (None,
        if has_prefix name ''lHostScanList'' then
          (case field_match value of
             Some (a, b, c) \<Rightarrow> f\<lparr>mf_type := a, mf_label := b, mf_value := c\<rparr>
           | None \<Rightarrow> f)
        else if has_prefix name ''cInspectorExtension''
        then f\<lparr>mf_type := ''Inspector'', mf_label := value, mf_value := value\<rparr>
        else f))"

definition quote_free :: "string \<Rightarrow> bool" where
  "quote_free s \<longleftrightarrow> s \<noteq> [] \<and> apos \<notin> set s"

lemma quoted_iff: "quoted s = Some (g, r) \<longleftrightarrow> quote_free g \<and> s = apos # g @ apos # r"
proof
  assume "quoted s = Some (g, r)"
  then obtain t where s: "s = apos # t" and g: "g = takeWhile (\<lambda>x. x \<noteq> apos) t" "g \<noteq> []"
    and d: "dropWhile (\<lambda>x. x \<noteq> apos) t \<noteq> []" "r = tl (dropWhile (\<lambda>x. x \<noteq> apos) t)"
    by (auto simp: quoted_def Let_def split: list.splits if_splits)
  then have "dropWhile (\<lambda>x. x \<noteq> apos) t = apos # r"
    by (cases "dropWhile (\<lambda>x. x \<noteq> apos) t") (auto dest: takeWhile_dropWhile_neq_Nil)
  with g have "t = g @ apos # r" by (metis takeWhile_dropWhile_id)
  moreover have "apos \<notin> set g" using g(1) by (auto dest: set_takeWhileD)
  ultimately show "quote_free g \<and> s = apos # g @ apos # r" using g(2) s by (simp add: quote_free_def)
next
  assume q: "quote_free g \<and> s = apos # g @ apos # r"
  then have "apos \<notin> set g" by (simp add: quote_free_def)
  then have "takeWhile (\<lambda>x. x \<noteq> apos) (g @ apos # r) = g" "dropWhile (\<lambda>x. x \<noteq> apos) (g @ apos # r) = apos # r"
    by (rule cut_at)+
  with q show "quoted s = Some (g, r)" by (simp add: quoted_def quote_free_def)
qed

section \<open>The report\<close>

record os_info =
  os_version :: string
  os_servicepack :: string
  os_architecture :: string

record policy =
  pol_location :: string

record device =
  dev_protection :: string
  dev_protection_version :: string
  dev_protection_extension :: string

record firewall =
  pfw_exists :: bool
  pfw_description :: string
  pfw_version :: string
  pfw_enabled :: string

record anti_malware =
  am_exists :: bool
  am_description :: string
  am_version :: string
  am_activescan :: string
  am_lastupdate :: int
  am_timestamp :: int

record file_info =
  fi_name :: string
  fi_path :: string
  fi_exists :: bool
  fi_lastmodified :: int
  fi_timestamp :: int

record process_info =
  pr_name :: string
  pr_exists :: bool

record report =
  rp_os :: os_info
  rp_policy :: policy
  rp_device :: device
  rp_enforce :: string
  rp_pfw :: "(string, firewall) gomap"
  rp_am :: "(string, anti_malware) gomap"
  rp_files :: "(string, file_info) gomap"
  rp_processes :: "(string, process_info) gomap"

text \<open>\<open>now\<close> is \<open>time.Now().Unix()\<close>.\<close>

definition scan_base :: "int \<Rightarrow> report" where
  "scan_base now = \<lparr>
     rp_os = \<lparr>os_version = ''Mac OS X'', os_servicepack = ''26.3'', os_architecture = ''arm64''\<rparr>,
     rp_policy = \<lparr>pol_location = ''Default''\<rparr>,
     rp_device = \<lparr>dev_protection = ''none'', dev_protection_version = ''5.1.8.122'', dev_protection_extension = []\<rparr>,
     rp_enforce = ''success'',
     rp_pfw = [
       (''100386'', \<lparr>pfw_exists = True, pfw_description = ''Packet Filter (Mac)'', pfw_version = ''26.3'', pfw_enabled = ''ok''\<rparr>),
       (''100250'', \<lparr>pfw_exists = True, pfw_description = ''CrowdStrike Falcon (Mac)'', pfw_version = ''7.33.20503.0'', pfw_enabled = ''ok''\<rparr>),
       (''100022'', \<lparr>pfw_exists = True, pfw_description = ''Mac OS X Builtin Firewall (Mac)'', pfw_version = ''26.3'', pfw_enabled = ''ok''\<rparr>)],
     rp_am = [
       (''100366'', \<lparr>am_exists = True, am_description = ''Xprotect (Mac)'', am_version = ''5325'', am_activescan = ''ok'',
          am_lastupdate = 545119, am_timestamp = now - 545119\<rparr>),
       (''100250'', \<lparr>am_exists = True, am_description = ''CrowdStrike Falcon (Mac)'', am_version = ''7.29.20103.0'', am_activescan = ''ok'',
          am_lastupdate = 9447, am_timestamp = now - 9447\<rparr>),
       (''100137'', \<lparr>am_exists = True, am_description = ''Gatekeeper (Mac)'', am_version = ''26.3'', am_activescan = ''ok'',
          am_lastupdate = 0, am_timestamp = 0\<rparr>)],
     rp_files = [],
     rp_processes = []\<rparr>"

definition scan_field :: "int \<Rightarrow> report \<Rightarrow> mfield \<Rightarrow> report" where
  "scan_field now r i =
     (if mf_type i = ''File''
      then r\<lparr>rp_files := AList.update (mf_label i) \<lparr>fi_name = mf_value i, fi_path = mf_value i, fi_exists = True,
        fi_lastmodified = 39115924, fi_timestamp = now - 39115924\<rparr> (rp_files r)\<rparr>
      else if mf_type i = ''Process''
      then r\<lparr>rp_processes := AList.update (mf_label i) \<lparr>pr_name = mf_value i, pr_exists = True\<rparr> (rp_processes r)\<rparr>
      else r)"

definition scan :: "int \<Rightarrow> mfield list \<Rightarrow> report" where
  "scan now mfs = foldl (scan_field now) (scan_base now) mfs"

section \<open>The marshaler\<close>

text \<open>
  Go types and values as \<open>reflect\<close> shows them. A struct field has its \<open>csd\<close> tag or none. The entries of
  a map value come in the order of \<open>MapKeys\<close>. Floats are formatted by a parameter.
\<close>

datatype ctype = CString | CBool | CInt | CUint | CFloat nat | CStruct "(string option \<times> ctype) list" | CMap ctype ctype | COther

datatype 'f cval = VS string | VB bool | VI int | VU nat | VF 'f | VStruct "'f cval list" | VMap "(string \<times> 'f cval) list"

datatype marshaler = MString | MBool | MInt | MUint | MFloat nat | MStruct "(nat \<times> string \<times> marshaler) list" | MMap marshaler

text \<open>\<open>newStructMarshaler\<close> drops fields without a tag or with a type that has no marshaler.\<close>

definition struct_fields :: "(string option \<times> marshaler option) list \<Rightarrow> (nat \<times> string \<times> marshaler) list" where
  "struct_fields fs = concat (map (\<lambda>(i, tag, m). case (tag, m) of
     (Some tag, Some m) \<Rightarrow> [(i, tag, m)] | _ \<Rightarrow> []) (zip [0..<length fs] fs))"

fun new_marshaler :: "ctype \<Rightarrow> marshaler option" where
  "new_marshaler CString = Some MString"
| "new_marshaler CBool = Some MBool"
| "new_marshaler CInt = Some MInt"
| "new_marshaler CUint = Some MUint"
| "new_marshaler (CFloat b) = Some (MFloat b)"
| "new_marshaler (CStruct fs) = Some (MStruct (struct_fields (map (\<lambda>(tag, t). (tag, new_marshaler t)) fs)))"
| "new_marshaler (CMap k e) = (if k \<noteq> CString then None else map_option MMap (new_marshaler e))"
| "new_marshaler COther = None"

definition format_bool :: "bool \<Rightarrow> string" where
  "format_bool b = (if b then ''true'' else ''false'')"

text \<open>
  Writing: \<open>wr\<close> is \<open>io.WriteString\<close> on the writer's state. A value that does not have the marshaler's
  type makes \<open>reflect\<close> panic: the outer \<open>None\<close>.
\<close>

type_synonym 'w writer = "string \<Rightarrow> 'w \<Rightarrow> goerr option \<times> 'w"

definition write_assign :: "'w writer \<Rightarrow> string \<Rightarrow> string \<Rightarrow> 'w \<Rightarrow> (goerr option \<times> 'w) option" where
  "write_assign wr p s w = Some (wr (p @ ''=\"'' @ s @ ''\";'' @ [CHR 0x0A]) w)"

definition key_path :: "string \<Rightarrow> string \<Rightarrow> string" where
  "key_path p k = p @ ''[\"'' @ k @ ''\"]''"

fun seq_writes :: "('a \<Rightarrow> 'w \<Rightarrow> (goerr option \<times> 'w) option) \<Rightarrow> 'a list \<Rightarrow> 'w \<Rightarrow> (goerr option \<times> 'w) option" where
  "seq_writes f [] w = Some (None, w)"
| "seq_writes f (x # xs) w = (case f x w of
     None \<Rightarrow> None | Some (Some e, w') \<Rightarrow> Some (Some e, w') | Some (None, w') \<Rightarrow> seq_writes f xs w')"

lemma seq_writes_cong [fundef_cong]:
  "xs = ys \<Longrightarrow> w = w' \<Longrightarrow> (\<And>x v. x \<in> set ys \<Longrightarrow> f x v = g x v) \<Longrightarrow> seq_writes f xs w = seq_writes g ys w'"
proof (induction xs arbitrary: ys w w')
  case (Cons x xs)
  then show ?case by (auto split: option.split)
qed simp

fun marshal :: "(nat \<Rightarrow> 'f \<Rightarrow> string) \<Rightarrow> 'w writer \<Rightarrow> marshaler \<Rightarrow> 'f cval \<Rightarrow> string \<Rightarrow> 'w \<Rightarrow> (goerr option \<times> 'w) option" where
  "marshal ff wr MString v p w = (case v of VS s \<Rightarrow> write_assign wr p s w | _ \<Rightarrow> None)"
| "marshal ff wr MBool v p w = (case v of VB b \<Rightarrow> write_assign wr p (format_bool b) w | _ \<Rightarrow> None)"
| "marshal ff wr MInt v p w = (case v of VI i \<Rightarrow> write_assign wr p (format_int i) w | _ \<Rightarrow> None)"
| "marshal ff wr MUint v p w = (case v of VU n \<Rightarrow> write_assign wr p (nat_digits n) w | _ \<Rightarrow> None)"
| "marshal ff wr (MFloat b) v p w = (case v of VF f \<Rightarrow> write_assign wr p (ff b f) w | _ \<Rightarrow> None)"
| "marshal ff wr (MStruct fs) v p w = (case v of
     VStruct vs \<Rightarrow> (let p = (if p \<noteq> [] then p @ ''.'' else p) in
       seq_writes (\<lambda>(i, tag, m) w. if i < length vs then marshal ff wr m (vs ! i) (p @ tag) w else None) fs w)
   | _ \<Rightarrow> None)"
| "marshal ff wr (MMap m) v p w = (case v of
     VMap kvs \<Rightarrow> seq_writes (\<lambda>(k, x) w. case wr (key_path p k @ ''={};'' @ [CHR 0x0A]) w of
         (Some e, w') \<Rightarrow> Some (Some e, w')
       | (None, w') \<Rightarrow> marshal ff wr m x (key_path p k) w') kvs w
   | _ \<Rightarrow> None)"

definition encode :: "(nat \<Rightarrow> 'f \<Rightarrow> string) \<Rightarrow> 'w writer \<Rightarrow> string \<Rightarrow> ctype \<Rightarrow> 'f cval \<Rightarrow> string \<Rightarrow> 'w \<Rightarrow> (goerr option \<times> 'w) option" where
  "encode ff wr tname t v p w = (case new_marshaler t of
     None \<Rightarrow> Some (Some (ErrText (''marshal: no marshaler for type '' @ tname)), w)
   | Some m \<Rightarrow> marshal ff wr m v p w)"

text \<open>\<open>strings.Builder\<close> never fails.\<close>

definition builder :: "string writer" where
  "builder s b = (None, b @ s)"

lemma builder_apply: "builder s b = (None, b @ s)"
  by (simp add: builder_def)

definition marshal_string :: "(nat \<Rightarrow> 'f \<Rightarrow> string) \<Rightarrow> string \<Rightarrow> ctype \<Rightarrow> 'f cval \<Rightarrow> string \<Rightarrow> (string \<times> goerr option) option" where
  "marshal_string ff tname t v p = map_option (\<lambda>(e, b). (b, e)) (encode ff builder tname t v p [])"

text \<open>The assignments of a value, without a compiled marshaler.\<close>

fun supported :: "ctype \<Rightarrow> bool" where
  "supported (CMap k e) = (k = CString \<and> supported e)"
| "supported COther = False"
| "supported _ = True"

fun has_ctype :: "ctype \<Rightarrow> 'f cval \<Rightarrow> bool" where
  "has_ctype CString (VS _) = True"
| "has_ctype CBool (VB _) = True"
| "has_ctype CInt (VI _) = True"
| "has_ctype CUint (VU _) = True"
| "has_ctype (CFloat _) (VF _) = True"
| "has_ctype (CStruct fs) (VStruct vs) = list_all2 (\<lambda>(tag, t) v. has_ctype t v) fs vs"
| "has_ctype (CMap k e) (VMap kvs) = (\<forall>(k, x) \<in> set kvs. has_ctype e x)"
| "has_ctype _ _ = False"

definition assign_line :: "string \<Rightarrow> string \<Rightarrow> string" where
  "assign_line p s = p @ ''=\"'' @ s @ ''\";'' @ [CHR 0x0A]"

definition dotted :: "string \<Rightarrow> string" where
  "dotted p = (if p \<noteq> [] then p @ ''.'' else p)"

lemma struct_field_size: "(tag, t) \<in> set fs \<Longrightarrow> size t < Suc (size_list (size_prod (\<lambda>x. 0) size) fs)"
  by (induction fs) auto

function csd_text :: "(nat \<Rightarrow> 'f \<Rightarrow> string) \<Rightarrow> ctype \<Rightarrow> 'f cval \<Rightarrow> string \<Rightarrow> string" where
  "csd_text ff t v p = (case (t, v) of
     (_, VS s) \<Rightarrow> assign_line p s
   | (_, VB b) \<Rightarrow> assign_line p (format_bool b)
   | (_, VI i) \<Rightarrow> assign_line p (format_int i)
   | (_, VU n) \<Rightarrow> assign_line p (nat_digits n)
   | (CFloat b, VF f) \<Rightarrow> assign_line p (ff b f)
   | (CStruct fs, VStruct vs) \<Rightarrow> concat (map (\<lambda>((tag, t), v). case tag of
         Some tag \<Rightarrow> if supported t then csd_text ff t v (dotted p @ tag) else [] | None \<Rightarrow> []) (zip fs vs))
   | (CMap k e, VMap kvs) \<Rightarrow> concat (map (\<lambda>(k, x).
         key_path p k @ ''={};'' @ CHR 0x0A # csd_text ff e x (key_path p k)) kvs)
   | _ \<Rightarrow> [])"
  by pat_completeness auto
termination
  by (relation "measure (\<lambda>(ff, t, v, p). size t)") (auto dest!: set_zip_leftD dest: struct_field_size)

declare csd_text.simps [simp del]

text \<open>Writing to a builder, one element after the other.\<close>

lemma seq_writes_builder:
  "(\<And>x b. x \<in> set xs \<Longrightarrow> f x b = Some (None, b @ g x)) \<Longrightarrow>
   seq_writes f xs b = Some (None, b @ concat (map g xs))"
  by (induction xs arbitrary: b) auto

lemma zip_upt: "length xs = length ys \<Longrightarrow> zip xs ys = map (\<lambda>i. (xs ! i, ys ! i)) [0..<length xs]"
  by (rule nth_equalityI) auto

lemma concat_map_concat: "concat (map g (concat (map h xs))) = concat (map (\<lambda>x. concat (map g (h x))) xs)"
  by (induction xs) auto

lemma struct_fields_concat:
  "concat (map g (struct_fields (map (\<lambda>(tag, t). (tag, mk t)) fs))) =
    concat (map (\<lambda>i. case fst (fs ! i) of
        Some tag \<Rightarrow> (case mk (snd (fs ! i)) of Some m \<Rightarrow> g (i, tag, m) | None \<Rightarrow> [])
      | None \<Rightarrow> []) [0..<length fs])"
  unfolding struct_fields_def concat_map_concat
  by (rule arg_cong [where f = concat], subst zip_upt)
    (auto split: option.split simp: case_prod_beta)

lemma new_marshaler_supported: "new_marshaler t \<noteq> None \<longleftrightarrow> supported t"
  by (induction t) auto

lemma struct_fields_mem:
  "(i, tag, m) \<in> set (struct_fields (map (\<lambda>(tag, t). (tag, mk t)) fs)) \<Longrightarrow>
   i < length fs \<and> fst (fs ! i) = Some tag \<and> mk (snd (fs ! i)) = Some m"
  by (auto simp: struct_fields_def set_zip split: option.splits prod.splits)

lemma csd_text_struct:
  assumes "length fs = length vs"
    and g: "\<And>i tag m. g (i, tag, m) = csd_text ff (snd (fs ! i)) (vs ! i) (dotted p @ tag)"
  shows "csd_text ff (CStruct fs) (VStruct vs) p =
    concat (map g (struct_fields (map (\<lambda>(tag, t). (tag, new_marshaler t)) fs)))"
  unfolding struct_fields_concat csd_text.simps [of ff "CStruct fs"] prod.case ctype.case cval.case
    zip_upt [OF assms(1)]
  by (auto intro!: arg_cong [where f = concat] simp: g case_prod_beta new_marshaler_supported [symmetric]
      split: option.split)

text \<open>The compiled marshaler writes the assignments of the value.\<close>

lemma marshal_struct:
  assumes ty: "list_all2 (\<lambda>(tag, t) v. has_ctype t v) fs vs"
    and IH: "\<And>tag t m v p b. (tag, t) \<in> set fs \<Longrightarrow> new_marshaler t = Some m \<Longrightarrow> has_ctype t v \<Longrightarrow>
      marshal ff builder m v p b = Some (None, b @ csd_text ff t v p)"
    and m: "new_marshaler (CStruct fs) = Some m"
  shows "marshal ff builder m (VStruct vs) p b = Some (None, b @ csd_text ff (CStruct fs) (VStruct vs) p)"
proof -
  have len: "length fs = length vs" using ty by (rule list_all2_lengthD)
  let ?F = "struct_fields (map (\<lambda>(tag, t). (tag, new_marshaler t)) fs)"
  let ?g = "\<lambda>(i, tag, m :: marshaler). csd_text ff (snd (fs ! i)) (vs ! i) (dotted p @ tag)"
  have field: "(if i < length vs then marshal ff builder m' (vs ! i) (dotted p @ tag) w else None)
      = Some (None, w @ ?g (i, tag, m'))" if "(i, tag, m') \<in> set ?F" for i tag m' w
  proof -
    from struct_fields_mem [OF that] have i: "i < length fs" "new_marshaler (snd (fs ! i)) = Some m'" by auto
    then have mem: "(fst (fs ! i), snd (fs ! i)) \<in> set fs" by simp
    have "has_ctype (snd (fs ! i)) (vs ! i)"
      using list_all2_nthD [OF ty i(1)] by (simp add: case_prod_beta)
    from IH [OF mem i(2) this] show ?thesis using i(1) len by simp
  qed
  have "marshal ff builder m (VStruct vs) p b = seq_writes (\<lambda>(i, tag, m) w.
      if i < length vs then marshal ff builder m (vs ! i) (dotted p @ tag) w else None) ?F b"
    using m by (auto simp: dotted_def [symmetric] Let_def)
  also have "\<dots> = Some (None, b @ concat (map ?g ?F))"
    by (rule seq_writes_builder) (use field in auto)
  also have "concat (map ?g ?F) = csd_text ff (CStruct fs) (VStruct vs) p"
    by (rule csd_text_struct [OF len, symmetric]) simp
  finally show ?thesis .
qed

lemma marshal_text:
  "new_marshaler t = Some m \<Longrightarrow> has_ctype t v \<Longrightarrow>
   marshal ff builder m v p b = Some (None, b @ csd_text ff t v p)"
proof (induction t arbitrary: m v p b)
  case (CStruct fs)
  then obtain vs where v: "v = VStruct vs" and ty: "list_all2 (\<lambda>(tag, t) v. has_ctype t v) fs vs"
    by (cases v) auto
  show ?case unfolding v
    by (rule marshal_struct [OF ty _ CStruct.prems(1)]) (use CStruct.IH in fastforce)
next
  case (CMap k e)
  then obtain kvs where v: "v = VMap kvs" and ty: "\<forall>(k, x) \<in> set kvs. has_ctype e x"
    by (cases v) auto
  from CMap.prems(1) obtain m' where m: "m = MMap m'" "new_marshaler e = Some m'"
    by (auto split: if_splits)
  let ?g = "\<lambda>(k, x). key_path p k @ ''={};'' @ CHR 0x0A # csd_text ff e x (key_path p k)"
  have entry: "(case builder (key_path p k @ ''={};'' @ [CHR 0x0A]) w of
         (Some e, w') \<Rightarrow> Some (Some e, w')
       | (None, w') \<Rightarrow> marshal ff builder m' x (key_path p k) w') = Some (None, w @ ?g (k, x))"
    if "(k, x) \<in> set kvs" for k x w
  proof -
    from ty that have "has_ctype e x" by auto
    from CMap.IH(2) [OF m(2) this] show ?thesis
      unfolding builder_apply [of _ w] prod.case option.case by simp
  qed
  have "marshal ff builder m v p b = Some (None, b @ concat (map ?g kvs))"
    unfolding m(1) v marshal.simps cval.case
    by (rule seq_writes_builder) (use entry in auto)
  also have "concat (map ?g kvs) = csd_text ff (CMap k e) v p"
    by (simp add: v csd_text.simps [of ff "CMap k e"])
  finally show ?case .
qed (auto simp: csd_text.simps write_assign_def builder_def assign_line_def split: cval.splits)

section \<open>Reports as Go values\<close>

definition report_type :: ctype where
  "report_type = CStruct [
     (Some ''os'', CStruct [(Some ''version'', CString), (Some ''servicepack'', CString), (Some ''architecture'', CString)]),
     (Some ''policy'', CStruct [(Some ''location'', CString)]),
     (Some ''device'', CStruct [(Some ''protection'', CString), (Some ''protection_version'', CString),
        (Some ''protection_extension'', CString)]),
     (Some ''enforce'', CString),
     (Some ''pfw'', CMap CString (CStruct [(Some ''exists'', CBool), (Some ''description'', CString),
        (Some ''version'', CString), (Some ''enabled'', CString)])),
     (Some ''am'', CMap CString (CStruct [(Some ''exists'', CBool), (Some ''description'', CString),
        (Some ''version'', CString), (Some ''activescan'', CString), (Some ''lastupdate'', CInt), (Some ''timestamp'', CInt)])),
     (Some ''file'', CMap CString (CStruct [(Some ''name'', CString), (Some ''path'', CString), (Some ''exists'', CBool),
        (Some ''lastmodified'', CInt), (Some ''timestamp'', CInt)])),
     (Some ''process'', CMap CString (CStruct [(Some ''name'', CString), (Some ''exists'', CBool)]))]"

definition firewall_val :: "firewall \<Rightarrow> unit cval" where
  "firewall_val f = VStruct [VB (pfw_exists f), VS (pfw_description f), VS (pfw_version f), VS (pfw_enabled f)]"

definition anti_malware_val :: "anti_malware \<Rightarrow> unit cval" where
  "anti_malware_val a = VStruct [VB (am_exists a), VS (am_description a), VS (am_version a), VS (am_activescan a),
     VI (am_lastupdate a), VI (am_timestamp a)]"

definition file_val :: "file_info \<Rightarrow> unit cval" where
  "file_val f = VStruct [VS (fi_name f), VS (fi_path f), VB (fi_exists f), VI (fi_lastmodified f), VI (fi_timestamp f)]"

definition process_val :: "process_info \<Rightarrow> unit cval" where
  "process_val x = VStruct [VS (pr_name x), VB (pr_exists x)]"

definition map_val :: "('v \<Rightarrow> unit cval) \<Rightarrow> (string \<times> 'v) list \<Rightarrow> unit cval" where
  "map_val f m = VMap (map (\<lambda>(k, x). (k, f x)) m)"

definition report_val :: "report \<Rightarrow> unit cval" where
  "report_val r = VStruct [
     VStruct [VS (os_version (rp_os r)), VS (os_servicepack (rp_os r)), VS (os_architecture (rp_os r))],
     VStruct [VS (pol_location (rp_policy r))],
     VStruct [VS (dev_protection (rp_device r)), VS (dev_protection_version (rp_device r)),
       VS (dev_protection_extension (rp_device r))],
     VS (rp_enforce r), map_val firewall_val (rp_pfw r), map_val anti_malware_val (rp_am r),
     map_val file_val (rp_files r), map_val process_val (rp_processes r)]"

text \<open>\<open>Report.Encode\<close>, \<open>Report.String\<close> and \<open>Report.Reader\<close>: the pipe delivers what was written, then the error.\<close>

definition report_encode :: "'w writer \<Rightarrow> report \<Rightarrow> 'w \<Rightarrow> (goerr option \<times> 'w) option" where
  "report_encode wr r w = encode (\<lambda>b f. []) wr ''hostscan.Report'' report_type (report_val r) ''endpoint'' w"

definition report_string :: "report \<Rightarrow> string option" where
  "report_string r = map_option fst (marshal_string (\<lambda>b f. []) ''hostscan.Report'' report_type (report_val r) ''endpoint'')"

definition report_reader :: "report \<Rightarrow> (string \<times> goerr option) option" where
  "report_reader r = map_option (\<lambda>(e, b). (b, case e of None \<Rightarrow> Some ErrEOF | Some e \<Rightarrow> Some e))
     (report_encode builder r [])"

lemma has_ctype_map_val: "has_ctype (CMap CString e) (map_val f m) \<longleftrightarrow> (\<forall>(k, x) \<in> set m. has_ctype e (f x))"
  by (auto simp: map_val_def)

lemma report_has_type: "has_ctype report_type (report_val r)"
  by (simp add: report_type_def report_val_def has_ctype_map_val firewall_val_def anti_malware_val_def file_val_def
      process_val_def case_prod_beta del: has_ctype.simps(7))

lemma report_marshaler: "\<exists>m. new_marshaler report_type = Some m"
  by (simp add: report_type_def)

definition report_text :: "report \<Rightarrow> string" where
  "report_text r = csd_text (\<lambda>b f. []) report_type (report_val r) ''endpoint''"

lemma report_encode_text: "report_encode builder r b = Some (None, b @ report_text r)"
proof -
  obtain m where m: "new_marshaler report_type = Some m" using report_marshaler by blast
  from marshal_text [OF m report_has_type] show ?thesis
    by (simp add: report_encode_def encode_def m report_text_def)
qed

lemma report_string_text: "report_string r = Some (report_text r)"
  using report_encode_text [of r "[]"]
  by (simp add: report_string_def marshal_string_def report_encode_def)

section \<open>The client\<close>

text \<open>
  An HTTP client is bound to a host and the fingerprint its certificate must have. \<open>http_get\<close> and \<open>http_do\<close>
  are the standard library's client; \<open>decode_manifest\<close> and \<open>decode_token\<close> its XML decoder on a
  response; \<open>err_text\<close> is \<open>Error()\<close>.
\<close>

record hclient =
  hc_host :: string
  hc_fingerprint :: "nat list"

definition new_client :: "string \<Rightarrow> nat list \<Rightarrow> hclient" where
  "new_client host fp = \<lparr>hc_host = host, hc_fingerprint = fp\<rparr>"

record post_request =
  pq_url :: string
  pq_cookie :: "string \<times> string"
  pq_length :: nat
  pq_body :: string

type_synonym ('r, 'w) http = "hclient \<Rightarrow> string \<Rightarrow> 'w \<Rightarrow> 'r res \<times> 'w"

text \<open>\<open>ReadManifest\<close> returns the manifest it has built so far also with an error.\<close>

definition get_manifest ::
  "('r, 'w) http \<Rightarrow> ('r \<Rightarrow> mfield list \<times> goerr option) \<Rightarrow> (goerr \<Rightarrow> string) \<Rightarrow> hclient \<Rightarrow> 'w \<Rightarrow> mfield list res \<times> 'w" where
  "get_manifest http_get decode_manifest err_text c w =
     (case http_get c (''https://'' @ hc_host c @ ''/CACHE/sdesktop/data.xml'') w of
        (Inl e, w') \<Rightarrow> (Inl (ErrWrap ''Error fetching hostscan manifest: '' e), w')
      | (Inr resp, w') \<Rightarrow> (case decode_manifest resp of
          (m, Some e) \<Rightarrow> (Inl (ErrText (''Error parsing hostscan manifest: '' @ err_text e)), w')
        | (m, None) \<Rightarrow> (Inr m, w')))"

definition get_token ::
  "('r, 'w) http \<Rightarrow> ('r \<Rightarrow> string res) \<Rightarrow> hclient \<Rightarrow> string \<Rightarrow> string \<Rightarrow> 'w \<Rightarrow> string res \<times> 'w" where
  "get_token http_get decode_token c ticket stub w =
     (case http_get c (''https://'' @ hc_host c @ ''/+CSCOE+/sdesktop/token.xml?ticket='' @ ticket @ ''&stub='' @ stub) w of
        (Inl e, w') \<Rightarrow> (Inl (ErrWrap ''Error fetching hostscan token: '' e), w')
      | (Inr resp, w') \<Rightarrow> (case decode_token resp of
          Inl e \<Rightarrow> (Inl (ErrWrap ''Error parsing hostscan token: '' e), w')
        | Inr t \<Rightarrow> (Inr t, w')))"

definition scan_url :: "string \<Rightarrow> string" where
  "scan_url host = ''https://'' @ host @ ''/+CSCOE+/sdesktop/scan.xml?reusebrowser=1''"

definition post_report ::
  "(hclient \<Rightarrow> post_request \<Rightarrow> 'w \<Rightarrow> 'r res \<times> 'w) \<Rightarrow> (string \<Rightarrow> goerr option) \<Rightarrow> hclient \<Rightarrow> report \<Rightarrow> string \<Rightarrow>
   'w \<Rightarrow> 'r res \<times> 'w" where
  "post_report http_do url_error c r token w =
     (let data = (case report_string r of Some s \<Rightarrow> s | None \<Rightarrow> []);
          u = scan_url (hc_host c)
      in case url_error u of
           Some e \<Rightarrow> (Inl e, w)
         | None \<Rightarrow> http_do c \<lparr>pq_url = u, pq_cookie = (''sdesktop'', token), pq_length = length data, pq_body = data\<rparr> w)"

section \<open>ProcessCSD\<close>

text \<open>\<open>callbacks.ProcessCSD\<close> of \<open>pkg/dialer/oc/oc.go\<close>; the log calls are left out.\<close>

record csd_info =
  csd_hostname :: string
  csd_token :: string
  csd_ticket :: string
  csd_stub :: string
  csd_sha256 :: string

record ('r, 'w) csd_env =
  ce_get :: "('r, 'w) http"
  ce_do :: "hclient \<Rightarrow> post_request \<Rightarrow> 'w \<Rightarrow> 'r res \<times> 'w"
  ce_manifest :: "'r \<Rightarrow> mfield list \<times> goerr option"
  ce_token :: "'r \<Rightarrow> string res"
  ce_url_error :: "string \<Rightarrow> goerr option"
  ce_err_text :: "goerr \<Rightarrow> string"
  ce_base64 :: "string \<Rightarrow> nat list res"
  ce_now :: "'w \<Rightarrow> int"
  ce_read_all :: "'r \<Rightarrow> string res"
  ce_status :: "'r \<Rightarrow> int"

definition csd_fetch_token :: "('r, 'w) csd_env \<Rightarrow> csd_info \<Rightarrow> hclient \<Rightarrow> 'w \<Rightarrow> string res \<times> 'w" where
  "csd_fetch_token E info client w =
     (if csd_ticket info \<noteq> [] then
        (case get_token (ce_get E) (ce_token E) client (csd_ticket info)
            (if csd_stub info = [] then ''0'' else csd_stub info) w of
           (Inl e, w') \<Rightarrow> (Inl (ErrWrap ''fetch hostscan token: '' e), w')
         | (Inr t, w') \<Rightarrow> (Inr t, w'))
      else (Inr (csd_token info), w))"

definition process_csd :: "('r, 'w) csd_env \<Rightarrow> csd_info \<Rightarrow> 'w \<Rightarrow> goerr option \<times> 'w" where
  "process_csd E info w =
     (case ce_base64 E (csd_sha256 info) of
        Inl e \<Rightarrow> (Some (ErrWrap ''invalid CSD SHA256: '' e), w)
      | Inr hash \<Rightarrow>
          let client = new_client (csd_hostname info) hash in
          (case csd_fetch_token E info client w of
             (Inl e, w) \<Rightarrow> (Some e, w)
           | (Inr token, w) \<Rightarrow>
               (case get_manifest (ce_get E) (ce_manifest E) (ce_err_text E) client w of
                  (Inl e, w) \<Rightarrow> (Some (ErrWrap ''get hostscan policy: '' e), w)
                | (Inr manifest, w) \<Rightarrow>
                    (case post_report (ce_do E) (ce_url_error E) client (scan (ce_now E w) manifest) token w of
                       (Inl e, w) \<Rightarrow> (Some (ErrWrap ''post hostscan report: '' e), w)
                     | (Inr res, w) \<Rightarrow> (case ce_read_all E res of
                         Inl e \<Rightarrow> (Some (ErrWrap ''read hostscan response: '' e), w)
                       | Inr txt \<Rightarrow> if ce_status E res \<noteq> 200
                           then (Some (ErrText (''hostscan server returned error: '' @ txt)), w)
                           else (None, w))))))"

lemma post_report_text:
  "post_report http_do url_error c r token w =
     (case url_error (scan_url (hc_host c)) of
        Some e \<Rightarrow> (Inl e, w)
      | None \<Rightarrow> http_do c \<lparr>pq_url = scan_url (hc_host c),
          pq_cookie = (''sdesktop'', token), pq_length = length (report_text r), pq_body = report_text r\<rparr> w)"
  by (simp add: post_report_def report_string_text Let_def)

section \<open>Properties\<close>

text \<open>C28: the marshaler compiled for a type writes, for every value of the type, exactly the assignments
  that the value spells out, and reports no error; a type without a marshaler is refused.\<close>

theorem marshaler_equals_spec:
  assumes "has_ctype t v"
  shows "encode ff builder n t v p b =
    Some (if supported t then (None, b @ csd_text ff t v p)
      else (Some (ErrText (''marshal: no marshaler for type '' @ n)), b))"
proof (cases "new_marshaler t")
  case None
  then have "\<not> supported t" using new_marshaler_supported [of t] by simp
  with None show ?thesis by (simp add: encode_def)
next
  case (Some m)
  then have "supported t" using new_marshaler_supported [of t] by simp
  with Some marshal_text [OF Some assms] show ?thesis by (simp add: encode_def)
qed

definition sample_ctype :: ctype where
  "sample_ctype = CMap CString (CStruct [(Some ''x'', CInt), (None, COther)])"

definition sample_cval :: "unit cval" where
  "sample_cval = VMap []"

lemma marshaler_equals_spec_witness:
  "encode (\<lambda>b f. []) builder ''t'' sample_ctype sample_cval ''p'' [] =
    Some (if supported sample_ctype then (None, [] @ csd_text (\<lambda>b f. []) sample_ctype sample_cval ''p'')
      else (Some (ErrText (''marshal: no marshaler for type '' @ ''t'')), []))"
  by (rule marshaler_equals_spec) (simp add: sample_ctype_def sample_cval_def)

text \<open>the manifest's pattern accepts exactly three quoted, non-empty, quote-free texts with commas
  between them, and yields those.\<close>

theorem field_match_iff:
  "field_match s = Some (a, b, c) \<longleftrightarrow> quote_free a \<and> quote_free b \<and> quote_free c \<and>
     s = apos # a @ [apos] @ '','' @ [apos] @ b @ [apos] @ '','' @ [apos] @ c @ [apos]"
proof -
  have cm: "has_prefix r '','' \<longleftrightarrow> (\<exists>t. r = CHR '','' # t)" for r by (auto simp: has_prefix_iff)
  have "\<exists>r r'. quoted s = Some (a, CHR '','' # r) \<and> quoted r = Some (b, CHR '','' # r') \<and>
      quoted r' = Some (c, [])" if "field_match s = Some (a, b, c)"
    using that by (auto simp: field_match_def bind_eq_Some_conv cm split: if_splits)
  moreover have "field_match s = Some (a, b, c)" if "quoted s = Some (a, CHR '','' # r)"
      "quoted r = Some (b, CHR '','' # r')" "quoted r' = Some (c, [])" for r r'
    using that by (simp add: field_match_def has_prefix_def)
  ultimately have "field_match s = Some (a, b, c) \<longleftrightarrow> (\<exists>r r'. quoted s = Some (a, CHR '','' # r) \<and>
      quoted r = Some (b, CHR '','' # r') \<and> quoted r' = Some (c, []))"
    by blast
  also have "\<dots> \<longleftrightarrow> quote_free a \<and> quote_free b \<and> quote_free c \<and>
     s = apos # a @ [apos] @ '','' @ [apos] @ b @ [apos] @ '','' @ [apos] @ c @ [apos]"
    unfolding quoted_iff by auto
  finally show ?thesis .
qed

lemma scan_files_aux:
  "map_of (rp_files (foldl (scan_field now) r mfs)) l =
     (if filter (\<lambda>i. mf_type i = ''File'' \<and> mf_label i = l) mfs = [] then map_of (rp_files r) l
      else Some \<lparr>fi_name = mf_value (List.last (filter (\<lambda>i. mf_type i = ''File'' \<and> mf_label i = l) mfs)), fi_path = mf_value (List.last (filter (\<lambda>i. mf_type i = ''File'' \<and> mf_label i = l) mfs)), fi_exists = True,
          fi_lastmodified = 39115924, fi_timestamp = now - 39115924\<rparr>)"
  by (induction mfs rule: rev_induct) (auto simp: scan_field_def go_simps split: list.split)

lemma scan_processes_aux:
  "map_of (rp_processes (foldl (scan_field now) r mfs)) l =
     (if filter (\<lambda>i. mf_type i = ''Process'' \<and> mf_label i = l) mfs = [] then map_of (rp_processes r) l
      else Some \<lparr>pr_name = mf_value (List.last (filter (\<lambda>i. mf_type i = ''Process'' \<and> mf_label i = l) mfs)), pr_exists = True\<rparr>)"
  by (induction mfs rule: rev_induct) (auto simp: scan_field_def go_simps split: list.split)

text \<open>the scan answers the manifest: the file entry of a label is that of the last \<open>File\<close> field with
  the label, likewise for processes.\<close>

theorem scan_answers_manifest:
  "map_of (rp_files (scan now mfs)) l =
     (if filter (\<lambda>i. mf_type i = ''File'' \<and> mf_label i = l) mfs = [] then None
      else Some \<lparr>fi_name = mf_value (List.last (filter (\<lambda>i. mf_type i = ''File'' \<and> mf_label i = l) mfs)), fi_path = mf_value (List.last (filter (\<lambda>i. mf_type i = ''File'' \<and> mf_label i = l) mfs)), fi_exists = True,
          fi_lastmodified = 39115924, fi_timestamp = now - 39115924\<rparr>) \<and>
   map_of (rp_processes (scan now mfs)) l =
     (if filter (\<lambda>i. mf_type i = ''Process'' \<and> mf_label i = l) mfs = [] then None
      else Some \<lparr>pr_name = mf_value (List.last (filter (\<lambda>i. mf_type i = ''Process'' \<and> mf_label i = l) mfs)), pr_exists = True\<rparr>)"
proof -
  have "map_of (rp_files (scan_base now)) l = None" "map_of (rp_processes (scan_base now)) l = None"
    by (simp_all add: scan_base_def)
  then show ?thesis unfolding scan_def scan_files_aux scan_processes_aux by (simp only:)
qed

text \<open>\<open>ProcessCSD\<close> succeeds only after it has posted the report of the manifest it fetched, under the
  token of the ticket when there is one, and got status 200.\<close>

theorem process_csd_posts_report:
  assumes "process_csd E info w = (None, w')"
  shows "\<exists>hash token w1 m w2 res. ce_base64 E (csd_sha256 info) = Inr hash \<and>
    csd_fetch_token E info (new_client (csd_hostname info) hash) w = (Inr token, w1) \<and>
    (csd_ticket info = [] \<longrightarrow> token = csd_token info \<and> w1 = w) \<and>
    get_manifest (ce_get E) (ce_manifest E) (ce_err_text E) (new_client (csd_hostname info) hash) w1 = (Inr m, w2) \<and>
    ce_do E (new_client (csd_hostname info) hash)
      \<lparr>pq_url = scan_url (csd_hostname info),
       pq_cookie = (''sdesktop'', token), pq_length = length (report_text (scan (ce_now E w2) m)),
       pq_body = report_text (scan (ce_now E w2) m)\<rparr> w2 = (Inr res, w') \<and> ce_status E res = 200"
proof -
  have host: "hc_host (new_client (csd_hostname info) h) = csd_hostname info" for h
    by (simp add: new_client_def)
  from assms obtain hash token w1 m w2 res where s: "ce_base64 E (csd_sha256 info) = Inr hash"
    "csd_fetch_token E info (new_client (csd_hostname info) hash) w = (Inr token, w1)"
    "get_manifest (ce_get E) (ce_manifest E) (ce_err_text E) (new_client (csd_hostname info) hash) w1 = (Inr m, w2)"
    "post_report (ce_do E) (ce_url_error E) (new_client (csd_hostname info) hash) (scan (ce_now E w2) m) token w2 = (Inr res, w')"
    "ce_status E res = 200"
    by (auto simp: process_csd_def Let_def split: sum.splits prod.splits if_splits)
  moreover from s(4) have "ce_do E (new_client (csd_hostname info) hash)
      \<lparr>pq_url = scan_url (csd_hostname info),
       pq_cookie = (''sdesktop'', token), pq_length = length (report_text (scan (ce_now E w2) m)),
       pq_body = report_text (scan (ce_now E w2) m)\<rparr> w2 = (Inr res, w')"
    by (simp add: post_report_text host split: option.splits)
  moreover from s(2) have "csd_ticket info = [] \<longrightarrow> token = csd_token info \<and> w1 = w"
    by (auto simp: csd_fetch_token_def)
  ultimately show ?thesis by blast
qed

definition sample_csd_env :: "(nat, nat) csd_env" where
  "sample_csd_env = \<lparr>ce_get = (\<lambda>c u w. (Inr 200, w)), ce_do = (\<lambda>c q w. (Inr 200, w + 1)),
     ce_manifest = (\<lambda>r. ([], None)), ce_token = (\<lambda>r. Inr ''tok''), ce_url_error = (\<lambda>u. None),
     ce_err_text = (\<lambda>e. []), ce_base64 = (\<lambda>s. Inr []), ce_now = (\<lambda>w. 0), ce_read_all = (\<lambda>r. Inr []),
     ce_status = int\<rparr>"

definition sample_csd_info :: csd_info where
  "sample_csd_info = \<lparr>csd_hostname = ''h'', csd_token = ''t'', csd_ticket = [], csd_stub = [], csd_sha256 = []\<rparr>"

lemma process_csd_posts_report_witness:
  "\<exists>token res. token = csd_token sample_csd_info \<and> ce_status sample_csd_env res = 200"
proof -
  have "process_csd sample_csd_env sample_csd_info 0 = (None, 1)"
    by (simp add: process_csd_def sample_csd_env_def sample_csd_info_def csd_fetch_token_def get_manifest_def
        post_report_text Let_def)
  from process_csd_posts_report [OF this] show ?thesis by (auto simp: sample_csd_info_def)
qed

end
