(* ===== verification/SyncUtil.thy ===== *)
theory SyncUtil
  imports Prelude
begin

text \<open>
  \<open>pkg/syncutil\<close>: each operation is one atomic step on an explicit state. \<open>sync.Map\<close> is a map whose
  operations are atomic (that is its documented contract); weak pointers are object identities
  together with the set of live objects; channels are buffers in a heap; a timeout is a deadline
  and an armed timer read against a clock.
\<close>

section \<open>AtomicValue\<close>

type_synonym 'v atomic_value = "'v option"

definition atomic_store :: "'v \<Rightarrow> 'v atomic_value \<Rightarrow> 'v atomic_value" where
  "atomic_store v av = Some v"

definition atomic_load :: "'v \<Rightarrow> 'v atomic_value \<Rightarrow> 'v" where
  "atomic_load zero av = (case av of Some v \<Rightarrow> v | None \<Rightarrow> zero)"

definition atomic_compare_and_swap :: "'v \<Rightarrow> 'v \<Rightarrow> 'v atomic_value \<Rightarrow> 'v atomic_value \<times> bool" where
  "atomic_compare_and_swap old new av = (if av = Some old then (Some new, True) else (av, False))"

section \<open>Once\<close>

text \<open>\<open>Do\<close> reports whether this call ran the function; \<open>Go\<close> runs it in a goroutine of its own.\<close>

definition once_do :: "('w \<Rightarrow> 'w) \<Rightarrow> bool \<times> 'w \<Rightarrow> (bool \<times> 'w) \<times> bool" where
  "once_do f s = (let (don, w) = s in if don then ((True, w), False) else ((True, f w), True))"

definition once_go :: "'g \<Rightarrow> bool \<times> 'g list \<Rightarrow> (bool \<times> 'g list) \<times> bool" where
  "once_go f s = once_do (\<lambda>spawned. spawned @ [f]) s"

section \<open>Map\<close>

text \<open>
  The typed view of \<open>sync.Map\<close>. \<open>zero\<close> turns the untyped answer into a typed one and panics
  (\<open>None\<close>) on a loaded nil, which a map of typed values never holds.
\<close>

type_synonym ('k, 'v) smap = "('k, 'v) gomap"

definition map_zero :: "'v \<Rightarrow> 'v option \<Rightarrow> bool \<Rightarrow> ('v \<times> bool) option" where
  "map_zero z val loaded =
     (case val of Some v \<Rightarrow> Some (v, loaded) | None \<Rightarrow> if loaded then None else Some (z, False))"

definition map_store :: "'k \<Rightarrow> 'v \<Rightarrow> ('k, 'v) smap \<Rightarrow> ('k, 'v) smap" where
  "map_store k v m = AList.update k v m"

definition map_load :: "'v \<Rightarrow> 'k \<Rightarrow> ('k, 'v) smap \<Rightarrow> ('v \<times> bool) option" where
  "map_load z k m = map_zero z (map_of m k) (map_of m k \<noteq> None)"

definition map_delete :: "'k \<Rightarrow> ('k, 'v) smap \<Rightarrow> ('k, 'v) smap" where
  "map_delete k m = AList.delete k m"

definition map_load_or_store ::
  "'v \<Rightarrow> 'k \<Rightarrow> 'v \<Rightarrow> ('k, 'v) smap \<Rightarrow> ('v \<times> bool) option \<times> ('k, 'v) smap" where
  "map_load_or_store z k v m = (case map_of m k of
     Some w \<Rightarrow> (map_zero z (Some w) True, m)
   | None \<Rightarrow> (map_zero z (Some v) False, AList.update k v m))"

definition map_load_and_delete ::
  "'v \<Rightarrow> 'k \<Rightarrow> ('k, 'v) smap \<Rightarrow> ('v \<times> bool) option \<times> ('k, 'v) smap" where
  "map_load_and_delete z k m =
     (map_zero z (map_of m k) (map_of m k \<noteq> None), AList.delete k m)"

definition map_swap :: "'v \<Rightarrow> 'k \<Rightarrow> 'v \<Rightarrow> ('k, 'v) smap \<Rightarrow> ('v \<times> bool) option \<times> ('k, 'v) smap" where
  "map_swap z k v m = (map_zero z (map_of m k) (map_of m k \<noteq> None), AList.update k v m)"

definition map_compare_and_delete :: "'k \<Rightarrow> 'v \<Rightarrow> ('k, 'v) smap \<Rightarrow> bool \<times> ('k, 'v) smap" where
  "map_compare_and_delete k old m = (if map_of m k = Some old then (True, AList.delete k m) else (False, m))"

definition map_compare_and_swap :: "'k \<Rightarrow> 'v \<Rightarrow> 'v \<Rightarrow> ('k, 'v) smap \<Rightarrow> bool \<times> ('k, 'v) smap" where
  "map_compare_and_swap k old new m =
     (if map_of m k = Some old then (True, AList.update k new m) else (False, m))"

text \<open>
  The contract of a shared map that its clients rely on: \<open>abs\<close> is the map it stands for. A client that
  swaps an entry in and takes it out with compare-and-delete removes its own entry or none.
\<close>

locale shared_map =
  fixes abs :: "'m \<Rightarrow> 'k \<Rightarrow> 'v option"
    and store :: "'k \<Rightarrow> 'v \<Rightarrow> 'm \<Rightarrow> 'm"
    and load :: "'k \<Rightarrow> 'm \<Rightarrow> ('v \<times> bool) option"
    and swap :: "'k \<Rightarrow> 'v \<Rightarrow> 'm \<Rightarrow> ('v \<times> bool) option \<times> 'm"
    and load_and_delete :: "'k \<Rightarrow> 'm \<Rightarrow> ('v \<times> bool) option \<times> 'm"
    and compare_and_delete :: "'k \<Rightarrow> 'v \<Rightarrow> 'm \<Rightarrow> bool \<times> 'm"
    and zero :: 'v
  assumes abs_store: "abs (store k v m) = (abs m)(k := Some v)"
    and load_abs: "load k m = Some (case abs m k of Some v \<Rightarrow> (v, True) | None \<Rightarrow> (zero, False))"
    and swap_abs: "fst (swap k v m) = load k m
      \<and> abs (snd (swap k v m)) = (abs m)(k := Some v)"
    and load_and_delete_abs: "fst (load_and_delete k m) = load k m
      \<and> abs (snd (load_and_delete k m)) = (abs m)(k := None)"
    and compare_and_delete_abs: "fst (compare_and_delete k v m) = (abs m k = Some v)
      \<and> abs (snd (compare_and_delete k v m)) = (if abs m k = Some v then (abs m)(k := None) else abs m)"
begin

lemma load_never_panics: "load k m \<noteq> None"
  by (simp add: load_abs)

lemma load_hit: "load k m = Some (v, True) \<longleftrightarrow> abs m k = Some v"
  by (auto simp: load_abs split: option.split)

lemma load_store: "load k (store k v m) = Some (v, True)"
  by (simp add: load_hit abs_store)

lemma load_store_other: "k' \<noteq> k \<Longrightarrow> load k' (store k v m) = load k' m"
  by (simp add: load_abs abs_store)

lemma swap_then_remove_own:
  "abs m' k = Some v \<Longrightarrow> abs (snd (compare_and_delete k v m')) k = None"
  by (simp add: compare_and_delete_abs)

lemma remove_keeps_successor:
  "abs m' k = Some v' \<Longrightarrow> v' \<noteq> v \<Longrightarrow> abs (snd (compare_and_delete k v m')) k = Some v'"
  by (simp add: compare_and_delete_abs)

lemma remove_keeps_others:
  "k' \<noteq> k \<Longrightarrow> abs (snd (compare_and_delete k v m)) k' = abs m k'"
  by (simp add: compare_and_delete_abs)

lemma taken_at_most_once:
  "fst (load_and_delete k (snd (load_and_delete k m))) = Some (zero, False)"
  by (simp add: load_and_delete_abs load_abs)

end

lemma map_load_found: "map_load z k m = Some (case map_of m k of Some v \<Rightarrow> (v, True) | None \<Rightarrow> (z, False))"
  by (simp add: map_load_def map_zero_def split: option.split)

interpretation sync_map: shared_map map_of map_store "map_load z" "map_swap z" "map_load_and_delete z"
    map_compare_and_delete z for z
  by unfold_locales
    (simp_all add: map_store_def map_load_found map_swap_def map_load_and_delete_def
      map_compare_and_delete_def map_zero_def go_simps fun_upd_def split: option.split)

section \<open>WeakMap\<close>

text \<open>
  \<open>live\<close> says which objects the collector has not reclaimed; \<open>weak.Make\<close> of an object is its
  identity and \<open>Value\<close> is nil for a dead one. \<open>runtime.AddCleanup\<close> registers the \<open>CompareAndDelete\<close>
  that runs when the object dies. An operation runs without a collection in its middle, so its
  retry loops need no second round: a failing compare-and-swap is a concurrent change.
\<close>

record ('k, 'p) weak_map =
  wm_map :: "('k, 'p) smap"
  wm_cleanups :: "('p \<times> 'k) list"

definition weak_value :: "('p \<Rightarrow> bool) \<Rightarrow> 'p option \<Rightarrow> 'p option" where
  "weak_value live wp = (case wp of Some p \<Rightarrow> if live p then Some p else None | None \<Rightarrow> None)"

definition weak_cleanup :: "'k \<times> 'p \<Rightarrow> ('k, 'p) weak_map \<Rightarrow> ('k, 'p) weak_map" where
  "weak_cleanup args m = m\<lparr>wm_map := snd (map_compare_and_delete (fst args) (snd args) (wm_map m))\<rparr>"

definition add_cleanup :: "'p \<Rightarrow> 'k \<Rightarrow> ('k, 'p) weak_map \<Rightarrow> ('k, 'p) weak_map" where
  "add_cleanup p k m = m\<lparr>wm_cleanups := (p, k) # wm_cleanups m\<rparr>"

definition weak_load :: "('p \<Rightarrow> bool) \<Rightarrow> 'k \<Rightarrow> ('k, 'p) weak_map \<Rightarrow> 'p option \<times> ('k, 'p) weak_map" where
  "weak_load live k m = (case map_of (wm_map m) k of
     None \<Rightarrow> (None, m)
   | Some wp \<Rightarrow> (case weak_value live (Some wp) of
       Some v \<Rightarrow> (Some v, m)
     | None \<Rightarrow> (None, m\<lparr>wm_map := snd (map_compare_and_delete k wp (wm_map m))\<rparr>)))"

definition weak_delete :: "'k \<Rightarrow> ('k, 'p) weak_map \<Rightarrow> ('k, 'p) weak_map" where
  "weak_delete k m = m\<lparr>wm_map := map_delete k (wm_map m)\<rparr>"

definition weak_store :: "'k \<Rightarrow> 'p option \<Rightarrow> ('k, 'p) weak_map \<Rightarrow> ('k, 'p) weak_map" where
  "weak_store k val m = (case val of
     None \<Rightarrow> weak_delete k m
   | Some p \<Rightarrow> (add_cleanup p k m)\<lparr>wm_map := map_store k p (wm_map m)\<rparr>)"

definition weak_load_or_store ::
  "('p \<Rightarrow> bool) \<Rightarrow> 'k \<Rightarrow> 'p option \<Rightarrow> ('k, 'p) weak_map \<Rightarrow> 'p option \<times> ('k, 'p) weak_map" where
  "weak_load_or_store live k val m = (case val of
     None \<Rightarrow> weak_load live k m
   | Some p \<Rightarrow> (case map_of (wm_map m) k of
       None \<Rightarrow> (Some p, (add_cleanup p k m)\<lparr>wm_map := map_store k p (wm_map m)\<rparr>)
     | Some q \<Rightarrow> (case weak_value live (Some q) of
         Some v \<Rightarrow> (Some v, m)
       | None \<Rightarrow> (Some p, m\<lparr>wm_map := snd (map_compare_and_swap k q p (wm_map m))\<rparr>))))"

definition weak_load_and_delete ::
  "('p \<Rightarrow> bool) \<Rightarrow> 'k \<Rightarrow> ('k, 'p) weak_map \<Rightarrow> 'p option \<times> ('k, 'p) weak_map" where
  "weak_load_and_delete live k m = (weak_value live (map_of (wm_map m) k), weak_delete k m)"

definition weak_swap ::
  "('p \<Rightarrow> bool) \<Rightarrow> 'k \<Rightarrow> 'p option \<Rightarrow> ('k, 'p) weak_map \<Rightarrow> 'p option \<times> ('k, 'p) weak_map" where
  "weak_swap live k val m = (case val of
     None \<Rightarrow> weak_load_and_delete live k m
   | Some p \<Rightarrow> (weak_value live (map_of (wm_map m) k),
       (add_cleanup p k m)\<lparr>wm_map := map_store k p (wm_map m)\<rparr>))"

definition weak_compare_and_delete :: "'k \<Rightarrow> 'p option \<Rightarrow> ('k, 'p) weak_map \<Rightarrow> bool \<times> ('k, 'p) weak_map" where
  "weak_compare_and_delete k old m = (case old of
     None \<Rightarrow> (False, m)
   | Some p \<Rightarrow> (let (b, m') = map_compare_and_delete k p (wm_map m) in (b, m\<lparr>wm_map := m'\<rparr>)))"

definition weak_compare_and_swap ::
  "'k \<Rightarrow> 'p option \<Rightarrow> 'p option \<Rightarrow> ('k, 'p) weak_map \<Rightarrow> bool \<times> ('k, 'p) weak_map" where
  "weak_compare_and_swap k old new m = (case new of
     None \<Rightarrow> weak_compare_and_delete k old m
   | Some p \<Rightarrow> (case old of
       None \<Rightarrow> (False, m)
     | Some q \<Rightarrow> (let (b, m') = map_compare_and_swap k q p (wm_map m)
         in (b, if b then (add_cleanup p k m)\<lparr>wm_map := m'\<rparr> else m\<lparr>wm_map := m'\<rparr>))))"

definition weak_clear :: "('k, 'p) weak_map \<Rightarrow> ('k, 'p) weak_map" where
  "weak_clear m = m\<lparr>wm_map := []\<rparr>"

text \<open>
  \<open>StoreRandom\<close> draws keys from \<open>keyGen\<close> until one is free or its object is dead; the keys drawn are
  the list, and \<open>None\<close> means that they ran out first. A nil value gives the zero key.
\<close>

fun store_random_loop ::
  "('p \<Rightarrow> bool) \<Rightarrow> 'p \<Rightarrow> 'k list \<Rightarrow> ('k, 'p) weak_map \<Rightarrow> ('k \<times> ('k, 'p) weak_map) option" where
  "store_random_loop live p [] m = None"
| "store_random_loop live p (k # ks) m = (case map_of (wm_map m) k of
     None \<Rightarrow> Some (k, m\<lparr>wm_map := map_store k p (wm_map m)\<rparr>)
   | Some q \<Rightarrow> if \<not> live q then Some (k, m\<lparr>wm_map := snd (map_compare_and_swap k q p (wm_map m))\<rparr>)
       else store_random_loop live p ks m)"

definition weak_store_random ::
  "('p \<Rightarrow> bool) \<Rightarrow> 'k \<Rightarrow> 'p option \<Rightarrow> 'k list \<Rightarrow> ('k, 'p) weak_map \<Rightarrow> ('k \<times> ('k, 'p) weak_map) option" where
  "weak_store_random live zero val ks m = (case val of
     None \<Rightarrow> Some (zero, m) | Some p \<Rightarrow> store_random_loop live p ks m)"

text \<open>The collector reclaims an object: its cleanups run.\<close>

definition weak_collect :: "'p \<Rightarrow> ('k, 'p) weak_map \<Rightarrow> ('k, 'p) weak_map" where
  "weak_collect p m =
     foldl (\<lambda>m (q, k). if q = p then weak_cleanup (k, q) m else m)
       (m\<lparr>wm_cleanups := filter (\<lambda>(q, k). q \<noteq> p) (wm_cleanups m)\<rparr>) (wm_cleanups m)"

lemma store_random_fresh:
  "store_random_loop live p ks m = Some (k, m') \<Longrightarrow>
     map_of (wm_map m') = (map_of (wm_map m))(k \<mapsto> p) \<and> k \<in> set ks \<and>
     (case map_of (wm_map m) k of None \<Rightarrow> True | Some q \<Rightarrow> \<not> live q)"
  by (induction ks)
    (auto simp: map_store_def map_compare_and_swap_def go_simps split: option.splits if_splits)

lemma store_random_finds:
  "k \<in> set ks \<Longrightarrow> (case map_of (wm_map m) k of None \<Rightarrow> True | Some q \<Rightarrow> \<not> live q) \<Longrightarrow>
   \<exists>r. store_random_loop live p ks m = Some r"
  by (induction ks) (auto split: option.splits)

text \<open>\<open>tracked\<close>: every entry has the cleanup that removes it when its object dies.\<close>

definition tracked :: "('k, 'p) weak_map \<Rightarrow> bool" where
  "tracked m \<longleftrightarrow> (\<forall>k p. map_of (wm_map m) k = Some p \<longrightarrow> (p, k) \<in> set (wm_cleanups m))"

lemma collect_map:
  "map_of (wm_map (foldl (\<lambda>m (q, k). if q = p then weak_cleanup (k, q) m else m) m cs)) k =
     (if map_of (wm_map m) k = Some p \<and> (p, k) \<in> set cs then None else map_of (wm_map m) k)"
  by (induction cs arbitrary: m)
    (auto simp: weak_cleanup_def map_compare_and_delete_def go_simps split: if_splits)

lemma tracked_collected:
  "tracked m \<Longrightarrow> map_of (wm_map (weak_collect p m)) k \<noteq> Some p"
  by (auto simp: weak_collect_def collect_map tracked_def)

lemma tracked_store: "tracked m \<Longrightarrow> tracked (weak_store k v m)"
  by (auto simp: tracked_def weak_store_def weak_delete_def map_delete_def map_store_def add_cleanup_def
      go_simps split: option.splits if_splits)

lemma tracked_swap: "tracked m \<Longrightarrow> tracked (snd (weak_swap live k v m))"
  by (auto simp: tracked_def weak_swap_def weak_load_and_delete_def weak_delete_def map_delete_def
      map_store_def add_cleanup_def go_simps split: option.splits if_splits)

lemma tracked_compare_and_swap: "tracked m \<Longrightarrow> tracked (snd (weak_compare_and_swap k old new m))"
  by (auto simp: tracked_def weak_compare_and_swap_def weak_compare_and_delete_def
      map_compare_and_delete_def map_compare_and_swap_def add_cleanup_def Let_def
      go_simps split: option.splits if_splits prod.splits)

section \<open>Signal\<close>

text \<open>
  Channels live in a heap and are named by their index in it. A subscriber's cancel function has
  captured its channel and the position the channel had when it was appended. Sending on a closed
  channel and closing one twice are panics (\<open>None\<close>).
\<close>

record 'm chan =
  ch_buf :: "'m list"
  ch_closed :: bool

record 'm signal =
  sg_chs :: "nat list"
  sg_heap :: "'m chan list"

definition signal_cap :: nat where
  "signal_cap = 10"

definition empty_signal :: "'m signal" where
  "empty_signal = \<lparr>sg_chs = [], sg_heap = []\<rparr>"

text \<open>The result is the channel and the captured position, which \<open>signal_cancel\<close> takes.\<close>

definition signal_subscribe :: "'m signal \<Rightarrow> (nat \<times> nat) \<times> 'm signal" where
  "signal_subscribe s =
     (let ch = length (sg_heap s); index = length (sg_chs s) in
      ((ch, index), \<lparr>sg_chs = sg_chs s @ [ch], sg_heap = sg_heap s @ [\<lparr>ch_buf = [], ch_closed = False\<rparr>]\<rparr>))"

text \<open>The cancel loop runs down from \<open>i = n - 1\<close>.\<close>

fun cancel_loop :: "nat \<Rightarrow> nat \<Rightarrow> 'm signal \<Rightarrow> 'm signal option" where
  "cancel_loop ch 0 s = Some s"
| "cancel_loop ch (Suc i) s =
     (if sg_chs s ! i \<noteq> ch then cancel_loop ch i s
      else if ch_closed (sg_heap s ! ch) then None
      else Some \<lparr>sg_chs = take i (sg_chs s) @ drop (i + 1) (sg_chs s),
                 sg_heap = (sg_heap s)[ch := (sg_heap s ! ch)\<lparr>ch_closed := True\<rparr>]\<rparr>)"

definition signal_cancel :: "nat \<times> nat \<Rightarrow> 'm signal \<Rightarrow> 'm signal option" where
  "signal_cancel c s = cancel_loop (fst c) (min (snd c + 1) (length (sg_chs s))) s"

text \<open>A send in a \<open>select\<close> with a default: a full buffer drops the message.\<close>

definition try_send :: "'m \<Rightarrow> 'm chan \<Rightarrow> 'm chan option" where
  "try_send msg c = (if ch_closed c then None
     else if length (ch_buf c) < signal_cap then Some (c\<lparr>ch_buf := ch_buf c @ [msg]\<rparr>) else Some c)"

fun publish_loop :: "'m \<Rightarrow> nat list \<Rightarrow> 'm chan list \<Rightarrow> 'm chan list option" where
  "publish_loop msg [] h = Some h"
| "publish_loop msg (c # cs) h = (case try_send msg (h ! c) of
     None \<Rightarrow> None | Some x \<Rightarrow> publish_loop msg cs (h[c := x]))"

definition signal_publish :: "'m \<Rightarrow> 'm signal \<Rightarrow> 'm signal option" where
  "signal_publish msg s = map_option (\<lambda>h. s\<lparr>sg_heap := h\<rparr>) (publish_loop msg (sg_chs s) (sg_heap s))"

text \<open>What the other goroutines may do: subscribe, cancel (any number of times), publish, receive.\<close>

datatype 'm signal_op = SubscribeOp | CancelOp "nat \<times> nat" | PublishOp 'm | ReceiveOp nat

record 'm signal_sys =
  sy_sig :: "'m signal"
  sy_subs :: "(nat \<times> nat) list"

fun signal_exec :: "'m signal_op \<Rightarrow> 'm signal_sys \<Rightarrow> 'm signal_sys option" where
  "signal_exec SubscribeOp y = (let (c, s) = signal_subscribe (sy_sig y) in
     Some (y\<lparr>sy_sig := s, sy_subs := c # sy_subs y\<rparr>))"
| "signal_exec (CancelOp c) y = (if c \<in> set (sy_subs y)
     then map_option (\<lambda>s. y\<lparr>sy_sig := s\<rparr>) (signal_cancel c (sy_sig y)) else Some y)"
| "signal_exec (PublishOp m) y = map_option (\<lambda>s. y\<lparr>sy_sig := s\<rparr>) (signal_publish m (sy_sig y))"
| "signal_exec (ReceiveOp ch) y = (if ch < length (sg_heap (sy_sig y))
     then Some (y\<lparr>sy_sig := (sy_sig y)\<lparr>sg_heap := (sg_heap (sy_sig y))[ch :=
       (sg_heap (sy_sig y) ! ch)\<lparr>ch_buf := tl (ch_buf (sg_heap (sy_sig y) ! ch))\<rparr>]\<rparr>\<rparr>) else Some y)"

fun signal_run :: "'m signal_op list \<Rightarrow> 'm signal_sys \<Rightarrow> 'm signal_sys option" where
  "signal_run [] y = Some y"
| "signal_run (op # ops) y = Option.bind (signal_exec op y) (signal_run ops)"

text \<open>
  The invariant: the subscribed channels are the open ones, each at or left of the position its
  cancel function captured, and no buffer exceeds its capacity.
\<close>

definition signal_inv :: "'m signal_sys \<Rightarrow> bool" where
  "signal_inv y \<longleftrightarrow> distinct (sg_chs (sy_sig y)) \<and>
     (\<forall>c < length (sg_heap (sy_sig y)). c \<in> set (sg_chs (sy_sig y)) \<longleftrightarrow> \<not> ch_closed (sg_heap (sy_sig y) ! c)) \<and>
     (\<forall>c \<in> set (sg_chs (sy_sig y)). c < length (sg_heap (sy_sig y))) \<and>
     (\<forall>c \<in> set (sg_heap (sy_sig y)). length (ch_buf c) \<le> signal_cap) \<and>
     (\<forall>(c, i) \<in> set (sy_subs y). c < length (sg_heap (sy_sig y)) \<and>
        (\<forall>j < length (sg_chs (sy_sig y)). sg_chs (sy_sig y) ! j = c \<longrightarrow> j \<le> i))"

lemma remove_nth_filter:
  "distinct xs \<Longrightarrow> i < length xs \<Longrightarrow> filter (\<lambda>c. c \<noteq> xs ! i) xs = take i xs @ drop (Suc i) xs"
proof (induction xs arbitrary: i)
  case (Cons x xs)
  show ?case
  proof (cases i)
    case 0
    have "filter (\<lambda>c. c \<noteq> x) xs = xs" using Cons.prems(1) by (auto intro!: filter_True)
    with 0 show ?thesis by simp
  next
    case (Suc j)
    with Cons have "xs ! j \<noteq> x" by (metis Suc_less_eq distinct.simps(2) length_Cons nth_mem)
    with Suc Cons show ?thesis by auto
  qed
qed simp

lemma cancel_loop_distinct:
  assumes "distinct (sg_chs s)" "n \<le> length (sg_chs s)"
  shows "cancel_loop ch n s =
    (if \<exists>j < n. sg_chs s ! j = ch then
       (if ch_closed (sg_heap s ! ch) then None
        else Some \<lparr>sg_chs = filter (\<lambda>c. c \<noteq> ch) (sg_chs s),
                   sg_heap = (sg_heap s)[ch := (sg_heap s ! ch)\<lparr>ch_closed := True\<rparr>]\<rparr>)
     else Some s)"
  using assms
proof (induction n)
  case (Suc i)
  show ?case
  proof (cases "sg_chs s ! i = ch")
    case True
    have i: "i < length (sg_chs s)" using Suc.prems by simp
    have "filter (\<lambda>c. c \<noteq> ch) (sg_chs s) = take i (sg_chs s) @ drop (Suc i) (sg_chs s)"
      using remove_nth_filter [OF Suc.prems(1) i] unfolding True .
    with True show ?thesis by auto
  next
    case False
    with Suc show ?thesis by (auto simp: less_Suc_eq)
  qed
qed simp

lemma signal_cancel_eq:
  assumes "signal_inv y" "c \<in> set (sy_subs y)"
  shows "signal_cancel c (sy_sig y) = Some (if fst c \<in> set (sg_chs (sy_sig y))
     then \<lparr>sg_chs = filter (\<lambda>x. x \<noteq> fst c) (sg_chs (sy_sig y)),
           sg_heap = (sg_heap (sy_sig y))[fst c := (sg_heap (sy_sig y) ! fst c)\<lparr>ch_closed := True\<rparr>]\<rparr>
     else sy_sig y)"
proof -
  obtain ch i where c: "c = (ch, i)" by fastforce
  let ?s = "sy_sig y"
  have bound: "j \<le> i" if "j < length (sg_chs ?s)" "sg_chs ?s ! j = ch" for j
    using assms that by (auto simp: signal_inv_def c)
  have in_iff: "(\<exists>j < min (i + 1) (length (sg_chs ?s)). sg_chs ?s ! j = ch) \<longleftrightarrow> ch \<in> set (sg_chs ?s)"
    using bound by (auto simp: in_set_conv_nth less_Suc_eq_le)
  have op: "\<not> ch_closed (sg_heap ?s ! ch)" if "ch \<in> set (sg_chs ?s)"
    using assms(1) that by (auto simp: signal_inv_def)
  have d: "distinct (sg_chs ?s)" using assms(1) by (simp add: signal_inv_def)
  show ?thesis
    unfolding signal_cancel_def c fst_conv snd_conv
    by (subst cancel_loop_distinct [OF d]) (use in_iff op in auto)
qed

lemma publish_loop_eq:
  assumes "distinct cs" "\<forall>c \<in> set cs. c < length h \<and> \<not> ch_closed (h ! c)"
  shows "\<exists>h'. publish_loop msg cs h = Some h' \<and> length h' = length h \<and>
    (\<forall>c < length h. h' ! c = (if c \<in> set cs \<and> length (ch_buf (h ! c)) < signal_cap
       then (h ! c)\<lparr>ch_buf := ch_buf (h ! c) @ [msg]\<rparr> else h ! c))"
  using assms
proof (induction cs arbitrary: h)
  case (Cons c cs)
  define x where "x = (if length (ch_buf (h ! c)) < signal_cap
    then (h ! c)\<lparr>ch_buf := ch_buf (h ! c) @ [msg]\<rparr> else h ! c)"
  have send: "try_send msg (h ! c) = Some x"
    using Cons.prems by (simp add: try_send_def x_def)
  have "\<forall>d \<in> set cs. d < length (h[c := x]) \<and> \<not> ch_closed (h[c := x] ! d)"
    using Cons.prems by (auto simp: nth_list_update)
  with Cons.IH [of "h[c := x]"] Cons.prems(1) obtain h' where
    run: "publish_loop msg cs (h[c := x]) = Some h'" and len: "length h' = length h" and
    el: "\<And>d. d < length h \<Longrightarrow> h' ! d = (if d \<in> set cs \<and> length (ch_buf (h[c := x] ! d)) < signal_cap
       then (h[c := x] ! d)\<lparr>ch_buf := ch_buf (h[c := x] ! d) @ [msg]\<rparr> else h[c := x] ! d)"
    by auto
  show ?case
  proof (intro exI conjI allI impI)
    show "publish_loop msg (c # cs) h = Some h'" using send run by simp
    show "length h' = length h" by (rule len)
    fix d
    assume d: "d < length h"
    show "h' ! d = (if d \<in> set (c # cs) \<and> length (ch_buf (h ! d)) < signal_cap
       then (h ! d)\<lparr>ch_buf := ch_buf (h ! d) @ [msg]\<rparr> else h ! d)"
    proof (cases "d = c")
      case True
      with el [OF d] d Cons.prems(1) show ?thesis by (simp add: x_def)
    next
      case False
      with el [OF d] show ?thesis by simp
    qed
  qed
qed simp

lemma filter_position:
  "j < length (filter P xs) \<Longrightarrow> \<exists>j' \<ge> j. j' < length xs \<and> xs ! j' = filter P xs ! j"
proof (induction xs arbitrary: j)
  case (Cons x xs)
  show ?case
  proof (cases "P x \<and> j = 0")
    case True
    then show ?thesis by (intro exI [of _ 0]) auto
  next
    case False
    with Cons.prems have "(if P x then j - 1 else j) < length (filter P xs)" by auto
    from Cons.IH [OF this] obtain j' where
      "(if P x then j - 1 else j) \<le> j'" "j' < length xs" "xs ! j' = filter P xs ! (if P x then j - 1 else j)"
      by blast
    with False show ?thesis by (intro exI [of _ "Suc j'"]) (auto split: if_splits)
  qed
qed simp

lemma signal_inv_subscribe:
  assumes "signal_inv y"
  shows "signal_inv (y\<lparr>sy_sig := snd (signal_subscribe (sy_sig y)),
    sy_subs := fst (signal_subscribe (sy_sig y)) # sy_subs y\<rparr>)"
  using assms
  by (auto simp: signal_inv_def signal_subscribe_def Let_def nth_append less_Suc_eq split: if_splits)

lemma signal_inv_cancel:
  assumes "signal_inv y"
  shows "signal_inv (y\<lparr>sy_sig := \<lparr>sg_chs = filter (\<lambda>x. x \<noteq> ch) (sg_chs (sy_sig y)),
    sg_heap = (sg_heap (sy_sig y))[ch := (sg_heap (sy_sig y) ! ch)\<lparr>ch_closed := True\<rparr>]\<rparr>\<rparr>)"
    (is "signal_inv (y\<lparr>sy_sig := ?s\<rparr>)")
proof -
  have pos: "j \<le> i" if "(c, i) \<in> set (sy_subs y)" "j < length (sg_chs ?s)" "sg_chs ?s ! j = c" for c i j
  proof -
    note sub = that
    obtain j' where j': "j \<le> j'" "j' < length (sg_chs (sy_sig y))" "sg_chs (sy_sig y) ! j' = c"
      using filter_position [of j "\<lambda>x. x \<noteq> ch" "sg_chs (sy_sig y)"] sub(2,3) by auto
    have "j' \<le> i" using assms sub(1) j'(2,3) by (auto simp: signal_inv_def)
    with j'(1) show ?thesis by simp
  qed
  have buf: "length (ch_buf c) \<le> signal_cap" if "c \<in> set (sg_heap ?s)" for c
  proof -
    have all: "\<forall>c \<in> set (sg_heap (sy_sig y)). length (ch_buf c) \<le> signal_cap"
      using assms by (simp add: signal_inv_def)
    from that obtain k where k: "k < length (sg_heap (sy_sig y))" "c = sg_heap ?s ! k"
      by (auto simp: in_set_conv_nth)
    then show ?thesis using all by (cases "k = ch") auto
  qed
  have op: "c \<in> set (sg_chs ?s) \<longleftrightarrow> \<not> ch_closed (sg_heap ?s ! c)" if "c < length (sg_heap ?s)" for c
    using assms that by (cases "c = ch") (auto simp: signal_inv_def)
  show ?thesis
    unfolding signal_inv_def
    using assms pos buf op by (auto simp: signal_inv_def)
qed

lemma signal_inv_publish:
  assumes inv: "signal_inv y"
  shows "\<exists>s. signal_publish msg (sy_sig y) = Some s \<and> signal_inv (y\<lparr>sy_sig := s\<rparr>) \<and>
    sg_chs s = sg_chs (sy_sig y) \<and> length (sg_heap s) = length (sg_heap (sy_sig y)) \<and>
    (\<forall>c < length (sg_heap s). sg_heap s ! c = (if c \<in> set (sg_chs (sy_sig y)) \<and>
        length (ch_buf (sg_heap (sy_sig y) ! c)) < signal_cap
       then (sg_heap (sy_sig y) ! c)\<lparr>ch_buf := ch_buf (sg_heap (sy_sig y) ! c) @ [msg]\<rparr>
       else sg_heap (sy_sig y) ! c))"
proof -
  let ?h = "sg_heap (sy_sig y)"
  have "distinct (sg_chs (sy_sig y))"
    "\<forall>c \<in> set (sg_chs (sy_sig y)). c < length ?h \<and> \<not> ch_closed (?h ! c)"
    using inv by (auto simp: signal_inv_def)
  from publish_loop_eq [OF this, of msg] obtain h' where
    h': "publish_loop msg (sg_chs (sy_sig y)) ?h = Some h'" "length h' = length ?h" and
    el: "\<And>c. c < length ?h \<Longrightarrow> h' ! c = (if c \<in> set (sg_chs (sy_sig y)) \<and> length (ch_buf (?h ! c)) < signal_cap
       then (?h ! c)\<lparr>ch_buf := ch_buf (?h ! c) @ [msg]\<rparr> else ?h ! c)" by blast
  have all: "length (ch_buf (?h ! c)) \<le> signal_cap" if "c < length ?h" for c
    using inv that by (simp add: signal_inv_def)
  have "length (ch_buf (h' ! c)) \<le> signal_cap" if "c < length ?h" for c
    using all [OF that] el [OF that] by simp
  then have buf: "\<forall>c \<in> set h'. length (ch_buf c) \<le> signal_cap"
    using h'(2) by (metis in_set_conv_nth)
  have cl: "ch_closed (h' ! c) = ch_closed (?h ! c)" if "c < length ?h" for c
    using el [OF that] by simp
  have "signal_inv (y\<lparr>sy_sig := (sy_sig y)\<lparr>sg_heap := h'\<rparr>\<rparr>)"
    using inv buf cl h'(2) by (simp add: signal_inv_def)
  then show ?thesis using h' el by (auto simp: signal_publish_def)
qed

lemma signal_inv_exec:
  assumes inv: "signal_inv y"
  shows "\<exists>y'. signal_exec op y = Some y' \<and> signal_inv y'"
proof (cases op)
  case SubscribeOp
  then show ?thesis using signal_inv_subscribe [OF inv] by (simp add: case_prod_beta Let_def)
next
  case (CancelOp c)
  show ?thesis
  proof (cases "c \<in> set (sy_subs y) \<and> fst c \<in> set (sg_chs (sy_sig y))")
    case True
    then show ?thesis
      using signal_inv_cancel [OF inv, of "fst c"] signal_cancel_eq [OF inv, of c] CancelOp by simp
  next
    case False
    then show ?thesis
      using inv signal_cancel_eq [OF inv, of c] CancelOp by auto
  qed
next
  case (PublishOp m)
  then show ?thesis using signal_inv_publish [OF inv, of m] by auto
next
  case (ReceiveOp ch)
  let ?h = "sg_heap (sy_sig y)"
  have all: "\<forall>c \<in> set ?h. length (ch_buf c) \<le> signal_cap" using inv by (simp add: signal_inv_def)
  have "length (ch_buf c) \<le> signal_cap"
    if "c \<in> set (?h[ch := (?h ! ch)\<lparr>ch_buf := tl (ch_buf (?h ! ch))\<rparr>])" "ch < length ?h" for c
  proof -
    have "length (ch_buf (?h ! ch)) \<le> signal_cap" using all that(2) by simp
    then show ?thesis using that(1) all set_update_subset_insert by fastforce
  qed
  then show ?thesis
    using inv ReceiveOp by (auto simp: signal_inv_def nth_list_update)
qed

interpretation signal_runs: safe_runs signal_exec signal_run signal_inv
  by unfold_locales (auto simp: signal_inv_exec split: option.split)

lemma signal_inv_start: "signal_inv \<lparr>sy_sig = empty_signal, sy_subs = []\<rparr>"
  by (simp add: signal_inv_def empty_signal_def)

section \<open>Timeout\<close>

text \<open>
  \<open>deadline\<close> is the stored \<open>UnixNano\<close>, 0 when stopped; \<open>armed\<close> is the instant the runtime's timer
  will run \<open>runWithLock\<close>, if it is armed. The clock is an argument.
\<close>

record timeout =
  to_deadline :: nat
  to_armed :: "nat option"

definition new_timeout :: "nat \<Rightarrow> nat \<Rightarrow> timeout" where
  "new_timeout now d = \<lparr>to_deadline = now + d, to_armed = Some (now + d)\<rparr>"

definition timeout_stop :: "timeout \<Rightarrow> timeout" where
  "timeout_stop t = t\<lparr>to_armed := None, to_deadline := 0\<rparr>"

definition timeout_reset :: "nat \<Rightarrow> nat \<Rightarrow> timeout \<Rightarrow> timeout" where
  "timeout_reset now d t = t\<lparr>to_deadline := now + d, to_armed := Some (now + d)\<rparr>"

text \<open>Whether \<open>runWithLock\<close>, running at \<open>now\<close> with the lock held, goes on to call the function.\<close>

definition timeout_runs :: "nat \<Rightarrow> timeout \<Rightarrow> bool" where
  "timeout_runs now t \<longleftrightarrow> \<not> (to_deadline t = 0 \<or> now < to_deadline t)"

definition run_with_lock :: "('w \<Rightarrow> 'w) \<Rightarrow> nat \<Rightarrow> timeout \<Rightarrow> 'w \<Rightarrow> 'w" where
  "run_with_lock fn now t w = (if timeout_runs now t then fn w else w)"

datatype timeout_op = StopOp nat | ResetOp nat nat

fun timeout_exec :: "timeout_op \<Rightarrow> timeout \<Rightarrow> timeout" where
  "timeout_exec (StopOp now) t = timeout_stop t"
| "timeout_exec (ResetOp now d) t = timeout_reset now d t"

text \<open>
  A timer that went off before a \<open>Stop\<close> or \<open>Reset\<close> may still get the lock after it: the deadline
  check makes it a no-op until the last reset's own deadline.
\<close>

lemma timeout_last_op:
  "run_with_lock fn now (foldl (\<lambda>t op. timeout_exec op t) t (ops @ [op])) w =
     (case op of StopOp _ \<Rightarrow> w
      | ResetOp t0 d \<Rightarrow> if t0 + d = 0 \<or> now < t0 + d then w else fn w)"
  by (cases op) (auto simp: run_with_lock_def timeout_runs_def timeout_stop_def timeout_reset_def)

section \<open>Properties\<close>

text \<open>C29: no sequence of \<open>Subscribe\<close>, \<open>Publish\<close>, receives and cancels, each cancel called any number of times, sends on a closed channel
  or closes one twice, and the invariant holds after it: the subscribed channels are exactly the
  open ones and no buffer is overfull.\<close>

theorem signal_never_panics:
  "\<exists>y. signal_run ops \<lparr>sy_sig = empty_signal, sy_subs = []\<rparr> = Some y \<and> signal_inv y"
  by (rule signal_runs.run_good [OF signal_inv_start])

text \<open>\<open>Publish\<close> appends the message to the buffer of every subscriber with room, drops it for the
  others, and touches no other channel.\<close>

theorem signal_publish_delivers:
  assumes "signal_run ops \<lparr>sy_sig = empty_signal, sy_subs = []\<rparr> = Some y"
  shows "\<exists>s. signal_publish msg (sy_sig y) = Some s \<and> sg_chs s = sg_chs (sy_sig y) \<and>
    (\<forall>c < length (sg_heap (sy_sig y)). sg_heap s ! c =
      (if c \<in> set (sg_chs (sy_sig y)) \<and> length (ch_buf (sg_heap (sy_sig y) ! c)) < signal_cap
       then (sg_heap (sy_sig y) ! c)\<lparr>ch_buf := ch_buf (sg_heap (sy_sig y) ! c) @ [msg]\<rparr>
       else sg_heap (sy_sig y) ! c))"
proof -
  have "signal_inv y" using signal_runs.run_good [OF signal_inv_start, of ops] assms by auto
  from signal_inv_publish [OF this, of msg] show ?thesis by auto
qed

lemma signal_publish_delivers_witness:
  "\<exists>s. signal_publish (1 :: nat) (sy_sig (the (signal_run [SubscribeOp] \<lparr>sy_sig = empty_signal, sy_subs = []\<rparr>))) = Some s"
  using signal_publish_delivers [of "[SubscribeOp]" "the (signal_run [SubscribeOp] \<lparr>sy_sig = empty_signal, sy_subs = []\<rparr>)" "1 :: nat"]
  by (auto simp: signal_subscribe_def Let_def)

text \<open>a \<open>WeakMap\<close> filled by \<open>Store\<close>, \<open>Swap\<close> and \<open>CompareAndSwap\<close> holds no entry for a collected object; an
  entry made by \<open>StoreRandom\<close> stays when its object dies, since no cleanup was registered.\<close>

theorem weak_map_collects:
  assumes "tracked m" and "map_of (wm_map m) k = None" and "\<forall>k'. (p, k') \<notin> set (wm_cleanups m)"
  shows "map_of (wm_map (weak_collect p (weak_store k (Some p) m))) k = None \<and>
    map_of (wm_map (weak_collect p (snd (weak_swap live k (Some p) m)))) k = None \<and>
    (\<exists>m'. weak_store_random live zero (Some p) [k] m = Some (k, m') \<and>
       map_of (wm_map (weak_collect p m')) k = Some p)"
proof (intro conjI)
  have "map_of (wm_map (weak_store k (Some p) m)) k = Some p"
    by (simp add: weak_store_def map_store_def add_cleanup_def go_simps)
  then show "map_of (wm_map (weak_collect p (weak_store k (Some p) m))) k = None"
    using tracked_store [OF assms(1), of k "Some p"]
    by (simp add: weak_collect_def collect_map tracked_def)
  have "map_of (wm_map (snd (weak_swap live k (Some p) m))) k = Some p"
    by (simp add: weak_swap_def map_store_def add_cleanup_def go_simps)
  then show "map_of (wm_map (weak_collect p (snd (weak_swap live k (Some p) m)))) k = None"
    using tracked_swap [OF assms(1), of live k "Some p"]
    by (simp add: weak_collect_def collect_map tracked_def)
  show "\<exists>m'. weak_store_random live zero (Some p) [k] m = Some (k, m') \<and>
       map_of (wm_map (weak_collect p m')) k = Some p"
    using assms(2,3)
    by (simp add: weak_store_random_def weak_collect_def collect_map map_store_def go_simps)
qed

lemma weak_map_collects_witness:
  "map_of (wm_map (weak_collect (5 :: nat) (weak_store ''k'' (Some 5) \<lparr>wm_map = [], wm_cleanups = []\<rparr>))) ''k'' = None \<and>
    map_of (wm_map (weak_collect (5 :: nat) (snd (weak_swap (\<lambda>_. True) ''k'' (Some 5) \<lparr>wm_map = [], wm_cleanups = []\<rparr>)))) ''k'' = None \<and>
    (\<exists>m'. weak_store_random (\<lambda>_. True) ''z'' (Some (5 :: nat)) [''k''] \<lparr>wm_map = [], wm_cleanups = []\<rparr> = Some (''k'', m') \<and>
       map_of (wm_map (weak_collect 5 m')) ''k'' = Some 5)"
  by (rule weak_map_collects) (simp_all add: tracked_def)

text \<open>\<open>StoreRandom\<close> maps the key it returns to the value, never over the entry of a live object, and it
  ends as soon as the generator draws a free or dead key.\<close>

theorem store_random_safe:
  assumes "k0 \<in> set ks" and "case map_of (wm_map m) k0 of None \<Rightarrow> True | Some q \<Rightarrow> \<not> live q"
  shows "\<exists>k m'. weak_store_random live zero (Some p) ks m = Some (k, m') \<and>
    map_of (wm_map m') = (map_of (wm_map m))(k \<mapsto> p) \<and>
    (case map_of (wm_map m) k of None \<Rightarrow> True | Some q \<Rightarrow> \<not> live q)"
proof -
  obtain k m' where r: "store_random_loop live p ks m = Some (k, m')"
    using store_random_finds [OF assms, of p] by auto
  then show ?thesis using store_random_fresh [OF r] by (simp add: weak_store_random_def)
qed

lemma store_random_safe_witness:
  "\<exists>k m'. weak_store_random (\<lambda>_. True) 0 (Some ''p'') [1, 2 :: nat] \<lparr>wm_map = [(1, ''q'')], wm_cleanups = []\<rparr> = Some (k, m') \<and>
    map_of (wm_map m') = (map_of [(1, ''q'')])(k \<mapsto> ''p'') \<and>
    (case map_of [(1, ''q'')] k of None \<Rightarrow> True | Some q \<Rightarrow> \<not> True)"
  using store_random_safe [of 2 "[1, 2 :: nat]" "\<lambda>_. True" "\<lparr>wm_map = [(1, ''q'')], wm_cleanups = []\<rparr>" 0 "''p''"]
  by simp

text \<open>a timeout callback runs only by the last \<open>Stop\<close> or \<open>Reset\<close>: after \<open>Stop\<close> not at all, after \<open>Reset\<close> not
  before its new deadline, whatever came earlier and however late a timer gets the lock.\<close>

theorem timeout_obeys_last_op:
  "run_with_lock fn now (foldl (\<lambda>t op. timeout_exec op t) t (ops @ [op])) w =
     (case op of StopOp _ \<Rightarrow> w
      | ResetOp t0 d \<Rightarrow> if t0 + d = 0 \<or> now < t0 + d then w else fn w)"
  by (rule timeout_last_op)

end
