(* ===== verification/LazyDialer.thy ===== *)
theory LazyDialer
  imports GoStrings SyncUtil
begin

text \<open>
  \<open>pkg/dialer/lazy.go\<close>: a dialer that is built on first use. Its fields are a record; each critical
  section of the code is one step of a system of goroutines, given by an executable function from an
  action and a state to the next state, to \<open>Panic\<close> where the code would panic, or to \<open>Blocked\<close>
  where the action cannot happen yet (a lock is held, a context is still live). Connections hold
  the read lock until their context ends, exactly as \<open>DialContext\<close> does, and a writer that waits for them
  keeps new readers out, as \<open>sync.RWMutex\<close> does. The lemmas show that
  without an idle timeout no interleaving panics and no waiting caller is forgotten.
\<close>

section \<open>Connection states\<close>

datatype conn_state = Offline | Connecting | Failed | Online

fun conn_state_code :: "conn_state \<Rightarrow> int" where
  "conn_state_code Offline = 0"
| "conn_state_code Connecting = 1"
| "conn_state_code Failed = 2"
| "conn_state_code Online = 3"

text \<open>
  The \<open>String\<close> methods that \<open>stringer\<close> generates: slices of one string between the entries of an
  index table, from the constant \<open>low\<close> on.
\<close>

definition stringer :: "string \<Rightarrow> string \<Rightarrow> nat list \<Rightarrow> int \<Rightarrow> int \<Rightarrow> string" where
  "stringer type_name names index low i =
     (let idx = i - low in
      if idx < 0 \<or> int (length index) - 1 \<le> idx
      then type_name @ ''('' @ format_int i @ '')''
      else drop (index ! nat idx) (take (index ! (nat idx + 1)) names))"

definition conn_state_index :: "nat list" where
  "conn_state_index = [0, 7, 17, 23, 29]"

definition conn_state_string :: "int \<Rightarrow> string" where
  "conn_state_string = stringer ''ConnectionState'' ''OfflineConnectingFailedOnline'' conn_state_index 0"

lemma conn_state_string_names:
  "conn_state_string (conn_state_code s) =
     (case s of Offline \<Rightarrow> ''Offline'' | Connecting \<Rightarrow> ''Connecting'' | Failed \<Rightarrow> ''Failed'' | Online \<Rightarrow> ''Online'')"
  by (cases s) (simp_all add: conn_state_string_def stringer_def conn_state_index_def eval_nat_numeral)

section \<open>The dialer and its goroutines\<close>

text \<open>
  \<open>y_conns\<close> holds the contexts of the calls that reached the underlying dialer: each holds the read lock until its context ends,
  whatever the dialer returned. \<open>y_rets\<close> are the errors that the lazy dialer returned itself, \<open>y_passed\<close> the results that it passed on.
\<close>

text \<open>
  Contexts, timeouts and threads live in lists and are named by index. A context is the cause it
  was cancelled with, if it was. \<open>lz_ctx\<close> and \<open>lz_cancel\<close> name the context that the two fields belong to.
\<close>

record 'd lazy =
  lz_duration :: nat
  lz_initing :: bool
  lz_xd :: "'d option"
  lz_err :: "goerr option"
  lz_state :: conn_state
  lz_ctx :: "nat option"
  lz_cancel :: "nat option"
  lz_timeout :: "nat option"

text \<open>Where a goroutine running \<open>init\<close> is: before its first critical section, in \<open>d.new\<close>, or past the second.\<close>

datatype init_pc = PStart | PNew nat | PRegister

text \<open>The writer that has called \<open>mu.Lock\<close> and waits for the readers to leave: \<open>Reset\<close>, one of the two in \<open>init\<close>, or the callback.\<close>

datatype wlock = LockReset | LockStart | LockDone | LockAfter

text \<open>What a call of the underlying dialer returned: a connection, by number, and an error.\<close>

type_synonym dial_result = "nat option \<times> goerr option"

record 'd sys =
  y_lz :: "'d lazy"
  y_now :: nat
  y_causes :: "goerr option list"
  y_timers :: "timeout list"
  y_inits :: "init_pc list"
  y_afters :: "nat list"
  y_waits :: "nat list"
  y_conns :: "nat list"
  y_sleep :: nat
  y_awake :: nat
  y_rets :: "goerr option list"
  y_passed :: "dial_result list"
  y_pend :: "wlock option"
  y_closed :: "'d list"

definition new_lazy :: "nat \<Rightarrow> 'd lazy" where
  "new_lazy duration = \<lparr>lz_duration = duration, lz_initing = False, lz_xd = None, lz_err = None,
     lz_state = Offline, lz_ctx = None, lz_cancel = None, lz_timeout = None\<rparr>"

definition new_sys :: "nat \<Rightarrow> 'd sys" where
  "new_sys duration = \<lparr>y_lz = new_lazy duration, y_now = 0, y_causes = [], y_timers = [], y_inits = [],
     y_afters = [], y_waits = [], y_conns = [], y_sleep = 0, y_awake = 0, y_rets = [], y_passed = [],
     y_pend = None, y_closed = []\<rparr>"

definition remove_at :: "nat \<Rightarrow> 'a list \<Rightarrow> 'a list" where
  "remove_at i xs = take i xs @ drop (Suc i) xs"

text \<open>\<open>context.WithCancelCause\<close>: only the first cancellation sets the cause.\<close>

definition cancel_ctx :: "nat \<Rightarrow> goerr \<Rightarrow> 'd sys \<Rightarrow> 'd sys" where
  "cancel_ctx c e y = y\<lparr>y_causes := (y_causes y)[c := (case y_causes y ! c of None \<Rightarrow> Some e | Some e' \<Rightarrow> Some e')]\<rparr>"

definition broadcast :: "'d sys \<Rightarrow> 'd sys" where
  "broadcast y = y\<lparr>y_awake := y_awake y + y_sleep y, y_sleep := 0\<rparr>"

text \<open>A writer gets the lock when the readers are gone, before any other writer if it waited for it.\<close>

definition lock_free :: "wlock \<Rightarrow> 'd sys \<Rightarrow> bool" where
  "lock_free w y \<longleftrightarrow> y_conns y = [] \<and> (y_pend y = None \<or> y_pend y = Some w)"

definition close_xd :: "('d \<Rightarrow> bool) \<Rightarrow> 'd sys \<Rightarrow> 'd sys" where
  "close_xd closer y = (case lz_xd (y_lz y) of
     Some d \<Rightarrow> if closer d then y\<lparr>y_closed := y_closed y @ [d]\<rparr> else y | None \<Rightarrow> y)"

text \<open>The reset of the fields that the idle callback, the context callback and a failed \<open>init\<close> share.\<close>

definition go_down :: "conn_state \<Rightarrow> goerr option \<Rightarrow> 'd sys \<Rightarrow> 'd sys" where
  "go_down st err y = y\<lparr>y_lz := (y_lz y)\<lparr>lz_xd := None, lz_state := st, lz_err := err,
     lz_ctx := None, lz_cancel := None, lz_timeout := None\<rparr>\<rparr>"

section \<open>DialContext, Close and Reset\<close>

text \<open>
  One round of the loop in \<open>DialContext\<close>, under the read lock, which is not given while a writer waits; \<open>r\<close> is what the underlying
  dialer returns, when it is asked.
\<close>

definition lazy_dial :: "dial_result \<Rightarrow> 'd sys \<Rightarrow> 'd sys outcome" where
  "lazy_dial r y =
     (if y_pend y \<noteq> None then Blocked
      else let d = y_lz y in
      case lz_state d of
        Offline \<Rightarrow>
          if \<not> lz_initing d
          then Next (y\<lparr>y_lz := d\<lparr>lz_initing := True\<rparr>, y_inits := y_inits y @ [PStart], y_sleep := y_sleep y + 1\<rparr>)
          else Next (y\<lparr>y_sleep := y_sleep y + 1\<rparr>)
      | Online \<Rightarrow>
          (case (if 0 < lz_duration d then lz_timeout d else Some 0) of
             None \<Rightarrow> Panic
           | Some t \<Rightarrow>
               let y = (if 0 < lz_duration d then y\<lparr>y_timers := (y_timers y)[t := timeout_stop (y_timers y ! t)]\<rparr> else y)
               in (case (lz_ctx d, lz_xd d) of
                     (Some c, Some _) \<Rightarrow> Next (y\<lparr>y_conns := y_conns y @ [c], y_passed := y_passed y @ [r]\<rparr>)
                   | _ \<Rightarrow> Panic))
      | Failed \<Rightarrow> Next (y\<lparr>y_rets := y_rets y @ [lz_err d]\<rparr>)
      | Connecting \<Rightarrow> Next (y\<lparr>y_sleep := y_sleep y + 1\<rparr>))"

text \<open>The context of a call has ended: the callback re-arms the idle timeout and unlocks.\<close>

definition lazy_conn_done :: "nat \<Rightarrow> 'd sys \<Rightarrow> 'd sys outcome" where
  "lazy_conn_done k y =
     (if length (y_conns y) \<le> k then Blocked
      else let y' = y\<lparr>y_conns := remove_at k (y_conns y)\<rparr> in
        if 0 < lz_duration (y_lz y)
        then (case lz_timeout (y_lz y) of
            None \<Rightarrow> Panic
          | Some t \<Rightarrow> Next (y'\<lparr>y_timers := (y_timers y)[t := timeout_reset (y_now y) (lz_duration (y_lz y)) (y_timers y ! t)]\<rparr>))
        else Next y')"

definition lazy_close :: "'d sys \<Rightarrow> 'd sys outcome" where
  "lazy_close y =
     (if y_pend y \<noteq> None then Blocked
      else case lz_cancel (y_lz y) of
        Some c \<Rightarrow> Next (cancel_ctx c ErrCloseRequested y) | None \<Rightarrow> Next (broadcast y))"

text \<open>\<open>Reset\<close> under the write lock.\<close>

definition reset_locked :: "'d sys \<Rightarrow> 'd sys" where
  "reset_locked y =
     (let y = y\<lparr>y_pend := None\<rparr> in
      if lz_state (y_lz y) \<noteq> Failed then y
      else broadcast (y\<lparr>y_lz := (y_lz y)\<lparr>lz_state := Offline, lz_err := None\<rparr>\<rparr>))"

definition lazy_reset :: "'d sys \<Rightarrow> 'd sys outcome" where
  "lazy_reset y = (if \<not> lock_free LockReset y then Blocked else Next (reset_locked y))"

section \<open>init and its callbacks\<close>

definition lazy_init_start :: "nat \<Rightarrow> 'd sys \<Rightarrow> 'd sys outcome" where
  "lazy_init_start k y =
     (if length (y_inits y) \<le> k \<or> y_inits y ! k \<noteq> PStart \<or> \<not> lock_free LockStart y then Blocked
      else let c = length (y_causes y) in
        Next (broadcast (y\<lparr>y_pend := None, y_causes := y_causes y @ [None], y_inits := (y_inits y)[k := PNew c],
          y_lz := (y_lz y)\<lparr>lz_xd := None, lz_state := Connecting, lz_err := None,
            lz_ctx := Some c, lz_cancel := Some c\<rparr>\<rparr>)))"

text \<open>\<open>d.new\<close> has returned an error.\<close>

definition lazy_init_fail :: "goerr \<Rightarrow> nat \<Rightarrow> 'd sys \<Rightarrow> 'd sys outcome" where
  "lazy_init_fail e k y =
     (case lz_cancel (y_lz y) of
        None \<Rightarrow> Panic
      | Some c \<Rightarrow>
          let y1 = cancel_ctx c e y in
          (case lz_ctx (y_lz y) of
             None \<Rightarrow> Panic
           | Some c' \<Rightarrow>
               let y2 = go_down Failed (y_causes y1 ! c') y1
               in Next (broadcast (y2\<lparr>y_lz := (y_lz y2)\<lparr>lz_initing := False\<rparr>, y_inits := remove_at k (y_inits y)\<rparr>))))"

text \<open>\<open>d.new\<close> has returned a dialer: a \<open>Wait\<close> method gets a goroutine that cancels the context.\<close>

definition lazy_init_ok :: "('d \<Rightarrow> bool) \<Rightarrow> 'd \<Rightarrow> nat \<Rightarrow> 'd sys \<Rightarrow> 'd sys outcome" where
  "lazy_init_ok waiter xd k y =
     (case (if waiter xd then map_option (\<lambda>c. [c]) (lz_cancel (y_lz y)) else Some []) of
        None \<Rightarrow> Panic
      | Some ws \<Rightarrow>
          let d = (y_lz y)\<lparr>lz_xd := Some xd, lz_state := Online, lz_err := None, lz_initing := False\<rparr>;
              y1 = (if 0 < lz_duration d
                then y\<lparr>y_timers := y_timers y @ [new_timeout (y_now y) (lz_duration d)],
                       y_lz := d\<lparr>lz_timeout := Some (length (y_timers y))\<rparr>\<rparr>
                else y\<lparr>y_lz := d\<rparr>)
          in Next (broadcast (y1\<lparr>y_waits := y_waits y @ ws, y_inits := (y_inits y)[k := PRegister]\<rparr>)))"

definition lazy_init_done :: "('d \<Rightarrow> bool) \<Rightarrow> nat \<Rightarrow> goerr + 'd \<Rightarrow> 'd sys \<Rightarrow> 'd sys outcome" where
  "lazy_init_done waiter k r y =
     (if length (y_inits y) \<le> k \<or> \<not> lock_free LockDone y then Blocked
      else let y = y\<lparr>y_pend := None\<rparr> in (case y_inits y ! k of
        PNew _ \<Rightarrow> (case r of Inl e \<Rightarrow> lazy_init_fail e k y | Inr xd \<Rightarrow> lazy_init_ok waiter xd k y)
      | _ \<Rightarrow> Blocked))"

text \<open>The last statement of \<open>init\<close>, after the unlock: \<open>context.AfterFunc\<close> on the field's context.\<close>

definition lazy_register :: "nat \<Rightarrow> 'd sys \<Rightarrow> 'd sys outcome" where
  "lazy_register k y =
     (if length (y_inits y) \<le> k \<or> y_inits y ! k \<noteq> PRegister then Blocked
      else (case lz_ctx (y_lz y) of
        None \<Rightarrow> Panic
      | Some c \<Rightarrow> Next (y\<lparr>y_afters := y_afters y @ [c], y_inits := remove_at k (y_inits y)\<rparr>)))"

definition lazy_waiter :: "nat \<Rightarrow> goerr option \<Rightarrow> 'd sys \<Rightarrow> 'd sys outcome" where
  "lazy_waiter k e y =
     (if length (y_waits y) \<le> k then Blocked
      else Next (cancel_ctx (y_waits y ! k)
        (case e of Some e \<Rightarrow> ErrWrap ''underlying dialer closed: '' e
         | None \<Rightarrow> ErrText ''underlying dialer closed: %!w(<nil>)'')
        (y\<lparr>y_waits := remove_at k (y_waits y)\<rparr>)))"

text \<open>The callback on the end of the context, under the write lock. \<open>context.Cause\<close> of a nil context panics.\<close>

definition lazy_after :: "('d \<Rightarrow> bool) \<Rightarrow> nat \<Rightarrow> 'd sys \<Rightarrow> 'd sys outcome" where
  "lazy_after closer k y =
     (if length (y_afters y) \<le> k \<or> y_causes y ! (y_afters y ! k) = None \<or> \<not> lock_free LockAfter y then Blocked
      else let y = y\<lparr>y_pend := None\<rparr> in (case lz_ctx (y_lz y) of
        None \<Rightarrow> Panic
      | Some c \<Rightarrow>
          let y1 = (if y_causes y ! c = Some ErrCloseRequested then close_xd closer y else y)
          in Next (broadcast (go_down Offline (y_causes y ! c) (y1\<lparr>y_afters := remove_at k (y_afters y)\<rparr>)))))"

text \<open>
  The idle timer goes off: \<open>runWithLock\<close> takes only the read lock, so connections do not hold it up, but a waiting writer does.
\<close>

definition lazy_timer :: "('d \<Rightarrow> bool) \<Rightarrow> nat \<Rightarrow> 'd sys \<Rightarrow> 'd sys outcome" where
  "lazy_timer closer t y =
     (if length (y_timers y) \<le> t \<or> y_pend y \<noteq> None then Blocked
      else (case to_armed (y_timers y ! t) of
        None \<Rightarrow> Blocked
      | Some a \<Rightarrow>
          if y_now y < a then Blocked
          else let y1 = y\<lparr>y_timers := (y_timers y)[t := (y_timers y ! t)\<lparr>to_armed := None\<rparr>]\<rparr> in
            if \<not> timeout_runs (y_now y) (y_timers y ! t) then Next y1
            else if lz_state (y_lz y) \<noteq> Online then Next y1
            else (case (lz_cancel (y_lz y), lz_ctx (y_lz y)) of
               (Some c, Some c') \<Rightarrow>
                 let y2 = close_xd closer (cancel_ctx c ErrIdleTimeout y1)
                 in Next (broadcast (go_down Offline (y_causes y2 ! c') y2))
             | _ \<Rightarrow> Panic)))"

text \<open>A writer calls \<open>mu.Lock\<close> while readers hold the lock and no other writer waits.\<close>

definition lazy_wait :: "wlock \<Rightarrow> 'd sys \<Rightarrow> 'd sys outcome" where
  "lazy_wait w y =
     (if y_conns y = [] \<or> y_pend y \<noteq> None then Blocked
      else if (case w of
          LockReset \<Rightarrow> True
        | LockStart \<Rightarrow> PStart \<in> set (y_inits y)
        | LockDone \<Rightarrow> list_ex (\<lambda>p. case p of PNew c \<Rightarrow> True | _ \<Rightarrow> False) (y_inits y)
        | LockAfter \<Rightarrow> list_ex (\<lambda>c. y_causes y ! c \<noteq> None) (y_afters y))
      then Next (y\<lparr>y_pend := Some w\<rparr>) else Blocked)"

section \<open>The system\<close>

text \<open>\<open>ResetGo\<close> is a \<open>Reset\<close> that waited for the lock and gets it; \<open>LockWait\<close> a writer that starts to wait.\<close>

datatype 'd act =
    Dial dial_result | Wake dial_result | ConnDone nat | CloseAct | ResetAct | ResetGo | LockWait wlock | InitStart nat | InitDone nat "goerr + 'd"
  | Register nat | WaiterDone nat "goerr option" | AfterRun nat | TimerFire nat | Tick nat

fun lazy_exec :: "('d \<Rightarrow> bool) \<Rightarrow> ('d \<Rightarrow> bool) \<Rightarrow> 'd act \<Rightarrow> 'd sys \<Rightarrow> 'd sys outcome" where
  "lazy_exec waiter closer (Dial r) y = lazy_dial r y"
| "lazy_exec waiter closer (Wake r) y =
     (if y_awake y = 0 then Blocked else lazy_dial r (y\<lparr>y_awake := y_awake y - 1\<rparr>))"
| "lazy_exec waiter closer (ConnDone k) y = lazy_conn_done k y"
| "lazy_exec waiter closer CloseAct y = lazy_close y"
| "lazy_exec waiter closer ResetAct y = lazy_reset y"
| "lazy_exec waiter closer ResetGo y = (if y_pend y = Some LockReset then lazy_reset y else Blocked)"
| "lazy_exec waiter closer (LockWait w) y = lazy_wait w y"
| "lazy_exec waiter closer (InitStart k) y = lazy_init_start k y"
| "lazy_exec waiter closer (InitDone k r) y = lazy_init_done waiter k r y"
| "lazy_exec waiter closer (Register k) y = lazy_register k y"
| "lazy_exec waiter closer (WaiterDone k e) y = lazy_waiter k e y"
| "lazy_exec waiter closer (AfterRun k) y = lazy_after closer k y"
| "lazy_exec waiter closer (TimerFire t) y = lazy_timer closer t y"
| "lazy_exec waiter closer (Tick n) y = Next (y\<lparr>y_now := y_now y + n\<rparr>)"

inductive lazy_reach :: "('d \<Rightarrow> bool) \<Rightarrow> ('d \<Rightarrow> bool) \<Rightarrow> nat \<Rightarrow> 'd sys \<Rightarrow> bool"
  for waiter closer duration where
  start: "lazy_reach waiter closer duration (new_sys duration)"
| step: "lazy_reach waiter closer duration y \<Longrightarrow> lazy_exec waiter closer a y = Next y' \<Longrightarrow>
    lazy_reach waiter closer duration y'"

text \<open>A run of actions; it stops at the first that blocks or panics.\<close>

fun lazy_run :: "('d \<Rightarrow> bool) \<Rightarrow> ('d \<Rightarrow> bool) \<Rightarrow> 'd act list \<Rightarrow> 'd sys \<Rightarrow> 'd sys outcome" where
  "lazy_run waiter closer [] y = Next y"
| "lazy_run waiter closer (a # as) y =
     (case lazy_exec waiter closer a y of Next y' \<Rightarrow> lazy_run waiter closer as y' | r \<Rightarrow> r)"

interpretation lazy_runs: guarded_runs "lazy_exec waiter closer" "lazy_run waiter closer" for waiter closer
  by unfold_locales simp_all

text \<open>
  \<open>Subscribe\<close>: a subscriber that wakes up compares the state with the last one it handed out, at
  first \<open>Offline\<close>, and yields when it differs.
\<close>

definition subscribe_wake :: "conn_state \<Rightarrow> 'd lazy \<Rightarrow> conn_state \<times> (conn_state \<times> goerr option) option" where
  "subscribe_wake prev d = (if lz_state d \<noteq> prev then (lz_state d, Some (lz_state d, lz_err d)) else (prev, None))"

fun subscribe_loop ::
  "('s \<Rightarrow> conn_state \<times> goerr option \<Rightarrow> 's \<times> bool) \<Rightarrow> 's \<Rightarrow> conn_state \<Rightarrow> 'd lazy list \<Rightarrow> 's" where
  "subscribe_loop yield s prev [] = s"
| "subscribe_loop yield s prev (d # ds) =
     (case subscribe_wake prev d of
        (st, None) \<Rightarrow> subscribe_loop yield s st ds
      | (st, Some x) \<Rightarrow> (let (s', go) = yield s x in if \<not> go then s' else subscribe_loop yield s' st ds))"

section \<open>The invariant without an idle timeout\<close>

definition lazy_inv :: "'d sys \<Rightarrow> bool" where
  "lazy_inv y \<longleftrightarrow>
     (let d = y_lz y in
      lz_duration d = 0 \<and> y_timers y = [] \<and> lz_cancel d = lz_ctx d \<and>
      (0 < y_sleep y \<longrightarrow> lz_initing d) \<and> None \<notin> set (y_rets y) \<and>
      (lz_state d \<noteq> Online \<longrightarrow> y_pend y = None) \<and>
      (case lz_state d of
         Offline \<Rightarrow> lz_xd d = None \<and> lz_ctx d = None \<and> y_afters y = [] \<and> y_conns y = [] \<and>
           y_inits y = (if lz_initing d then [PStart] else [])
       | Connecting \<Rightarrow> lz_xd d = None \<and> lz_initing d \<and> y_afters y = [] \<and> y_conns y = [] \<and>
           (\<exists>c. lz_ctx d = Some c \<and> c < length (y_causes y) \<and> y_inits y = [PNew c])
       | Failed \<Rightarrow> lz_xd d = None \<and> lz_ctx d = None \<and> lz_err d \<noteq> None \<and> \<not> lz_initing d \<and>
           y_afters y = [] \<and> y_conns y = [] \<and> y_inits y = []
       | Online \<Rightarrow> lz_xd d \<noteq> None \<and> lz_err d = None \<and> \<not> lz_initing d \<and>
           (\<exists>c. lz_ctx d = Some c \<and> c < length (y_causes y) \<and> set (y_conns y) \<subseteq> {c} \<and>
             (y_inits y = [PRegister] \<and> y_afters y = [] \<or> y_inits y = [] \<and> y_afters y = [c]) \<and>
             (y_pend y = None \<or> y_pend y = Some LockReset \<or>
               y_pend y = Some LockAfter \<and> y_afters y = [c] \<and> y_causes y ! c \<noteq> None))))"

text \<open>Which changes of the state one step can make.\<close>

definition lazy_arc :: "conn_state \<Rightarrow> conn_state \<Rightarrow> bool" where
  "lazy_arc s s' \<longleftrightarrow> s' = s \<or> (s, s') \<in> {(Offline, Connecting), (Connecting, Online), (Connecting, Failed),
     (Failed, Offline), (Online, Offline)}"

definition safe_step :: "'d sys \<Rightarrow> 'd sys outcome \<Rightarrow> bool" where
  "safe_step y r \<longleftrightarrow> r \<noteq> Panic \<and>
     (\<forall>y'. r = Next y' \<longrightarrow> lazy_inv y' \<and> lazy_arc (lz_state (y_lz y)) (lz_state (y_lz y')))"

lemmas lazy_effects = broadcast_def go_down_def cancel_ctx_def close_xd_def remove_at_def lock_free_def reset_locked_def

lemma lazy_inv_start: "lazy_inv (new_sys 0)"
  by (simp add: lazy_inv_def new_sys_def new_lazy_def)

lemma safe_dial: "lazy_inv y \<Longrightarrow> safe_step y (lazy_dial r y)"
  by (cases "lz_state (y_lz y)")
    (auto simp: safe_step_def lazy_inv_def lazy_dial_def lazy_arc_def Let_def split: if_splits option.splits)

lemma lazy_inv_awake [simp]: "lazy_inv (y\<lparr>y_awake := n\<rparr>) = lazy_inv y"
  by (cases "lz_state (y_lz y)") (simp_all add: lazy_inv_def Let_def)

lemma lazy_inv_now [simp]: "lazy_inv (y\<lparr>y_now := n\<rparr>) = lazy_inv y"
  by (cases "lz_state (y_lz y)") (simp_all add: lazy_inv_def Let_def)

lemma safe_conn_done: "lazy_inv y \<Longrightarrow> safe_step y (lazy_conn_done k y)"
  by (cases "lz_state (y_lz y)")
    (auto simp: safe_step_def lazy_inv_def lazy_conn_done_def lazy_arc_def Let_def remove_at_def
      split: if_splits option.splits dest: in_set_takeD in_set_dropD)

lemma cause_kept: "cs ! c' = Some x \<Longrightarrow> c' < length cs \<Longrightarrow>
    \<exists>x. cs[c := (case cs ! c of None \<Rightarrow> Some e | Some e' \<Rightarrow> Some e')] ! c' = Some x"
  by (cases "c' = c") auto

lemma lazy_inv_cancel: "lazy_inv y \<Longrightarrow> lazy_inv (cancel_ctx c e y)"
  using cause_kept [of "y_causes y"]
  by (cases "lz_state (y_lz y)") (auto simp: lazy_inv_def cancel_ctx_def Let_def)

lemma lazy_inv_broadcast: "lazy_inv y \<Longrightarrow> lazy_inv (broadcast y)"
  by (cases "lz_state (y_lz y)") (auto simp: lazy_inv_def broadcast_def Let_def)

lemma lazy_effects_fields [simp]: "y_lz (cancel_ctx c e y) = y_lz y" "y_lz (broadcast y) = y_lz y"
  by (simp_all add: cancel_ctx_def broadcast_def)

lemma safe_close: "lazy_inv y \<Longrightarrow> safe_step y (lazy_close y)"
  by (auto simp: safe_step_def lazy_close_def lazy_inv_cancel lazy_inv_broadcast lazy_arc_def
      split: option.split)

lemma safe_reset: "lazy_inv y \<Longrightarrow> safe_step y (lazy_reset y)"
  by (auto simp: safe_step_def lazy_reset_def lazy_inv_def lazy_arc_def lazy_effects Let_def split: if_splits conn_state.splits)

lemma safe_init_start: "lazy_inv y \<Longrightarrow> safe_step y (lazy_init_start k y)"
  by (cases "lz_state (y_lz y)")
    (auto simp: safe_step_def lazy_init_start_def lazy_inv_def lazy_arc_def lazy_effects Let_def nth_Cons'
      split: if_splits)

lemma lazy_inv_unlocked: "lazy_inv y \<Longrightarrow> lazy_inv (y\<lparr>y_pend := None\<rparr>)"
  by (cases "lz_state (y_lz y)") (auto simp: lazy_inv_def Let_def)

lemma safe_step_pend [simp]: "safe_step (y\<lparr>y_pend := p\<rparr>) r = safe_step y r"
  by (simp add: safe_step_def)

lemma new_connecting: "lazy_inv y \<Longrightarrow> k < length (y_inits y) \<Longrightarrow> y_inits y ! k = PNew c \<Longrightarrow>
    lz_state (y_lz y) = Connecting \<and> k = 0 \<and> y_conns y = [] \<and> y_pend y = None"
  by (cases "lz_state (y_lz y)") (auto simp: lazy_inv_def Let_def nth_Cons' split: if_splits)

lemma safe_init_fail: "lazy_inv y \<Longrightarrow> lz_state (y_lz y) = Connecting \<Longrightarrow> safe_step y (lazy_init_fail e 0 y)"
  by (auto simp: safe_step_def lazy_init_fail_def lazy_inv_def lazy_arc_def lazy_effects Let_def split: option.split)

lemma safe_init_ok: "lazy_inv y \<Longrightarrow> lz_state (y_lz y) = Connecting \<Longrightarrow> safe_step y (lazy_init_ok waiter xd 0 y)"
  by (auto simp: safe_step_def lazy_init_ok_def lazy_inv_def lazy_arc_def lazy_effects Let_def)

lemma safe_init_done:
  assumes "lazy_inv y"
  shows "safe_step y (lazy_init_done waiter k r y)"
proof (cases "k < length (y_inits y) \<and> (\<exists>c. y_inits y ! k = PNew c)")
  case True
  then obtain c where c: "k < length (y_inits y)" "y_inits y ! k = PNew c" by blast
  have "k = 0" "lz_state (y_lz y) = Connecting" using new_connecting [OF assms c] by simp_all
  then show ?thesis
    using c safe_init_fail [OF lazy_inv_unlocked [OF assms]] safe_init_ok [OF lazy_inv_unlocked [OF assms]]
    by (cases r) (auto simp: lazy_init_done_def Let_def safe_step_def [of _ Blocked])
next
  case False
  then have "lazy_init_done waiter k r y = Blocked"
    by (auto simp: lazy_init_done_def Let_def split: init_pc.split)
  then show ?thesis by (simp add: safe_step_def)
qed

lemma safe_register: "lazy_inv y \<Longrightarrow> safe_step y (lazy_register k y)"
  by (cases "lz_state (y_lz y)")
    (auto simp: safe_step_def lazy_register_def lazy_inv_def lazy_arc_def remove_at_def Let_def nth_Cons'
      split: if_splits)

lemma lazy_inv_waits [simp]: "lazy_inv (y\<lparr>y_waits := ws\<rparr>) = lazy_inv y"
  by (cases "lz_state (y_lz y)") (simp_all add: lazy_inv_def Let_def)

lemma safe_waiter: "lazy_inv y \<Longrightarrow> safe_step y (lazy_waiter k e y)"
  by (auto simp: safe_step_def lazy_waiter_def lazy_inv_cancel lazy_arc_def)

text \<open>The callback runs only online, for the context of the connection.\<close>

lemma after_online: "lazy_inv y \<Longrightarrow> lazy_after closer k y \<noteq> Blocked \<Longrightarrow>
    lz_state (y_lz y) = Online \<and> k = 0 \<and> y_conns y = [] \<and> (\<exists>c. y_afters y = [c] \<and> lz_ctx (y_lz y) = Some c \<and> y_causes y ! c \<noteq> None)"
  by (cases "lz_state (y_lz y)")
    (auto simp: lazy_inv_def Let_def lazy_after_def lock_free_def nth_Cons' split: if_splits)

lemma safe_after:
  assumes "lazy_inv y"
  shows "safe_step y (lazy_after closer k y)"
proof (cases "lazy_after closer k y = Blocked")
  case False
  from after_online [OF assms this] obtain c where "lz_state (y_lz y) = Online" "k = 0" "y_conns y = []" "y_afters y = [c]"
    "lz_ctx (y_lz y) = Some c" "y_causes y ! c \<noteq> None" by blast
  then show ?thesis using assms False
    by (auto simp: safe_step_def lazy_after_def lazy_inv_def lazy_arc_def lazy_effects Let_def split: if_splits option.splits)
qed (simp add: safe_step_def)

lemma safe_wait: "lazy_inv y \<Longrightarrow> safe_step y (lazy_wait w y)"
  by (cases "lz_state (y_lz y)"; cases w)
    (auto simp: safe_step_def lazy_wait_def lazy_inv_def lazy_arc_def Let_def)

lemma safe_timer: "lazy_inv y \<Longrightarrow> safe_step y (lazy_timer closer t y)"
  by (simp add: safe_step_def lazy_timer_def lazy_inv_def Let_def)

lemmas lazy_safe_steps = safe_dial safe_conn_done safe_close safe_reset safe_init_start safe_init_done
  safe_register safe_waiter safe_after safe_timer safe_wait

lemma safe_step_awake [simp]: "safe_step (y\<lparr>y_awake := n\<rparr>) r = safe_step y r"
  by (simp add: safe_step_def)

lemma lazy_exec_safe: "lazy_inv y \<Longrightarrow> safe_step y (lazy_exec waiter closer a y)"
  by (cases a) (use safe_dial [of "y\<lparr>y_awake := y_awake y - 1\<rparr>"] in
    \<open>auto simp: lazy_safe_steps safe_step_def [of _ Blocked] safe_step_def [of _ "Next (y\<lparr>y_now := _\<rparr>)"] lazy_arc_def\<close>)

lemma lazy_reach_inv: "lazy_reach waiter closer 0 y \<Longrightarrow> lazy_inv y"
proof (induction rule: lazy_reach.induct)
  case start
  show ?case by (rule lazy_inv_start)
next
  case (step y a y')
  then show ?case using lazy_exec_safe [of y waiter closer a] by (simp add: safe_step_def)
qed

lemma lazy_reach_run:
  "lazy_reach waiter closer dur y \<Longrightarrow> lazy_run waiter closer as y = Next y' \<Longrightarrow> lazy_reach waiter closer dur y'"
  by (rule lazy_runs.run_keeps [where A = UNIV]) (auto intro: lazy_reach.step)

text \<open>With any idle timeout: contexts are numbered in the order in which they are made.\<close>

lemmas lazy_steps = lazy_dial_def lazy_conn_done_def lazy_close_def lazy_reset_def lazy_init_start_def lazy_init_done_def
  lazy_init_ok_def lazy_init_fail_def lazy_register_def lazy_waiter_def lazy_after_def lazy_timer_def lazy_wait_def

definition ctx_bounds :: "'d sys \<Rightarrow> bool" where
  "ctx_bounds y \<longleftrightarrow> (\<forall>k < length (y_afters y). y_afters y ! k < length (y_causes y)) \<and>
     (\<forall>c. lz_ctx (y_lz y) = Some c \<longrightarrow> c < length (y_causes y))"

lemma ctx_bounds_set: "ctx_bounds y \<longleftrightarrow> (\<forall>c \<in> set (y_afters y). c < length (y_causes y)) \<and>
    (\<forall>c. lz_ctx (y_lz y) = Some c \<longrightarrow> c < length (y_causes y))"
  by (auto simp: ctx_bounds_def all_set_conv_all_nth)

lemma ctx_bounds_effects [simp]:
  "ctx_bounds (broadcast y) = ctx_bounds y" "ctx_bounds (cancel_ctx c e y) = ctx_bounds y" "ctx_bounds (close_xd closer y) = ctx_bounds y"
  "ctx_bounds (y\<lparr>y_pend := p\<rparr>) = ctx_bounds y" "ctx_bounds (y\<lparr>y_awake := n\<rparr>) = ctx_bounds y" "ctx_bounds (y\<lparr>y_now := n\<rparr>) = ctx_bounds y"
  "ctx_bounds (y\<lparr>y_waits := ws\<rparr>) = ctx_bounds y" "ctx_bounds (y\<lparr>y_timers := ts\<rparr>) = ctx_bounds y"
  by (simp_all add: ctx_bounds_def broadcast_def cancel_ctx_def close_xd_def split: option.split)

lemma ctx_bounds_down [simp]: "ctx_bounds y \<Longrightarrow> ctx_bounds (go_down st err y)"
  by (simp add: ctx_bounds_def go_down_def)

lemma afters_kept [simp]: "y_afters (close_xd closer y) = y_afters y"
  by (simp add: close_xd_def split: option.split)

lemma ctx_bounds_removed [simp]: "ctx_bounds y \<Longrightarrow> y_afters y = cs \<Longrightarrow> ctx_bounds (y\<lparr>y_afters := remove_at k cs\<rparr>)"
  by (auto simp: ctx_bounds_set remove_at_def dest: in_set_takeD in_set_dropD)

lemma ctx_bounds_dial: "ctx_bounds y \<Longrightarrow> lazy_dial r y = Next y' \<Longrightarrow> ctx_bounds y'"
  by (auto simp: ctx_bounds_def lazy_dial_def Let_def split: if_splits option.splits conn_state.splits)

lemma ctx_bounds_init_done: "ctx_bounds y \<Longrightarrow> lazy_init_done waiter k r y = Next y' \<Longrightarrow> ctx_bounds y'"
  by (auto simp: lazy_init_done_def lazy_init_ok_def lazy_init_fail_def Let_def split: if_splits option.splits init_pc.splits sum.splits)
    (auto simp: ctx_bounds_def broadcast_def cancel_ctx_def go_down_def)

lemma ctx_bounds_after: "ctx_bounds y \<Longrightarrow> lazy_after closer k y = Next y' \<Longrightarrow> ctx_bounds y'"
  by (auto simp: lazy_after_def Let_def split: if_splits option.splits)

lemma ctx_bounds_timer: "ctx_bounds y \<Longrightarrow> lazy_timer closer t y = Next y' \<Longrightarrow> ctx_bounds y'"
  by (auto simp: lazy_timer_def Let_def split: if_splits option.splits)

lemma ctx_bounds_short:
  "ctx_bounds y \<Longrightarrow> lazy_init_start k y = Next y' \<Longrightarrow> ctx_bounds y'"
  "ctx_bounds y \<Longrightarrow> lazy_register k y = Next y' \<Longrightarrow> ctx_bounds y'"
  "ctx_bounds y \<Longrightarrow> lazy_conn_done k y = Next y' \<Longrightarrow> ctx_bounds y'"
  "ctx_bounds y \<Longrightarrow> lazy_close y = Next y' \<Longrightarrow> ctx_bounds y'"
  "ctx_bounds y \<Longrightarrow> lazy_reset y = Next y' \<Longrightarrow> ctx_bounds y'"
  "ctx_bounds y \<Longrightarrow> lazy_waiter k e y = Next y' \<Longrightarrow> ctx_bounds y'"
  "ctx_bounds y \<Longrightarrow> lazy_wait w y = Next y' \<Longrightarrow> ctx_bounds y'"
  by (auto simp: ctx_bounds_set lazy_init_start_def lazy_register_def lazy_conn_done_def lazy_close_def lazy_reset_def reset_locked_def
      lazy_waiter_def lazy_wait_def cancel_ctx_def broadcast_def less_Suc_eq Let_def split: if_splits option.splits)

lemma ctx_bounds_exec:
  assumes "ctx_bounds y" and "lazy_exec waiter closer a y = Next y'"
  shows "ctx_bounds y'"
proof (cases a)
  case (Wake r)
  then show ?thesis using assms ctx_bounds_dial [of "y\<lparr>y_awake := y_awake y - 1\<rparr>" r y'] by (auto split: if_splits)
next
  case ResetGo
  then show ?thesis using assms ctx_bounds_short(5) by (auto split: if_splits)
qed (use assms in \<open>auto intro: ctx_bounds_dial ctx_bounds_init_done ctx_bounds_after ctx_bounds_timer ctx_bounds_short\<close>)

lemma lazy_reach_bounds: "lazy_reach waiter closer duration y \<Longrightarrow> ctx_bounds y"
proof (induction rule: lazy_reach.induct)
  case (step y a y')
  then show ?case using ctx_bounds_exec by blast
qed (simp add: ctx_bounds_def new_sys_def new_lazy_def)

section \<open>Properties\<close>

definition call_result :: dial_result where
  "call_result = (Some 1, None)"

text \<open>C9: without an idle timeout no interleaving of callers, connections, \<open>Close\<close>, \<open>Reset\<close>, the
  initialising goroutine and its callbacks makes the lazy dialer panic.\<close>

theorem lazy_no_panic:
  assumes "lazy_reach waiter closer 0 y"
  shows "lazy_exec waiter closer a y \<noteq> Panic"
  using lazy_exec_safe [OF lazy_reach_inv [OF assms], of waiter closer a] by (simp add: safe_step_def)

lemma lazy_no_panic_witness: "lazy_exec (\<lambda>_. False) (\<lambda>_. True) (Dial call_result) (new_sys 0 :: nat sys) \<noteq> Panic"
  by (rule lazy_no_panic [OF lazy_reach.start])



text \<open>without an idle timeout one step changes the connection state only along Offline,
  Connecting, Online or Failed, and back to Offline.\<close>

theorem lazy_transitions:
  assumes "lazy_reach waiter closer 0 y" and "lazy_exec waiter closer a y = Next y'"
  shows "lazy_arc (lz_state (y_lz y)) (lz_state (y_lz y'))"
  using lazy_exec_safe [OF lazy_reach_inv [OF assms(1)], of waiter closer a] assms(2)
  by (simp add: safe_step_def)

lemma lazy_transitions_witness:
  "lazy_arc Offline (lz_state (y_lz (case lazy_exec (\<lambda>_. False) (\<lambda>_. True) (Dial call_result) (new_sys 0 :: nat sys) of
     Next y \<Rightarrow> y | _ \<Rightarrow> new_sys 0)))"
  using lazy_transitions [OF lazy_reach.start [where 'd = nat and waiter = "\<lambda>_. False" and closer = "\<lambda>_. True"],
    of "Dial call_result" "case lazy_exec (\<lambda>_. False) (\<lambda>_. True) (Dial call_result) (new_sys 0 :: nat sys) of Next y \<Rightarrow> y | _ \<Rightarrow> new_sys 0"]
  by (simp add: lazy_dial_def new_sys_def new_lazy_def)

text \<open>No wake-up is lost. While a caller sleeps in \<open>DialContext\<close> (no idle timeout) a goroutine is on
  its way to build the dialer: it can take the lock now, or it waits for \<open>d.new\<close>, and whatever that
  returns, every sleeper is woken.\<close>

theorem lazy_no_lost_wakeup:
  assumes "lazy_reach waiter closer 0 y" and "0 < y_sleep y"
  shows "(\<exists>y'. lazy_exec waiter closer (InitStart 0) y = Next y') \<or>
    (\<forall>r. \<exists>y'. lazy_exec waiter closer (InitDone 0 r) y = Next y' \<and>
      y_sleep y' = 0 \<and> y_awake y' = y_awake y + y_sleep y)"
proof (cases "lz_state (y_lz y)")
  case Connecting
  have "\<exists>y'. lazy_exec waiter closer (InitDone 0 r) y = Next y' \<and> y_sleep y' = 0 \<and>
      y_awake y' = y_awake y + y_sleep y" for r
    using lazy_reach_inv [OF assms(1)] Connecting
    by (cases r) (auto simp: lazy_inv_def lazy_init_done_def lazy_init_fail_def lazy_init_ok_def Let_def
        lazy_effects)
  then show ?thesis by blast
qed (use lazy_reach_inv [OF assms(1)] assms(2) in \<open>auto simp: lazy_inv_def Let_def lazy_init_start_def lock_free_def\<close>)

lemma lazy_no_lost_wakeup_witness:
  "\<exists>y :: nat sys. 0 < y_sleep y \<and> ((\<exists>y'. lazy_exec (\<lambda>_. False) (\<lambda>_. True) (InitStart 0) y = Next y') \<or>
    (\<forall>r. \<exists>y'. lazy_exec (\<lambda>_. False) (\<lambda>_. True) (InitDone 0 r) y = Next y' \<and>
      y_sleep y' = 0 \<and> y_awake y' = y_awake y + y_sleep y))"
proof -
  obtain y :: "nat sys" where y: "lazy_exec (\<lambda>_. False) (\<lambda>_. True) (Dial call_result) (new_sys 0) = Next y"
    by (simp add: lazy_dial_def new_sys_def new_lazy_def)
  then have "0 < y_sleep y" by (auto simp: lazy_dial_def new_sys_def new_lazy_def)
  with lazy_no_lost_wakeup [OF lazy_reach.step [OF lazy_reach.start y]] show ?thesis by blast
qed

text \<open>\<open>Close\<close> of an online dialer (no idle timeout) whose connections are done takes it offline with
  \<open>ErrCloseRequested\<close> and closes the underlying dialer, once, when it has a \<open>Close\<close> method.\<close>

theorem lazy_close_goes_offline:
  assumes "lazy_reach waiter closer 0 y" and "lz_xd (y_lz y) = Some d" and "y_conns y = []"
    and "y_inits y = []" and "lz_ctx (y_lz y) = Some c" and "y_causes y ! c = None" and "y_pend y = None"
  shows "\<exists>y'. lazy_run waiter closer [CloseAct, AfterRun 0] y = Next y' \<and>
    lz_state (y_lz y') = Offline \<and> lz_err (y_lz y') = Some ErrCloseRequested \<and>
    y_closed y' = y_closed y @ (if closer d then [d] else [])"
proof (cases "lz_state (y_lz y)")
  case Online
  with lazy_reach_inv [OF assms(1)] assms(2-7) show ?thesis
    by (auto simp: lazy_inv_def Let_def lazy_close_def lazy_after_def lazy_effects)
qed (use lazy_reach_inv [OF assms(1)] assms(2) in \<open>auto simp: lazy_inv_def Let_def\<close>)

definition online_sys :: "nat sys" where
  "online_sys = (case lazy_run (\<lambda>_. False) (\<lambda>_. True) [Dial call_result, InitStart 0, InitDone 0 (Inr 7), Register 0] (new_sys 0) of
     Next y \<Rightarrow> y | _ \<Rightarrow> new_sys 0)"

lemma lazy_close_goes_offline_witness:
  "\<exists>y'. lazy_run (\<lambda>_. False) (\<lambda>_. True) [CloseAct, AfterRun 0] online_sys = Next y' \<and>
    lz_state (y_lz y') = Offline \<and> lz_err (y_lz y') = Some ErrCloseRequested \<and>
    y_closed y' = y_closed online_sys @ (if (\<lambda>_. True) (7 :: nat) then [7] else [])"
proof -
  have run: "lazy_run (\<lambda>_. False) (\<lambda>_. True) [Dial call_result, InitStart 0, InitDone 0 (Inr 7), Register 0] (new_sys 0)
      = Next online_sys"
    and f: "lz_xd (y_lz online_sys) = Some 7" "y_conns online_sys = []" "y_inits online_sys = []"
      "lz_ctx (y_lz online_sys) = Some 0" "y_causes online_sys ! 0 = None" "y_pend online_sys = None"
    by (simp_all add: online_sys_def lazy_dial_def new_sys_def new_lazy_def lazy_init_start_def
        lazy_init_done_def lazy_init_ok_def lazy_register_def lazy_effects Let_def)
  show ?thesis
    by (rule lazy_close_goes_offline [OF lazy_reach_run [OF lazy_reach.start run] f])
qed

text \<open>C38: with an idle timeout: whenever the timer takes down a dialer whose end-of-context callback is registered and through which no
  connection is open, that callback can run and panics when it does: the context that its cause is asked of was forgotten.\<close>

theorem lazy_idle_timeout_panics:
  assumes "lazy_reach waiter closer duration y" and "lazy_exec waiter closer (TimerFire t) y = Next y'"
    and "lz_state (y_lz y) = Online" and "lz_state (y_lz y') = Offline" and "y_conns y = []"
    and "k < length (y_afters y)" and "lz_cancel (y_lz y) = Some (y_afters y ! k)"
  shows "k < length (y_afters y') \<and> y_causes y' ! (y_afters y' ! k) \<noteq> None \<and> lazy_exec waiter closer (AfterRun k) y' = Panic"
proof -
  have "y_afters y ! k < length (y_causes y)" using lazy_reach_bounds [OF assms(1)] assms(6) by (simp add: ctx_bounds_def)
  then show ?thesis using assms(2-7)
    by (auto simp: lazy_timer_def lazy_after_def lazy_effects Let_def split: if_splits option.splits)
qed

text \<open>The run that ends so: one dial, and then nothing until the timeout.\<close>

definition idle_run :: "nat \<Rightarrow> 'd \<Rightarrow> 'd act list" where
  "idle_run duration d = [Dial call_result, InitStart 0, InitDone 0 (Inr d), Register 0, Wake call_result, ConnDone 0, Tick duration]"

lemma idle_run_fires:
  assumes "0 < duration"
  shows "\<exists>y y'. lazy_run waiter closer (idle_run duration d) (new_sys duration) = Next y \<and>
    lazy_exec waiter closer (TimerFire 0) y = Next y' \<and> lz_state (y_lz y) = Online \<and> lz_state (y_lz y') = Offline \<and>
    y_conns y = [] \<and> y_afters y = [0] \<and> lz_cancel (y_lz y) = Some 0"
  using assms
  by (simp add: idle_run_def new_sys_def new_lazy_def lazy_dial_def lazy_init_start_def lazy_init_done_def lazy_init_ok_def
      lazy_register_def lazy_conn_done_def lazy_timer_def lazy_effects Let_def
      timeout_runs_def timeout_reset_def timeout_stop_def new_timeout_def split: option.split)

lemma lazy_idle_timeout_panics_witness:
  "\<exists>y y'. lazy_run (\<lambda>_. False) (\<lambda>_. True) (idle_run 3600 (7 :: nat)) (new_sys 3600) = Next y \<and>
    lazy_exec (\<lambda>_. False) (\<lambda>_. True) (TimerFire 0) y = Next y' \<and> lazy_exec (\<lambda>_. False) (\<lambda>_. True) (AfterRun 0) y' = Panic"
proof -
  obtain y y' :: "nat sys" where y: "lazy_run (\<lambda>_. False) (\<lambda>_. True) (idle_run 3600 7) (new_sys 3600) = Next y"
    "lazy_exec (\<lambda>_. False) (\<lambda>_. True) (TimerFire 0) y = Next y'" "lz_state (y_lz y) = Online" "lz_state (y_lz y') = Offline"
    "y_conns y = []" "y_afters y = [0]" "lz_cancel (y_lz y) = Some 0"
    using idle_run_fires [of 3600 "\<lambda>_. False" "\<lambda>_. True" 7] by auto
  from lazy_idle_timeout_panics [OF lazy_reach_run [OF lazy_reach.start y(1)] y(2-5), of 0] y show ?thesis by auto
qed

text \<open>a \<open>Reset\<close> that comes while connections are open waits for the write lock until all of them have ended, and until then no
  caller gets in and \<open>Close\<close> has no effect, whatever else happens.\<close>

theorem reset_holds_up_callers:
  assumes "y_conns y \<noteq> []" and "y_pend y = None"
  shows "\<exists>y'. lazy_exec waiter closer (LockWait LockReset) y = Next y' \<and>
    (\<forall>as z. (\<forall>k. ConnDone k \<notin> set as) \<longrightarrow> lazy_run waiter closer as y' = Next z \<longrightarrow>
      y_conns z = y_conns y \<and> lazy_exec waiter closer (Dial r) z = Blocked \<and> lazy_exec waiter closer (Wake r) z = Blocked \<and>
      lazy_exec waiter closer CloseAct z = Blocked \<and> lazy_exec waiter closer ResetGo z = Blocked)"
proof -
  let ?y' = "y\<lparr>y_pend := Some LockReset\<rparr>"
  have "y_conns z = y_conns y \<and> y_pend z = Some LockReset"
    if "\<forall>k. ConnDone k \<notin> set as" "lazy_run waiter closer as ?y' = Next z" for as z
  proof (rule lazy_runs.run_keeps [where A = "- range ConnDone", OF _ _ _ that(2)])
    fix a s s'
    assume "a \<in> - range ConnDone" "y_conns s = y_conns y \<and> y_pend s = Some LockReset" "lazy_exec waiter closer a s = Next s'"
    then show "y_conns s' = y_conns y \<and> y_pend s' = Some LockReset"
      using assms(1) by (cases a) (auto simp: lazy_steps Let_def lock_free_def cancel_ctx_def split: if_splits option.splits)
  qed (use that(1) in auto)
  moreover have "lazy_exec waiter closer (LockWait LockReset) y = Next ?y'" using assms by (simp add: lazy_wait_def)
  ultimately show ?thesis using assms(1) by (auto simp: lazy_steps lock_free_def)
qed

lemma reset_holds_up_callers_witness:
  "\<exists>y'. lazy_run (\<lambda>_. False) (\<lambda>_. True) [Wake call_result, LockWait LockReset] online_sys = Next y' \<and>
    lazy_exec (\<lambda>_. False) (\<lambda>_. True) (Dial call_result) y' = Blocked"
proof -
  obtain y :: "nat sys" where y: "lazy_exec (\<lambda>_. False) (\<lambda>_. True) (Wake call_result) online_sys = Next y" "y_conns y \<noteq> []" "y_pend y = None"
    by (simp add: online_sys_def lazy_dial_def new_sys_def new_lazy_def lazy_init_start_def
        lazy_init_done_def lazy_init_ok_def lazy_register_def lazy_effects Let_def)
  from reset_holds_up_callers [OF y(2,3), of "\<lambda>_. False" "\<lambda>_. True" call_result] obtain y' where
    "lazy_exec (\<lambda>_. False) (\<lambda>_. True) (LockWait LockReset) y = Next y'"
    "lazy_exec (\<lambda>_. False) (\<lambda>_. True) (Dial call_result) y' = Blocked"
    by (metis empty_iff lazy_run.simps(1) list.set(1))
  with y(1) show ?thesis by (intro exI [of _ y']) (simp del: lazy_exec.simps)
qed

text \<open>the idle timeout is re-armed when any connection ends: with two connections of which one
  ends, the timer fires, closes the dialer and goes offline under the other one.\<close>

theorem lazy_idle_timeout_under_connection:
  assumes "0 < duration"
  shows "\<exists>y. lazy_run waiter (\<lambda>_. True)
      [Dial call_result, InitStart 0, InitDone 0 (Inr d), Register 0, Wake call_result, Dial call_result, ConnDone 0, Tick duration, TimerFire 0]
      (new_sys duration) = Next y \<and> y_conns y \<noteq> [] \<and> lz_state (y_lz y) = Offline \<and> y_closed y = [d]"
  using assms
  by (simp add: new_sys_def new_lazy_def lazy_dial_def lazy_init_start_def lazy_init_done_def lazy_init_ok_def
      lazy_register_def lazy_conn_done_def lazy_timer_def lazy_after_def lazy_effects Let_def
      timeout_runs_def timeout_reset_def timeout_stop_def new_timeout_def)

lemma lazy_idle_timeout_under_connection_witness:
  "\<exists>y. lazy_run (\<lambda>_. False) (\<lambda>_. True)
      [Dial call_result, InitStart 0, InitDone 0 (Inr (7 :: nat)), Register 0, Wake call_result, Dial call_result, ConnDone 0, Tick 3600, TimerFire 0]
      (new_sys 3600) = Next y \<and> y_conns y \<noteq> [] \<and> lz_state (y_lz y) = Offline \<and> y_closed y = [7]"
  by (rule lazy_idle_timeout_under_connection) simp

end
