(* ===== verification/VpnInfo.thy ===== *)
theory VpnInfo
  imports LazyDialer "HOL-Library.Word"
begin

text \<open>
  \<open>pkg/openconnect\<close>: the Go side of a VPN session (\<open>vpninfo.go\<close>, \<open>form.go\<close>, \<open>processor.go\<close>, \<open>bridge.go\<close>, \<open>cmd.go\<close>).
  The C library is a record of functions on its own state \<open>'w\<close>; a session object lives in a heap and is
  found from C by the library's pointer through the shared map \<open>handles\<close>. The one-place channel
  \<open>errCh\<close> is an option.
\<close>

section \<open>Errors\<close>

text \<open>\<open>ocErrno\<close>: \<open>syscall.Errno(-rc)\<close> negates a C int and converts it to an unsigned machine word.\<close>

definition oc_errno :: "string \<Rightarrow> 32 word \<Rightarrow> goerr option" where
  "oc_errno op rc = (if rc = 0 then None else Some (ErrOp op (ErrErrno (uint (scast (- rc) :: 64 word)))))"

definition op_error_text :: "(goerr \<Rightarrow> string) \<Rightarrow> string \<Rightarrow> goerr \<Rightarrow> string" where
  "op_error_text err_text op e = (if op = [] then err_text e else op @ '': '' @ err_text e)"

section \<open>Forms\<close>

record form_choice =
  ch_name :: string
  ch_label :: string

record form_option =
  fo_handle :: nat
  fo_name :: string
  fo_label :: string
  fo_type :: int
  fo_choices :: "form_choice list"

record auth_form =
  af_banner :: string
  af_message :: string
  af_error :: string
  af_authgroup :: "form_option option"
  af_options :: "form_option list"

text \<open>The constants of \<open>openconnect.h\<close> that the generated \<open>String\<close> methods pin down.\<close>

definition form_option_text :: int where "form_option_text = 1"
definition form_option_password :: int where "form_option_password = 2"
definition form_option_select :: int where "form_option_select = 3"

definition form_option_type_index :: "nat list" where
  "form_option_type_index = [0, 4, 12, 18, 24, 29, 37, 44]"

definition form_option_type_string :: "int \<Rightarrow> string" where
  "form_option_type_string =
     stringer ''FormOptionType'' ''TextPasswordSelectHiddenTokenSSOTokenSSOUser'' form_option_type_index 1"

definition log_level_index :: "nat list" where
  "log_level_index = [0, 3, 7, 12, 17]"

definition log_level_string :: "int \<Rightarrow> string" where
  "log_level_string = stringer ''LogLevel'' ''ErrInfoDebugTrace'' log_level_index 0"

definition set_value :: "(nat \<Rightarrow> string \<Rightarrow> 'w \<Rightarrow> int \<times> 'w) \<Rightarrow> form_option \<Rightarrow> string \<Rightarrow> 'w \<Rightarrow> goerr option \<times> 'w" where
  "set_value setopt opt val w =
     (let (rc, w') = setopt (fo_handle opt) val w in
      (if rc \<noteq> 0 then Some (ErrText ''failed to set option value'') else None, w'))"

section \<open>Form processors\<close>

type_synonym 'w processor = "auth_form \<Rightarrow> 'w \<Rightarrow> goerr option \<times> 'w"

record credentials =
  cp_username :: string
  cp_password :: string

fun credentials_loop ::
  "(string \<Rightarrow> string) \<Rightarrow> (nat \<Rightarrow> string \<Rightarrow> 'w \<Rightarrow> int \<times> 'w) \<Rightarrow> credentials \<Rightarrow> form_option list \<Rightarrow> 'w \<Rightarrow> goerr option \<times> 'w" where
  "credentials_loop ul setopt cp [] w = (None, w)"
| "credentials_loop ul setopt cp (opt # opts) w =
     (if fo_type opt = form_option_text then
        if has_prefix (to_lower ul (fo_name opt)) ''user'' then
          (case set_value setopt opt (cp_username cp) w of
             (Some e, w') \<Rightarrow> (Some e, w')
           | (None, w') \<Rightarrow> credentials_loop ul setopt cp opts w')
        else credentials_loop ul setopt cp opts w
      else if fo_type opt = form_option_password then
        (case set_value setopt opt (cp_password cp) w of
           (Some e, w') \<Rightarrow> (Some e, w')
         | (None, w') \<Rightarrow> credentials_loop ul setopt cp opts w')
      else credentials_loop ul setopt cp opts w)"

definition credentials_process_form ::
  "(string \<Rightarrow> string) \<Rightarrow> (nat \<Rightarrow> string \<Rightarrow> 'w \<Rightarrow> int \<times> 'w) \<Rightarrow> credentials \<Rightarrow> 'w processor" where
  "credentials_process_form ul setopt cp form w = credentials_loop ul setopt cp (af_options form) w"

text \<open>\<open>LoggerFunc\<close>: the messages it logs, with their attributes.\<close>

definition logger_lines :: "auth_form \<Rightarrow> (string \<times> (string \<times> string) list) list" where
  "logger_lines form =
     (''Processing Auth Form'', [(''banner'', af_banner form), (''message'', af_message form), (''error'', af_error form)]) #
     concat (map (\<lambda>opt.
       (''option'', [(''name'', fo_name opt), (''label'', fo_label opt), (''type'', form_option_type_string (fo_type opt))]) #
       map (\<lambda>c. (''choice'', [(''name'', ch_name c), (''label'', ch_label c)])) (fo_choices opt)) (af_options form))"

definition logger_process_form :: "(string \<times> (string \<times> string) list \<Rightarrow> 'w \<Rightarrow> 'w) \<Rightarrow> 'w processor" where
  "logger_process_form lf form w = (None, foldl (\<lambda>w l. lf l w) w (logger_lines form))"

fun aggregate_process_form :: "'w processor list \<Rightarrow> 'w processor" where
  "aggregate_process_form [] form w = (None, w)"
| "aggregate_process_form (p # ps) form w =
     (case p form w of (Some e, w') \<Rightarrow> (Some e, w') | (None, w') \<Rightarrow> aggregate_process_form ps form w')"

text \<open>What the credentials processor sets, from the form alone.\<close>

definition credential_values :: "(string \<Rightarrow> string) \<Rightarrow> credentials \<Rightarrow> form_option list \<Rightarrow> (nat \<times> string) list" where
  "credential_values ul cp opts = concat (map (\<lambda>opt.
     if fo_type opt = form_option_text \<and> has_prefix (to_lower ul (fo_name opt)) ''user'' then [(fo_handle opt, cp_username cp)]
     else if fo_type opt = form_option_password then [(fo_handle opt, cp_password cp)] else []) opts)"

fun set_all :: "(nat \<Rightarrow> string \<Rightarrow> 'w \<Rightarrow> int \<times> 'w) \<Rightarrow> (nat \<times> string) list \<Rightarrow> 'w \<Rightarrow> goerr option \<times> 'w" where
  "set_all setopt [] w = (None, w)"
| "set_all setopt ((h, v) # hvs) w =
     (let (rc, w') = setopt h v w in
      if rc \<noteq> 0 then (Some (ErrText ''failed to set option value''), w') else set_all setopt hvs w')"

lemma form_types_distinct: "form_option_text \<noteq> form_option_password"
  by (simp add: form_option_text_def form_option_password_def)

lemma credentials_loop_values:
  "credentials_loop ul setopt cp opts w = set_all setopt (credential_values ul cp opts) w"
  by (induction opts arbitrary: w)
    (use form_types_distinct in \<open>auto simp: credential_values_def set_value_def Let_def split: prod.split\<close>)

lemma aggregate_append:
  "aggregate_process_form (ps @ qs) form w =
     (case aggregate_process_form ps form w of (Some e, w') \<Rightarrow> (Some e, w')
      | (None, w') \<Rightarrow> aggregate_process_form qs form w')"
  by (induction ps arbitrary: w) (auto split: prod.split option.split)

section \<open>Sessions\<close>

record csd_args =
  ca_hostname :: string
  ca_sha256 :: string
  ca_token :: string
  ca_ticket :: string
  ca_stub :: string

record 'w callbacks =
  cb_validate :: "(string \<Rightarrow> bool) option"
  cb_auth :: "(auth_form \<Rightarrow> 'w \<Rightarrow> goerr option \<times> 'w) option"
  cb_csd :: "(csd_args \<Rightarrow> 'w \<Rightarrow> goerr option \<times> 'w) option"
  cb_progress :: "(int \<Rightarrow> string \<Rightarrow> 'w \<Rightarrow> 'w) option"
  cb_browser :: "(string \<Rightarrow> 'w \<Rightarrow> goerr option \<times> 'w) option"
  cb_reconnected :: "('w \<Rightarrow> 'w) option"

definition no_callbacks :: "'w callbacks" where
  "no_callbacks = \<lparr>cb_validate = None, cb_auth = None, cb_csd = None, cb_progress = None, cb_browser = None,
     cb_reconnected = None\<rparr>"

record 'w options =
  op_user_agent :: string
  op_version :: string
  op_protocol :: string
  op_server :: string
  op_csd :: string
  op_log_level :: int
  op_force_dpd :: int
  op_insecure :: bool
  op_callbacks :: "'w callbacks"

record 'w vpn_info =
  vi_ptr :: "nat option"
  vi_errch :: "goerr option"
  vi_callbacks :: "'w callbacks"

text \<open>
  The library's calls. A call on a session takes its pointer, nil for a freed session. \<open>api_set\<close>
  stands for the setters that take a string and \<open>api_int\<close> for those that take an integer, by name.
\<close>

record 'w oc_api =
  api_new :: "string \<Rightarrow> 'w \<Rightarrow> nat option \<times> 'w"
  api_free :: "nat \<Rightarrow> 'w \<Rightarrow> 'w"
  api_set :: "string \<Rightarrow> nat option \<Rightarrow> string \<Rightarrow> 'w \<Rightarrow> 32 word \<times> 'w"
  api_int :: "string \<Rightarrow> nat option \<Rightarrow> int \<Rightarrow> 'w \<Rightarrow> 32 word \<times> 'w"
  api_call :: "string \<Rightarrow> nat option \<Rightarrow> 'w \<Rightarrow> 32 word \<times> 'w"
  api_csd :: "nat option \<Rightarrow> int \<Rightarrow> bool \<Rightarrow> string \<Rightarrow> 'w \<Rightarrow> 32 word \<times> 'w"
  api_get :: "string \<Rightarrow> nat option \<Rightarrow> 'w \<Rightarrow> string"

record 'w ocst =
  oc_w :: 'w
  oc_handles :: "(nat, nat) smap"
  oc_vpns :: "'w vpn_info list"

definition vpn :: "nat \<Rightarrow> 'w ocst \<Rightarrow> 'w vpn_info" where
  "vpn v s = oc_vpns s ! v"

definition set_vpn :: "nat \<Rightarrow> 'w vpn_info \<Rightarrow> 'w ocst \<Rightarrow> 'w ocst" where
  "set_vpn v x s = s\<lparr>oc_vpns := (oc_vpns s)[v := x]\<rparr>"

text \<open>A library call with a result code, wrapped by \<open>ocErrno\<close> under an operation name.\<close>

definition oc_call :: "string \<Rightarrow> (nat option \<Rightarrow> 'w \<Rightarrow> 32 word \<times> 'w) \<Rightarrow> nat \<Rightarrow> 'w ocst \<Rightarrow> goerr option \<times> 'w ocst" where
  "oc_call op f v s = (let (rc, w') = f (vi_ptr (vpn v s)) (oc_w s) in (oc_errno op rc, s\<lparr>oc_w := w'\<rparr>))"

definition set_user_agent :: "'w oc_api \<Rightarrow> nat \<Rightarrow> string \<Rightarrow> 'w ocst \<Rightarrow> goerr option \<times> 'w ocst" where
  "set_user_agent A v ua s = oc_call ''set user agent'' (\<lambda>p. api_set A ''useragent'' p ua) v s"

definition set_version_string :: "'w oc_api \<Rightarrow> nat \<Rightarrow> string \<Rightarrow> 'w ocst \<Rightarrow> goerr option \<times> 'w ocst" where
  "set_version_string A v ver s = oc_call ''set version string'' (\<lambda>p. api_set A ''version_string'' p ver) v s"

definition parse_url :: "'w oc_api \<Rightarrow> nat \<Rightarrow> string \<Rightarrow> 'w ocst \<Rightarrow> goerr option \<times> 'w ocst" where
  "parse_url A v u s = oc_call ''parse URL'' (\<lambda>p. api_set A ''parse_url'' p u) v s"

definition get_hostname :: "'w oc_api \<Rightarrow> nat \<Rightarrow> 'w ocst \<Rightarrow> string" where
  "get_hostname A v s = api_get A ''hostname'' (vi_ptr (vpn v s)) (oc_w s)"

definition set_hostname :: "'w oc_api \<Rightarrow> nat \<Rightarrow> string \<Rightarrow> 'w ocst \<Rightarrow> goerr option \<times> 'w ocst" where
  "set_hostname A v h s = oc_call ''set hostname'' (\<lambda>p. api_set A ''hostname'' p h) v s"

definition get_protocol :: "'w oc_api \<Rightarrow> nat \<Rightarrow> 'w ocst \<Rightarrow> string" where
  "get_protocol A v s = api_get A ''protocol'' (vi_ptr (vpn v s)) (oc_w s)"

definition set_protocol :: "'w oc_api \<Rightarrow> nat \<Rightarrow> string \<Rightarrow> 'w ocst \<Rightarrow> goerr option \<times> 'w ocst" where
  "set_protocol A v p s = oc_call ''set protocol'' (\<lambda>ptr. api_set A ''protocol'' ptr p) v s"

definition setup_tun_script :: "'w oc_api \<Rightarrow> nat \<Rightarrow> string \<Rightarrow> 'w ocst \<Rightarrow> goerr option \<times> 'w ocst" where
  "setup_tun_script A v sc s = oc_call ''setup tun script'' (\<lambda>p. api_set A ''tun_script'' p sc) v s"

definition setup_tun_fd :: "'w oc_api \<Rightarrow> nat \<Rightarrow> int \<Rightarrow> 'w ocst \<Rightarrow> goerr option \<times> 'w ocst" where
  "setup_tun_fd A v fd s = oc_call ''setup tun fd'' (\<lambda>p. api_int A ''tun_fd'' p fd) v s"

definition set_log_level :: "'w oc_api \<Rightarrow> nat \<Rightarrow> int \<Rightarrow> 'w ocst \<Rightarrow> 'w ocst" where
  "set_log_level A v l s = s\<lparr>oc_w := snd (api_int A ''loglevel'' (vi_ptr (vpn v s)) l (oc_w s))\<rparr>"

definition setup_csd :: "'w oc_api \<Rightarrow> nat \<Rightarrow> int \<Rightarrow> bool \<Rightarrow> string \<Rightarrow> 'w ocst \<Rightarrow> goerr option \<times> 'w ocst" where
  "setup_csd A v uid silent wrapper s = oc_call ''setup CSD'' (\<lambda>p. api_csd A p uid silent wrapper) v s"

definition set_allow_insecure_crypto :: "'w oc_api \<Rightarrow> nat \<Rightarrow> bool \<Rightarrow> 'w ocst \<Rightarrow> goerr option \<times> 'w ocst" where
  "set_allow_insecure_crypto A v b s =
     oc_call ''set allow-insecure-crypto'' (\<lambda>p. api_int A ''allow_insecure_crypto'' p (if b then 1 else 0)) v s"

definition setup_dtls :: "'w oc_api \<Rightarrow> nat \<Rightarrow> int \<Rightarrow> 'w ocst \<Rightarrow> goerr option \<times> 'w ocst" where
  "setup_dtls A v n s = oc_call ''setup DTLS'' (\<lambda>p. api_int A ''dtls'' p n) v s"

definition disable_dtls :: "'w oc_api \<Rightarrow> nat \<Rightarrow> 'w ocst \<Rightarrow> goerr option \<times> 'w ocst" where
  "disable_dtls A v s = oc_call ''disable DTLS'' (api_call A ''disable_dtls'') v s"

definition set_dpd :: "'w oc_api \<Rightarrow> nat \<Rightarrow> int \<Rightarrow> 'w ocst \<Rightarrow> 'w ocst" where
  "set_dpd A v n s = s\<lparr>oc_w := snd (api_int A ''dpd'' (vi_ptr (vpn v s)) n (oc_w s))\<rparr>"

definition make_cstp_connection :: "'w oc_api \<Rightarrow> nat \<Rightarrow> 'w ocst \<Rightarrow> goerr option \<times> 'w ocst" where
  "make_cstp_connection A v s = oc_call ''make CSTP connection'' (api_call A ''make_cstp_connection'') v s"

definition main_loop :: "'w oc_api \<Rightarrow> nat \<Rightarrow> 'w ocst \<Rightarrow> goerr option \<times> 'w ocst" where
  "main_loop A v s = oc_call ''main loop'' (api_call A ''mainloop'') v s"

definition get_tun_fd :: "'w oc_api \<Rightarrow> nat \<Rightarrow> 'w ocst \<Rightarrow> int \<times> goerr option \<times> 'w ocst" where
  "get_tun_fd A v s =
     (let (rc, w') = api_call A ''get_tun_fd'' (vi_ptr (vpn v s)) (oc_w s); fd = sint rc in
      (fd, if fd < 0 then Some (ErrText ''get tun fd: fd not setup'') else None, s\<lparr>oc_w := w'\<rparr>))"

text \<open>\<open>SetupCmdPipe\<close> returns the write end of the command pipe.\<close>

definition setup_cmd_pipe :: "'w oc_api \<Rightarrow> nat \<Rightarrow> 'w ocst \<Rightarrow> int res \<times> 'w ocst" where
  "setup_cmd_pipe A v s =
     (let (fd, w') = api_call A ''setup_cmd_pipe'' (vi_ptr (vpn v s)) (oc_w s); s' = s\<lparr>oc_w := w'\<rparr> in
      if sint fd < 0
      then (case oc_errno ''setup cmd pipe'' fd of Some e \<Rightarrow> (Inl e, s') | None \<Rightarrow> (Inr 0, s'))
      else (Inr (sint fd), s'))"

text \<open>\<open>ParseOpts\<close>; \<open>uid\<close> is \<open>os.Getuid()\<close>.\<close>

definition oc_when :: "bool \<Rightarrow> ('w ocst \<Rightarrow> goerr option \<times> 'w ocst) \<Rightarrow> ('w ocst \<Rightarrow> goerr option \<times> 'w ocst) \<Rightarrow>
   'w ocst \<Rightarrow> goerr option \<times> 'w ocst" where
  "oc_when b f k s = (if b then (case f s of (Some e, s') \<Rightarrow> (Some e, s') | (None, s') \<Rightarrow> k s') else k s)"

definition parse_opts :: "'w oc_api \<Rightarrow> int \<Rightarrow> nat \<Rightarrow> 'w options \<Rightarrow> 'w ocst \<Rightarrow> goerr option \<times> 'w ocst" where
  "parse_opts A uid v opts s =
     (let s = set_vpn v ((vpn v s)\<lparr>vi_callbacks := op_callbacks opts\<rparr>) s;
          s = set_log_level A v (op_log_level opts) s
      in oc_when (op_user_agent opts \<noteq> []) (set_user_agent A v (op_user_agent opts))
         (oc_when (op_version opts \<noteq> []) (set_version_string A v (op_version opts))
         (oc_when (op_protocol opts \<noteq> []) (set_protocol A v (op_protocol opts))
         (oc_when (op_server opts \<noteq> []) (parse_url A v (op_server opts))
         (oc_when (op_csd opts \<noteq> []) (setup_csd A v uid True (op_csd opts))
         (\<lambda>s. let s = (if 0 < op_force_dpd opts then set_dpd A v (op_force_dpd opts) s else s) in
              oc_when (op_insecure opts) (set_allow_insecure_crypto A v (op_insecure opts))
              (\<lambda>s. (None, s)) s))))) s)"

definition vpn_free :: "'w oc_api \<Rightarrow> nat \<Rightarrow> 'w ocst \<Rightarrow> 'w ocst" where
  "vpn_free A v s =
     (case vi_ptr (vpn v s) of
        None \<Rightarrow> s
      | Some p \<Rightarrow>
          let s = s\<lparr>oc_w := api_free A p (oc_w s)\<rparr>; s = s\<lparr>oc_handles := map_delete p (oc_handles s)\<rparr>
          in set_vpn v ((vpn v s)\<lparr>vi_ptr := None\<rparr>) s)"

definition default_user_agent :: string where
  "default_user_agent = ''AnyConnect-compatible OpenConnect VPN Agent''"

text \<open>\<open>New\<close>: the new object is appended to the heap; its index is the result.\<close>

definition vpn_new :: "'w oc_api \<Rightarrow> int \<Rightarrow> 'w options \<Rightarrow> 'w ocst \<Rightarrow> nat res \<times> 'w ocst" where
  "vpn_new A uid opts0 s =
     (let opts = (if op_user_agent opts0 = [] then opts0\<lparr>op_user_agent := default_user_agent\<rparr> else opts0);
          (ptr, w') = api_new A (op_user_agent opts) (oc_w s); s = s\<lparr>oc_w := w'\<rparr> in
      case ptr of
        None \<Rightarrow> (Inl (ErrText ''failed to create VPN session''), s)
      | Some p \<Rightarrow>
          let v = length (oc_vpns s);
              s = s\<lparr>oc_vpns := oc_vpns s @ [\<lparr>vi_ptr = Some p, vi_errch = None, vi_callbacks = no_callbacks\<rparr>],
                    oc_handles := map_store p v (oc_handles s)\<rparr> in
          (case parse_opts A uid v opts s of
             (Some e, s) \<Rightarrow> (Inl e, vpn_free A v s)
           | (None, s) \<Rightarrow> (Inr v, s)))"

text \<open>A non-blocking send on \<open>errCh\<close>.\<close>

definition send_err :: "nat \<Rightarrow> goerr \<Rightarrow> 'w ocst \<Rightarrow> 'w ocst" where
  "send_err v e s = (case vi_errch (vpn v s) of
     None \<Rightarrow> set_vpn v ((vpn v s)\<lparr>vi_errch := Some e\<rparr>) s | Some _ \<Rightarrow> s)"

text \<open>
  \<open>ObtainCookie\<close>: the library runs the callbacks; \<open>obtain\<close> is the whole call on the state, which may
  send errors into \<open>errCh\<close>.
\<close>

definition obtain_cookie ::
  "'w oc_api \<Rightarrow> (nat \<Rightarrow> 'w ocst \<Rightarrow> 32 word \<times> 'w ocst) \<Rightarrow> nat \<Rightarrow> 'w ocst \<Rightarrow> goerr option \<times> 'w ocst" where
  "obtain_cookie A obtain_call v s =
     (let enable = (case cb_csd (vi_callbacks (vpn v s)) of None \<Rightarrow> 0 | Some _ \<Rightarrow> 1);
          s = s\<lparr>oc_w := snd (api_int A ''set_csd_callback'' (vi_ptr (vpn v s)) enable (oc_w s))\<rparr>;
          (rc, s) = obtain_call v s in
      case oc_errno ''obtain cookie'' rc of
        None \<Rightarrow> (None, s)
      | Some err \<Rightarrow> (case vi_errch (vpn v s) of
          Some cb_err \<Rightarrow> (Some cb_err, set_vpn v ((vpn v s)\<lparr>vi_errch := None\<rparr>) s)
        | None \<Rightarrow> (Some err, s)))"

section \<open>Callbacks from C\<close>

text \<open>Result codes of \<open>openconnect.h\<close> for form callbacks.\<close>

record oc_consts =
  form_result_err :: int
  form_result_ok :: int
  form_result_cancelled :: int

definition handle_of :: "nat \<Rightarrow> 'w ocst \<Rightarrow> nat option" where
  "handle_of ctx s = (case map_load 0 ctx (oc_handles s) of Some (v, True) \<Rightarrow> Some v | _ \<Rightarrow> None)"

definition go_validate_peer_cert :: "nat \<Rightarrow> string \<Rightarrow> 'w ocst \<Rightarrow> int" where
  "go_validate_peer_cert ctx cert s = (case handle_of ctx s of
     None \<Rightarrow> 1
   | Some v \<Rightarrow> (case cb_validate (vi_callbacks (vpn v s)) of
       None \<Rightarrow> 1 | Some f \<Rightarrow> if f cert then 0 else 1))"

text \<open>The C form: strings may be null, which \<open>C.GoString\<close> reads as empty; the options are a linked list.\<close>

definition go_string :: "string option \<Rightarrow> string" where
  "go_string s = (case s of None \<Rightarrow> [] | Some x \<Rightarrow> x)"

record c_choice =
  cc_name :: "string option"
  cc_label :: "string option"

record c_option =
  co_handle :: nat
  co_name :: "string option"
  co_label :: "string option"
  co_type :: int
  co_ignore :: bool
  co_choices :: "c_choice list"

record c_form =
  cf_banner :: "string option"
  cf_message :: "string option"
  cf_error :: "string option"
  cf_authgroup :: "c_option option"
  cf_opts :: "c_option list"

definition form_choices :: "c_choice list \<Rightarrow> form_choice list" where
  "form_choices cs = map (\<lambda>c. \<lparr>ch_name = go_string (cc_name c), ch_label = go_string (cc_label c)\<rparr>) cs"

text \<open>The auth group's option has neither handle nor type: both are zero.\<close>

definition form_of :: "c_form \<Rightarrow> auth_form" where
  "form_of f = \<lparr>af_banner = go_string (cf_banner f), af_message = go_string (cf_message f),
     af_error = go_string (cf_error f),
     af_authgroup = map_option (\<lambda>g. \<lparr>fo_handle = 0, fo_name = go_string (co_name g), fo_label = go_string (co_label g),
       fo_type = 0, fo_choices = form_choices (co_choices g)\<rparr>) (cf_authgroup f),
     af_options = map (\<lambda>opt. \<lparr>fo_handle = co_handle opt, fo_name = go_string (co_name opt),
         fo_label = go_string (co_label opt), fo_type = co_type opt,
         fo_choices = (if co_type opt = form_option_select then form_choices (co_choices opt) else [])\<rparr>)
       (filter (\<lambda>opt. \<not> co_ignore opt) (cf_opts f))\<rparr>"

definition go_process_auth_form :: "oc_consts \<Rightarrow> nat \<Rightarrow> c_form \<Rightarrow> 'w ocst \<Rightarrow> int \<times> 'w ocst" where
  "go_process_auth_form K ctx form s = (case handle_of ctx s of
     None \<Rightarrow> (form_result_err K, s)
   | Some v \<Rightarrow> (case cb_auth (vi_callbacks (vpn v s)) of
       None \<Rightarrow> (form_result_err K, s)
     | Some f \<Rightarrow> (case f (form_of form) (oc_w s) of
         (Some e, w') \<Rightarrow> (form_result_cancelled K, send_err v (ErrOp ''auth'' e) (s\<lparr>oc_w := w'\<rparr>))
       | (None, w') \<Rightarrow> (form_result_ok K, s\<lparr>oc_w := w'\<rparr>))))"

definition go_process_form_error :: "nat \<Rightarrow> string option \<Rightarrow> 'w ocst \<Rightarrow> 'w ocst" where
  "go_process_form_error ctx message s = (case handle_of ctx s of
     None \<Rightarrow> s | Some v \<Rightarrow> send_err v (ErrOp ''auth'' (ErrText (go_string message))) s)"

definition go_process_csd ::
  "nat \<Rightarrow> string option \<Rightarrow> string option \<Rightarrow> string option \<Rightarrow> string option \<Rightarrow> string option \<Rightarrow> 'w ocst \<Rightarrow> int \<times> 'w ocst" where
  "go_process_csd ctx hostname sha256 token ticket stub s = (case handle_of ctx s of
     None \<Rightarrow> (-22, s)
   | Some v \<Rightarrow> (case cb_csd (vi_callbacks (vpn v s)) of
       None \<Rightarrow> (-22, s)
     | Some f \<Rightarrow> (case f \<lparr>ca_hostname = go_string hostname, ca_sha256 = go_string sha256, ca_token = go_string token,
             ca_ticket = go_string ticket, ca_stub = go_string stub\<rparr> (oc_w s) of
         (None, w') \<Rightarrow> (0, s\<lparr>oc_w := w'\<rparr>)
       | (Some e, w') \<Rightarrow> (-22, send_err v (ErrOp ''hostscan'' e) (s\<lparr>oc_w := w'\<rparr>)))))"

definition go_progress :: "nat \<Rightarrow> int \<Rightarrow> string option \<Rightarrow> 'w ocst \<Rightarrow> 'w ocst" where
  "go_progress ctx level message s = (case handle_of ctx s of
     None \<Rightarrow> s
   | Some v \<Rightarrow> (case cb_progress (vi_callbacks (vpn v s)) of
       None \<Rightarrow> s | Some f \<Rightarrow> s\<lparr>oc_w := f level (go_string message) (oc_w s)\<rparr>))"

definition go_external_browser_callback :: "nat \<Rightarrow> string option \<Rightarrow> 'w ocst \<Rightarrow> int \<times> 'w ocst" where
  "go_external_browser_callback ctx uri s = (case handle_of ctx s of
     None \<Rightarrow> (1, s)
   | Some v \<Rightarrow> (case cb_browser (vi_callbacks (vpn v s)) of
       None \<Rightarrow> (1, s)
     | Some f \<Rightarrow> (let (e, w') = f (go_string uri) (oc_w s) in (if e = None then 0 else 1, s\<lparr>oc_w := w'\<rparr>))))"

definition go_reconnected_handler :: "nat \<Rightarrow> 'w ocst \<Rightarrow> 'w ocst" where
  "go_reconnected_handler ctx s = (case handle_of ctx s of
     None \<Rightarrow> s
   | Some v \<Rightarrow> (case cb_reconnected (vi_callbacks (vpn v s)) of None \<Rightarrow> s | Some f \<Rightarrow> s\<lparr>oc_w := f (oc_w s)\<rparr>))"

definition go_mainloop_result :: "nat \<Rightarrow> 32 word \<Rightarrow> 'w ocst \<Rightarrow> 'w ocst" where
  "go_mainloop_result ctx result s = (case handle_of ctx s of
     None \<Rightarrow> s
   | Some v \<Rightarrow> (case oc_errno ''main loop'' result of None \<Rightarrow> s | Some e \<Rightarrow> send_err v e s))"

text \<open>Library calls leave the handles and the objects alone; \<open>ParseOpts\<close> only sets the callbacks.\<close>

definition oc_frame :: "'w ocst \<Rightarrow> 'w ocst \<Rightarrow> bool" where
  "oc_frame s s' \<longleftrightarrow> oc_handles s' = oc_handles s \<and> oc_vpns s' = oc_vpns s"

lemma oc_frame_refl [simp, intro]: "oc_frame s s"
  by (simp add: oc_frame_def)

lemma oc_frame_trans: "oc_frame s s' \<Longrightarrow> oc_frame s' s'' \<Longrightarrow> oc_frame s s''"
  by (simp add: oc_frame_def)

lemma oc_frame_call: "oc_frame s (snd (oc_call op f v s))"
  by (simp add: oc_frame_def oc_call_def case_prod_beta)

lemmas oc_setters = set_user_agent_def set_version_string_def parse_url_def set_protocol_def setup_csd_def
  set_allow_insecure_crypto_def setup_tun_script_def setup_tun_fd_def make_cstp_connection_def main_loop_def
  set_hostname_def setup_dtls_def disable_dtls_def

lemma oc_frame_when:
  assumes "\<And>s. oc_frame s (snd (f s))" and "\<And>s. oc_frame s (snd (k s))"
  shows "oc_frame s (snd (oc_when b f k s))"
proof (cases "fst (f s)")
  case None
  then show ?thesis
    using assms(1) [of s] assms(2) [of "snd (f s)"] assms(2) [of s]
    by (auto simp: oc_when_def case_prod_beta intro: oc_frame_trans split: option.split)
qed (use assms in \<open>auto simp: oc_when_def case_prod_beta\<close>)

lemma oc_frame_loglevel: "oc_frame s (set_log_level A v l s)"
  by (simp add: oc_frame_def set_log_level_def)

lemma oc_frame_dpd: "oc_frame s (set_dpd A v l s)"
  by (simp add: oc_frame_def set_dpd_def)

lemma parse_opts_frame:
  "oc_frame (set_vpn v ((vpn v s)\<lparr>vi_callbacks := op_callbacks opts\<rparr>) s) (snd (parse_opts A uid v opts s))"
proof -
  let ?s = "set_vpn v ((vpn v s)\<lparr>vi_callbacks := op_callbacks opts\<rparr>) s"
  have insecure: "oc_frame u (snd (oc_when (op_insecure opts) (set_allow_insecure_crypto A v (op_insecure opts)) (\<lambda>s. (None, s)) u))"
    for u by (rule oc_frame_when) (simp_all add: oc_setters oc_frame_call)
  have last: "oc_frame t (snd (let s = (if 0 < op_force_dpd opts then set_dpd A v (op_force_dpd opts) t else t) in
      oc_when (op_insecure opts) (set_allow_insecure_crypto A v (op_insecure opts)) (\<lambda>s. (None, s)) s))" for t
    unfolding Let_def
    using insecure [of t] insecure [of "set_dpd A v (op_force_dpd opts) t"]
    by (auto intro: oc_frame_trans oc_frame_dpd)
  have "oc_frame (set_log_level A v (op_log_level opts) ?s) (snd (parse_opts A uid v opts s))"
    unfolding parse_opts_def Let_def [of ?s] Let_def [of "set_log_level A v (op_log_level opts) ?s"]
    by (intro oc_frame_when last) (simp_all add: oc_setters oc_frame_call)
  then show ?thesis using oc_frame_loglevel oc_frame_trans by blast
qed

section \<open>The handle table\<close>

text \<open>
  The invariant: the handles are exactly the pointers of the live sessions. The C library must not
  hand out a pointer that is in use.
\<close>

definition vpn_inv :: "'w ocst \<Rightarrow> bool" where
  "vpn_inv s \<longleftrightarrow> (\<forall>p v. map_of (oc_handles s) p = Some v \<longleftrightarrow> v < length (oc_vpns s) \<and> vi_ptr (vpn v s) = Some p)"

definition fresh_pointers :: "'w oc_api \<Rightarrow> 'w ocst \<Rightarrow> bool" where
  "fresh_pointers A s \<longleftrightarrow> (\<forall>ua p w'. api_new A ua (oc_w s) = (Some p, w') \<longrightarrow> map_of (oc_handles s) p = None)"

lemma handle_of_map: "handle_of p s = map_of (oc_handles s) p"
  by (simp add: handle_of_def map_load_found split: option.split)

lemma vpn_free_parts:
  assumes "v < length (oc_vpns s)"
  shows "vpn_free A v s = (case vi_ptr (vpn v s) of None \<Rightarrow> s
    | Some p \<Rightarrow> s\<lparr>oc_w := api_free A p (oc_w s), oc_handles := AList.delete p (oc_handles s),
        oc_vpns := (oc_vpns s)[v := (vpn v s)\<lparr>vi_ptr := None\<rparr>]\<rparr>)"
  by (simp add: vpn_free_def set_vpn_def vpn_def map_delete_def split: option.split)

lemma vpn_free_inv:
  assumes "vpn_inv s" "v < length (oc_vpns s)"
  shows "vpn_inv (vpn_free A v s)"
proof (cases "vi_ptr (vpn v s)")
  case None
  then show ?thesis using assms by (simp add: vpn_free_def)
next
  case (Some p)
  then have other: "vi_ptr (oc_vpns s ! u) \<noteq> Some p" if "u < length (oc_vpns s)" "u \<noteq> v" for u
    using assms that unfolding vpn_inv_def vpn_def by (metis option.inject)
  show ?thesis
    using assms Some other
    by (auto simp: vpn_free_parts [OF assms(2)] vpn_inv_def vpn_def go_simps nth_list_update split: if_splits)
qed

lemma vpn_new_opened:
  assumes "vpn_inv s" and "map_of (oc_handles s) p = None"
  shows "vpn_inv (s\<lparr>oc_w := w', oc_vpns := oc_vpns s @ [\<lparr>vi_ptr = Some p, vi_errch = None, vi_callbacks = cb\<rparr>],
    oc_handles := map_store p (length (oc_vpns s)) (oc_handles s)\<rparr>)"
proof -
  have no: "vi_ptr (oc_vpns s ! v) \<noteq> Some p" if "v < length (oc_vpns s)" for v
    using assms that unfolding vpn_inv_def vpn_def by (metis option.distinct(1))
  show ?thesis
    using assms no by (auto simp: vpn_inv_def vpn_def map_store_def go_simps nth_append less_Suc_eq)
qed

lemma vpn_inv_frame:
  "oc_frame s s' \<Longrightarrow> vpn_inv s' = vpn_inv s"
  by (simp add: oc_frame_def vpn_inv_def vpn_def)

lemma vpn_inv_callbacks:
  "vpn_inv s \<Longrightarrow> vpn_inv (set_vpn v ((vpn v s)\<lparr>vi_callbacks := c\<rparr>) s)"
  by (cases "v < length (oc_vpns s)") (auto simp: vpn_inv_def vpn_def set_vpn_def nth_list_update)

lemma parse_opts_state:
  assumes "v < length (oc_vpns s)"
  shows "length (oc_vpns (snd (parse_opts A uid v opts s))) = length (oc_vpns s) \<and>
    vi_ptr (vpn v (snd (parse_opts A uid v opts s))) = vi_ptr (vpn v s) \<and>
    oc_handles (snd (parse_opts A uid v opts s)) = oc_handles s \<and>
    (vpn_inv s \<longrightarrow> vpn_inv (snd (parse_opts A uid v opts s)))"
  using parse_opts_frame [of v opts s A uid] vpn_inv_callbacks [of s v "op_callbacks opts"]
    vpn_inv_frame [OF parse_opts_frame [of v opts s A uid]] assms
  by (auto simp: oc_frame_def set_vpn_def vpn_def)

lemma vpn_new_cases:
  assumes inv: "vpn_inv s" and fresh: "fresh_pointers A s"
  shows "vpn_inv (snd (vpn_new A uid opts s)) \<and>
    (case fst (vpn_new A uid opts s) of
       Inl e \<Rightarrow> map_of (oc_handles (snd (vpn_new A uid opts s))) = map_of (oc_handles s)
     | Inr v \<Rightarrow> v = length (oc_vpns s) \<and>
         (\<exists>p. map_of (oc_handles s) p = None \<and>
           map_of (oc_handles (snd (vpn_new A uid opts s))) = (map_of (oc_handles s))(p \<mapsto> v)))"
proof -
  define o1 where "o1 = (if op_user_agent opts = [] then opts\<lparr>op_user_agent := default_user_agent\<rparr> else opts)"
  obtain ptr w' where new: "api_new A (op_user_agent o1) (oc_w s) = (ptr, w')" by fastforce
  show ?thesis
  proof (cases ptr)
    case None
    then have "vpn_new A uid opts s = (Inl (ErrText ''failed to create VPN session''), s\<lparr>oc_w := w'\<rparr>)"
      using new by (simp add: vpn_new_def o1_def [symmetric] Let_def)
    then show ?thesis using inv by (simp add: vpn_inv_def vpn_def)
  next
    case (Some p)
    let ?v = "length (oc_vpns s)"
    let ?s1 = "s\<lparr>oc_w := w', oc_vpns := oc_vpns s @ [\<lparr>vi_ptr = Some p, vi_errch = None, vi_callbacks = no_callbacks\<rparr>],
      oc_handles := map_store p ?v (oc_handles s)\<rparr>"
    have p: "map_of (oc_handles s) p = None"
      using fresh new Some unfolding fresh_pointers_def by blast
    have inv1: "vpn_inv ?s1" by (rule vpn_new_opened [OF inv p])
    obtain err s2 where po: "parse_opts A uid ?v o1 ?s1 = (err, s2)" by fastforce
    have lt: "?v < length (oc_vpns ?s1)" by simp
    have s2: "length (oc_vpns s2) = Suc ?v" "vi_ptr (vpn ?v s2) = Some p" "vpn_inv s2"
      "oc_handles s2 = map_store p ?v (oc_handles s)"
      using parse_opts_state [OF lt, of A uid o1] inv1 unfolding po by (simp_all add: vpn_def)
    have run: "vpn_new A uid opts s = (case err of Some e \<Rightarrow> (Inl e, vpn_free A ?v s2) | None \<Rightarrow> (Inr ?v, s2))"
      using new Some po by (simp add: vpn_new_def o1_def [symmetric] Let_def)
    show ?thesis
    proof (cases err)
      case None
      then show ?thesis using run s2 p by (auto simp: map_store_def go_simps)
    next
      case (Some e)
      have "vpn_inv (vpn_free A ?v s2)" using vpn_free_inv [OF s2(3)] s2(1) by simp
      moreover have "map_of (oc_handles (vpn_free A ?v s2)) = map_of (oc_handles s)"
        using s2 p by (auto simp: vpn_free_parts map_store_def go_simps)
      ultimately show ?thesis using Some run by simp
    qed
  qed
qed

text \<open>\<open>Free\<close> in two steps: the library frees the session, then the handle goes.\<close>

definition vpn_free_c :: "'w oc_api \<Rightarrow> nat \<Rightarrow> 'w ocst \<Rightarrow> 'w ocst" where
  "vpn_free_c A p s = s\<lparr>oc_w := api_free A p (oc_w s)\<rparr>"

definition vpn_free_go :: "nat \<Rightarrow> nat \<Rightarrow> 'w ocst \<Rightarrow> 'w ocst" where
  "vpn_free_go p v s = (let s = s\<lparr>oc_handles := map_delete p (oc_handles s)\<rparr> in set_vpn v ((vpn v s)\<lparr>vi_ptr := None\<rparr>) s)"

lemma vpn_free_steps: "vi_ptr (vpn v s) = Some p \<Longrightarrow> vpn_free A v s = vpn_free_go p v (vpn_free_c A p s)"
  by (simp add: vpn_free_def vpn_free_go_def vpn_free_c_def)

section \<open>Properties\<close>


text \<open>A library that numbers its sessions and rejects the protocol named \<open>bad\<close>.\<close>

definition sample_api :: "nat oc_api" where
  "sample_api = \<lparr>api_new = (\<lambda>ua w. (Some w, w + 1)), api_free = (\<lambda>p w. w),
     api_set = (\<lambda>name p s w. (if s = ''bad'' then -22 else 0, w)), api_int = (\<lambda>name p i w. (0, w)),
     api_call = (\<lambda>name p w. (0, w)), api_csd = (\<lambda>p u q s w. (0, w)), api_get = (\<lambda>name p w. [])\<rparr>"

definition sample_ocst :: "nat ocst" where
  "sample_ocst = \<lparr>oc_w = 5, oc_handles = [], oc_vpns = []\<rparr>"

definition sample_options :: "nat options" where
  "sample_options = \<lparr>op_user_agent = [], op_version = [], op_protocol = ''bad'', op_server = [], op_csd = [],
     op_log_level = 0, op_force_dpd = 5, op_insecure = True, op_callbacks = no_callbacks\<rparr>"

lemma sample_inv: "vpn_inv sample_ocst" "fresh_pointers A sample_ocst"
  by (simp_all add: vpn_inv_def sample_ocst_def fresh_pointers_def)


text \<open>\<open>Free\<close> runs the library's free at most once for a session: a second \<open>Free\<close> changes nothing.\<close>

theorem vpn_free_once:
  assumes "v < length (oc_vpns s)"
  shows "vpn_free A v (vpn_free A v s) = vpn_free A v s \<and> vi_ptr (vpn v (vpn_free A v s)) = None"
  using assms by (auto simp: vpn_free_parts split: option.split) (auto simp: vpn_free_def vpn_def)

lemma vpn_free_once_witness:
  "vpn_free sample_api 0 (vpn_free sample_api 0 (snd (vpn_new sample_api 0 (sample_options\<lparr>op_protocol := []\<rparr>) sample_ocst)))
    = vpn_free sample_api 0 (snd (vpn_new sample_api 0 (sample_options\<lparr>op_protocol := []\<rparr>) sample_ocst))"
proof -
  have "0 < length (oc_vpns (snd (vpn_new sample_api 0 (sample_options\<lparr>op_protocol := []\<rparr>) sample_ocst)))"
    by code_simp
  from vpn_free_once [OF this, of sample_api] show ?thesis by blast
qed

text \<open>\<open>Free\<close> gives the pointer back to the library before it deletes the handle: when another session is
  opened between the two and gets the same pointer, its handle is deleted, and its callbacks no longer
  find it.\<close>

theorem vpn_free_races_with_new:
  assumes "vi_ptr (vpn v s) = Some p" and "v < length (oc_vpns s)"
    and "vpn_new A uid opts (vpn_free_c A p s) = (Inr v2, s2)" and "vi_ptr (vpn v2 s2) = Some p" and "v2 \<noteq> v"
  shows "handle_of p (vpn_free_go p v s2) = None \<and> vi_ptr (vpn v2 (vpn_free_go p v s2)) = Some p"
  using assms(4,5)
  by (simp add: handle_of_map vpn_free_go_def set_vpn_def map_delete_def go_simps vpn_def Let_def)

definition reusing_api :: "nat oc_api" where
  "reusing_api = sample_api\<lparr>api_new := (\<lambda>ua w. (Some 7, w))\<rparr>"

definition one_session :: "nat ocst" where
  "one_session = \<lparr>oc_w = 0, oc_handles = [(7, 0)], oc_vpns = [\<lparr>vi_ptr = Some 7, vi_errch = None, vi_callbacks = no_callbacks\<rparr>]\<rparr>"

lemma vpn_free_races_with_new_witness:
  "\<exists>v2 s2. vpn_new reusing_api 0 (sample_options\<lparr>op_protocol := []\<rparr>) (vpn_free_c reusing_api 7 one_session) = (Inr v2, s2) \<and>
    handle_of 7 (vpn_free_go 7 0 s2) = None"
proof -
  have ptr: "vi_ptr (vpn 0 one_session) = Some 7" "0 < length (oc_vpns one_session)"
    by (simp_all add: one_session_def vpn_def)
  obtain s2 where new: "vpn_new reusing_api 0 (sample_options\<lparr>op_protocol := []\<rparr>) (vpn_free_c reusing_api 7 one_session) = (Inr 1, s2)"
    and p2: "vi_ptr (vpn 1 s2) = Some 7"
    by (simp add: vpn_new_def reusing_api_def sample_api_def sample_options_def one_session_def vpn_free_c_def
        parse_opts_def oc_when_def oc_setters oc_call_def set_log_level_def set_dpd_def set_vpn_def vpn_def oc_errno_def
        default_user_agent_def Let_def)
  from vpn_free_races_with_new [OF ptr new p2] new show ?thesis by blast
qed

lemma negate_mod_word:
  assumes "- (2 ^ 31) < (x :: int)" and "x < 2 ^ 31" and "x \<noteq> 0"
  shows "(- x) mod 2 ^ 64 = (if x < 0 then - x else 2 ^ 64 - x)"
proof (cases "x < 0")
  case True
  then show ?thesis using assms(1) by (simp add: mod_pos_pos_trivial)
next
  case False
  have "(2 ^ 64 - x) mod 2 ^ 64 = 2 ^ 64 - x" using False assms(2,3) by (intro mod_pos_pos_trivial) auto
  moreover have "(2 ^ 64 - x) mod 2 ^ 64 = (- x) mod 2 ^ 64"
    by (metis diff_conv_add_uminus mod_add_self1)
  ultimately show ?thesis using False by simp
qed

text \<open>a negative result code becomes the error number it negates; a positive one, negated into an
  unsigned word, becomes a number near \<open>2 ^ 64\<close>.\<close>

theorem oc_errno_values:
  assumes lo: "- (2 ^ 31) < sint rc"
  shows "oc_errno op rc = (if rc = 0 then None
    else Some (ErrOp op (ErrErrno (if sint rc < 0 then - sint rc else 2 ^ 64 - sint rc))))"
proof (cases "rc = 0")
  case True
  then show ?thesis by (simp add: oc_errno_def)
next
  case nz: False
  have hi: "sint rc < 2 ^ 31" using sint_lt [of rc] by simp
  have sint_nz: "sint rc \<noteq> 0" using nz by (simp add: signed_eq_0_iff)
  have neg: "sint (- rc) = - sint rc"
    using lo hi by (simp add: sint_word_ariths signed_take_bit_int_eq_self)
  have word: "uint (scast (- rc) :: 64 word) = (- sint rc) mod 2 ^ 64"
    unfolding scast_eq neg uint_word_of_int by simp
  show ?thesis
    unfolding oc_errno_def word negate_mod_word [OF lo hi sint_nz] using nz by (simp only: if_False)
qed

lemma oc_errno_values_witness:
  "oc_errno ''parse URL'' (-22) = (if (-22 :: 32 word) = 0 then None
    else Some (ErrOp ''parse URL'' (ErrErrno (if sint (-22 :: 32 word) < 0 then - sint (-22 :: 32 word) else 2 ^ 64 - sint (-22 :: 32 word)))))"
  by (rule oc_errno_values) code_simp

text \<open>the credentials processor sets the user name in every text option whose name starts with \<open>user\<close> in
  any case and the password in every password option, in the order of the form, nothing else, and
  stops at the first option that the library refuses.\<close>

theorem credentials_set_in_order:
  "credentials_process_form ul setopt cp form w = set_all setopt (credential_values ul cp (af_options form)) w"
  by (simp add: credentials_process_form_def credentials_loop_values)

text \<open>a callback for a pointer without a session, one never opened or already freed, refuses and has no
  effect: the certificate is rejected, the form is an error, CSD and the browser fail.\<close>

theorem callbacks_refuse_unknown_session:
  assumes "vpn_inv s" and "\<And>v. v < length (oc_vpns s) \<Longrightarrow> vi_ptr (vpn v s) \<noteq> Some p"
  shows "go_validate_peer_cert p cert s = 1 \<and> go_process_auth_form K p form s = (form_result_err K, s) \<and>
    go_process_form_error p msg s = s \<and> go_process_csd p h c t k u s = (-22, s) \<and>
    go_progress p level msg s = s \<and> go_external_browser_callback p uri s = (1, s) \<and>
    go_reconnected_handler p s = s \<and> go_mainloop_result p rc s = s"
proof -
  have "map_of (oc_handles s) p = None"
    using assms unfolding vpn_inv_def by (metis not_None_eq)
  then have "handle_of p s = None" by (simp add: handle_of_map)
  then show ?thesis
    by (simp add: go_validate_peer_cert_def go_process_auth_form_def go_process_form_error_def go_process_csd_def
        go_progress_def go_external_browser_callback_def go_reconnected_handler_def go_mainloop_result_def)
qed

lemma callbacks_refuse_unknown_session_witness: "go_validate_peer_cert 3 ''cert'' sample_ocst = 1"
  using callbacks_refuse_unknown_session [OF sample_inv(1), of 3] by (simp add: sample_ocst_def)

end
