(* ===== verification/OcClient.thy ===== *)
theory OcClient
  imports VpnInfo NetAddr
begin

text \<open>
  A connected VPN session: \<open>pkg/openconnect/client.go\<close>, \<open>cmd.go\<close> and \<open>ipinfo.go\<close>. A \<open>Conn\<close> has a context of its own,
  whose end frees the session; \<open>Run\<close>, \<open>Close\<close> and the main loop's result decide how it ends. The errors
  that callbacks left in \<open>errCh\<close> are part of the state, which shows what \<open>Run\<close> makes of them.
\<close>

section \<open>The command pipe\<close>

text \<open>The command bytes of \<open>openconnect.h\<close> are parameters; the pipe is a writer of bytes.\<close>

record cmd_bytes =
  oc_cmd_cancel :: nat
  oc_cmd_pause :: nat
  oc_cmd_detach :: nat
  oc_cmd_stats :: nat

type_synonym 'w pipe = "int \<Rightarrow> byte list \<Rightarrow> 'w \<Rightarrow> goerr option \<times> 'w"

definition cmd_write :: "'w pipe \<Rightarrow> int \<Rightarrow> nat \<Rightarrow> 'w ocst \<Rightarrow> goerr option \<times> 'w ocst" where
  "cmd_write P fd r s = (let (e, w') = P fd [word_of_nat r] (oc_w s) in (e, s\<lparr>oc_w := w'\<rparr>))"

definition cmd_cancel :: "'w pipe \<Rightarrow> cmd_bytes \<Rightarrow> int \<Rightarrow> 'w ocst \<Rightarrow> goerr option \<times> 'w ocst" where
  "cmd_cancel P B fd s = cmd_write P fd (oc_cmd_cancel B) s"

definition cmd_pause :: "'w pipe \<Rightarrow> cmd_bytes \<Rightarrow> int \<Rightarrow> 'w ocst \<Rightarrow> goerr option \<times> 'w ocst" where
  "cmd_pause P B fd s = cmd_write P fd (oc_cmd_pause B) s"

definition cmd_detach :: "'w pipe \<Rightarrow> cmd_bytes \<Rightarrow> int \<Rightarrow> 'w ocst \<Rightarrow> goerr option \<times> 'w ocst" where
  "cmd_detach P B fd s = cmd_write P fd (oc_cmd_detach B) s"

definition cmd_stats :: "'w pipe \<Rightarrow> cmd_bytes \<Rightarrow> int \<Rightarrow> 'w ocst \<Rightarrow> goerr option \<times> 'w ocst" where
  "cmd_stats P B fd s = cmd_write P fd (oc_cmd_stats B) s"

section \<open>Connect\<close>

text \<open>
  \<open>cn_cause\<close> is the cause of the connection's context, \<open>None\<close> while it is live; \<open>cn_watching\<close> says that the
  goroutine of \<open>Run\<close> still waits.
\<close>

record conn =
  cn_vpn :: nat
  cn_cmd :: int
  cn_cause :: "goerr option"
  cn_main_loop :: bool
  cn_watching :: bool

definition cisco_version_string :: string where
  "cisco_version_string = ''5.1.8.122''"

definition cisco_user_agent :: string where
  "cisco_user_agent = ''AnyConnect Darwin_i386 '' @ cisco_version_string"

definition global_protect_user_agent :: string where
  "global_protect_user_agent = ''Global Protect''"

definition connect_defaults :: "'w options \<Rightarrow> 'w options" where
  "connect_defaults opts =
     (if op_protocol opts = ''anyconnect'' then
        (let opts = (if op_user_agent opts = [] then opts\<lparr>op_user_agent := cisco_user_agent\<rparr> else opts)
         in if op_version opts = [] then opts\<lparr>op_version := cisco_version_string\<rparr> else opts)
      else if op_protocol opts = ''gp'' then
        (if op_user_agent opts = [] then opts\<lparr>op_user_agent := global_protect_user_agent\<rparr> else opts)
      else opts)"

text \<open>
  \<open>connect\<close>. Cancelling the caller's context while it runs writes the cancel byte to the pipe; that
  happens inside the library calls and is part of \<open>obtain_call\<close> and of \<open>api_call\<close>.
\<close>

definition connect ::
  "'w oc_api \<Rightarrow> (nat \<Rightarrow> 'w ocst \<Rightarrow> 32 word \<times> 'w ocst) \<Rightarrow> nat \<Rightarrow> 'w ocst \<Rightarrow> conn res \<times> 'w ocst" where
  "connect A obtain_call v s =
     (case setup_cmd_pipe A v s of
        (Inl e, s) \<Rightarrow> (Inl e, s)
      | (Inr cp, s) \<Rightarrow>
          (case obtain_cookie A obtain_call v s of
             (Some e, s) \<Rightarrow> (Inl e, s)
           | (None, s) \<Rightarrow>
               (case make_cstp_connection A v s of
                  (Some e, s) \<Rightarrow> (Inl e, s)
                | (None, s) \<Rightarrow> (Inr \<lparr>cn_vpn = v, cn_cmd = cp, cn_cause = None, cn_main_loop = False, cn_watching = False\<rparr>, s))))"

definition oc_connect ::
  "'w oc_api \<Rightarrow> int \<Rightarrow> (nat \<Rightarrow> 'w ocst \<Rightarrow> 32 word \<times> 'w ocst) \<Rightarrow> 'w options \<Rightarrow> 'w ocst \<Rightarrow> conn res \<times> 'w ocst" where
  "oc_connect A uid obtain_call opts s =
     (case vpn_new A uid (connect_defaults opts) s of
        (Inl e, s) \<Rightarrow> (Inl e, s)
      | (Inr v, s) \<Rightarrow> (case connect A obtain_call v s of
          (Inl e, s) \<Rightarrow> (Inl e, vpn_free A v s)
        | (Inr c, s) \<Rightarrow> (Inr c, s)))"

section \<open>Run, Close and the end of a connection\<close>

text \<open>
  \<open>cancel\<close> of the connection's context: the first cause stays, nil means \<open>context.Canceled\<close>, and the
  \<open>AfterFunc\<close> frees the session, once.
\<close>

definition conn_cancel :: "'w oc_api \<Rightarrow> goerr option \<Rightarrow> conn \<times> 'w ocst \<Rightarrow> conn \<times> 'w ocst" where
  "conn_cancel A err cs = (case cn_cause (fst cs) of
     Some _ \<Rightarrow> cs
   | None \<Rightarrow> ((fst cs)\<lparr>cn_cause := Some (case err of Some e \<Rightarrow> e | None \<Rightarrow> ErrCanceled)\<rparr>, vpn_free A (cn_vpn (fst cs)) (snd cs)))"

text \<open>
  \<open>Run\<close> starts a goroutine, \<open>conn_watch\<close>, that waits for one error in \<open>errCh\<close> or for \<open>done\<close>, and then
  starts the main loop. The goroutine may take its error at any time after \<open>conn_run_go\<close>, until \<open>done\<close> is
  closed.
\<close>

definition conn_run_go :: "conn \<times> 'w ocst \<Rightarrow> conn \<times> 'w ocst" where
  "conn_run_go cs = ((fst cs)\<lparr>cn_watching := True\<rparr>, snd cs)"

definition conn_watch :: "'w oc_api \<Rightarrow> conn \<times> 'w ocst \<Rightarrow> conn \<times> 'w ocst" where
  "conn_watch A cs =
     (if cn_watching (fst cs)
      then (case vi_errch (vpn (cn_vpn (fst cs)) (snd cs)) of
          None \<Rightarrow> cs
        | Some e \<Rightarrow> conn_cancel A (Some e) ((fst cs)\<lparr>cn_watching := False\<rparr>,
            set_vpn (cn_vpn (fst cs)) ((vpn (cn_vpn (fst cs)) (snd cs))\<lparr>vi_errch := None\<rparr>) (snd cs)))
      else cs)"

definition conn_run_loop :: "'w oc_api \<Rightarrow> conn \<times> 'w ocst \<Rightarrow> goerr option \<times> (conn \<times> 'w ocst)" where
  "conn_run_loop A cs =
     (let (err, s) = main_loop A (cn_vpn (fst cs)) (snd cs) in
      case err of
        Some e \<Rightarrow> (Some e, conn_cancel A (Some e) ((fst cs)\<lparr>cn_watching := False\<rparr>, s))
      | None \<Rightarrow> (None, ((fst cs)\<lparr>cn_main_loop := True\<rparr>, s)))"

definition conn_run :: "'w oc_api \<Rightarrow> conn \<times> 'w ocst \<Rightarrow> goerr option \<times> (conn \<times> 'w ocst)" where
  "conn_run A cs = conn_run_loop A (conn_run_go cs)"

text \<open>\<open>Done\<close> and \<open>Wait\<close>: \<open>None\<close> while it still blocks.\<close>

definition conn_wait :: "conn \<Rightarrow> goerr option" where
  "conn_wait c = cn_cause c"

definition conn_close :: "'w oc_api \<Rightarrow> 'w pipe \<Rightarrow> cmd_bytes \<Rightarrow> conn \<times> 'w ocst \<Rightarrow> goerr option \<times> (conn \<times> 'w ocst)" where
  "conn_close A P B cs =
     (if cn_main_loop (fst cs)
      then (let (e, s) = cmd_cancel P B (cn_cmd (fst cs)) (snd cs) in (e, (fst cs, s)))
      else (None, conn_cancel A None cs))"

section \<open>TunClient\<close>

text \<open>
  The socket pair and file descriptors: \<open>sp_pair\<close> is \<open>unix.Socketpair\<close>, \<open>sp_setup\<close> the three socket options
  of one descriptor, \<open>sp_close\<close> is \<open>unix.Close\<close>. \<open>quote\<close> is \<open>strconv.Quote\<close>.
\<close>

record 'w sock_api =
  sp_pair :: "'w \<Rightarrow> (int \<times> int) res \<times> 'w"
  sp_setup :: "int \<Rightarrow> 'w \<Rightarrow> 'w"
  sp_close :: "int \<Rightarrow> 'w \<Rightarrow> 'w"

definition tun_script :: "'w oc_api \<Rightarrow> (string \<Rightarrow> string) \<Rightarrow> nat \<Rightarrow> string list \<Rightarrow> 'w ocst \<Rightarrow> goerr option \<times> 'w ocst" where
  "tun_script A quote v args s = setup_tun_script A v (join '' '' (map quote args)) s"

record ip_info =
  ii_addr :: string
  ii_netmask :: string
  ii_addr6 :: string
  ii_netmask6 :: string
  ii_dns :: "string list"
  ii_nbns :: "string list"
  ii_domain :: string
  ii_proxy_pac :: string
  ii_mtu :: "32 word"
  ii_gateway :: string
  ii_cstp :: "(string, string) gomap"
  ii_dtls :: "(string, string) gomap"

text \<open>The C structure: three name servers of each kind, any of which may be null, and two linked lists.\<close>

record c_ip_info =
  ci_addr :: "string option"
  ci_netmask :: "string option"
  ci_addr6 :: "string option"
  ci_netmask6 :: "string option"
  ci_dns :: "string option list"
  ci_nbns :: "string option list"
  ci_domain :: "string option"
  ci_proxy_pac :: "string option"
  ci_mtu :: int
  ci_gateway :: "string option"

definition options_map :: "(string option \<times> string option) list \<Rightarrow> (string, string) gomap" where
  "options_map opts = foldl (\<lambda>m (k, v). AList.update (go_string k) (go_string v) m) [] opts"

fun name_servers :: "nat \<Rightarrow> c_ip_info \<Rightarrow> string list \<times> string list \<Rightarrow> string list \<times> string list" where
  "name_servers 0 ip acc = acc"
| "name_servers (Suc n) ip acc =
     (let i = 2 - n; (dns, nbns) = acc;
          dns = (case ci_dns ip ! i of Some d \<Rightarrow> dns @ [d] | None \<Rightarrow> dns);
          nbns = (case ci_nbns ip ! i of Some d \<Rightarrow> nbns @ [d] | None \<Rightarrow> nbns)
      in name_servers n ip (dns, nbns))"

definition get_ip_info ::
  "(nat option \<Rightarrow> 'w \<Rightarrow> int \<times> c_ip_info \<times> (string option \<times> string option) list \<times> (string option \<times> string option) list) \<Rightarrow>
   nat \<Rightarrow> 'w ocst \<Rightarrow> ip_info res" where
  "get_ip_info api_ip v s =
     (let (rc, ip, cstp, dtls) = api_ip (vi_ptr (vpn v s)) (oc_w s) in
      if rc \<noteq> 0 then Inl (ErrText ''failed to get IP info'')
      else let (dns, nbns) = name_servers 3 ip ([], []) in
        Inr \<lparr>ii_addr = go_string (ci_addr ip), ii_netmask = go_string (ci_netmask ip),
          ii_addr6 = go_string (ci_addr6 ip), ii_netmask6 = go_string (ci_netmask6 ip),
          ii_dns = dns, ii_nbns = nbns, ii_domain = go_string (ci_domain ip),
          ii_proxy_pac = go_string (ci_proxy_pac ip), ii_mtu = word_of_int (ci_mtu ip),
          ii_gateway = go_string (ci_gateway ip), ii_cstp = options_map cstp, ii_dtls = options_map dtls\<rparr>)"

definition tun_client ::
  "'w oc_api \<Rightarrow> 'w sock_api \<Rightarrow> (string \<Rightarrow> string) \<Rightarrow>
   (nat option \<Rightarrow> 'w \<Rightarrow> int \<times> c_ip_info \<times> (string option \<times> string option) list \<times> (string option \<times> string option) list) \<Rightarrow>
   nat \<Rightarrow> 'w ocst \<Rightarrow> (int \<times> ip_info) res \<times> 'w ocst" where
  "tun_client A S quote api_ip v s =
     (case tun_script A quote v [''builtin''] s of
        (Some e, s) \<Rightarrow> (Inl e, s)
      | (None, s) \<Rightarrow>
          (case sp_pair S (oc_w s) of
             (Inl e, w) \<Rightarrow> (Inl e, s\<lparr>oc_w := w\<rparr>)
           | (Inr (fd0, fd1), w) \<Rightarrow>
               let s = s\<lparr>oc_w := sp_setup S fd1 (sp_setup S fd0 w)\<rparr>;
                   close_both = (\<lambda>s. s\<lparr>oc_w := sp_close S fd1 (sp_close S fd0 (oc_w s))\<rparr>);
                   (oldfd, err, s) = get_tun_fd A v s;
                   s = (if err = None then s\<lparr>oc_w := sp_close S oldfd (oc_w s)\<rparr> else s)
               in (case setup_tun_fd A v fd0 s of
                     (Some e, s) \<Rightarrow> (Inl e, close_both s)
                   | (None, s) \<Rightarrow> (case get_ip_info api_ip v s of
                       Inl e \<Rightarrow> (Inl e, close_both s)
                     | Inr ip \<Rightarrow> (Inr (fd1, ip), s)))))"

section \<open>Laws\<close>

lemma name_servers_three:
  "length (ci_dns ip) = 3 \<Longrightarrow> length (ci_nbns ip) = 3 \<Longrightarrow>
   name_servers 3 ip ([], []) = (concat (map (\<lambda>d. case d of Some x \<Rightarrow> [x] | None \<Rightarrow> []) (ci_dns ip)),
     concat (map (\<lambda>d. case d of Some x \<Rightarrow> [x] | None \<Rightarrow> []) (ci_nbns ip)))"
  by (cases "ci_dns ip"; cases "ci_nbns ip")
    (auto simp: eval_nat_numeral length_Suc_conv split: option.split)

text \<open>A library whose calls keep the handles: the callbacks of \<open>ObtainCookie\<close> may only fill \<open>errCh\<close>.\<close>

definition obtain_ok :: "(nat \<Rightarrow> 'w ocst \<Rightarrow> 32 word \<times> 'w ocst) \<Rightarrow> bool" where
  "obtain_ok obtain_call \<longleftrightarrow> (\<forall>v s. oc_handles (snd (obtain_call v s)) = oc_handles s \<and>
     length (oc_vpns (snd (obtain_call v s))) = length (oc_vpns s) \<and>
     (\<forall>u < length (oc_vpns s). vi_ptr (vpn u (snd (obtain_call v s))) = vi_ptr (vpn u s)))"

text \<open>States with the same handles and pointers.\<close>

definition same_sessions :: "'w ocst \<Rightarrow> 'w ocst \<Rightarrow> bool" where
  "same_sessions s s' \<longleftrightarrow> oc_handles s' = oc_handles s \<and> length (oc_vpns s') = length (oc_vpns s) \<and>
     (\<forall>u < length (oc_vpns s). vi_ptr (vpn u s') = vi_ptr (vpn u s))"

lemma same_sessions_trans: "same_sessions s t \<Longrightarrow> same_sessions t u \<Longrightarrow> same_sessions s u"
  by (simp add: same_sessions_def)

lemma same_sessions_frame: "oc_frame s s' \<Longrightarrow> same_sessions s s'"
  by (simp add: oc_frame_def same_sessions_def vpn_def)

lemma same_sessions_inv: "same_sessions s s' \<Longrightarrow> vpn_inv s \<Longrightarrow> vpn_inv s'"
  unfolding same_sessions_def vpn_inv_def by metis

lemma same_sessions_errch: "same_sessions s (set_vpn v ((vpn v s)\<lparr>vi_errch := e\<rparr>) s)"
proof -
  have "vi_ptr (((oc_vpns s)[v := ((oc_vpns s) ! v)\<lparr>vi_errch := e\<rparr>]) ! u) = vi_ptr (oc_vpns s ! u)"
    if "u < length (oc_vpns s)" for u
    using that by (cases "u = v") simp_all
  then show ?thesis by (simp add: same_sessions_def set_vpn_def vpn_def)
qed

lemma connect_same_sessions:
  assumes "obtain_ok obtain_call"
  shows "same_sessions s (snd (connect A obtain_call v s))"
proof -
  have pipe: "oc_frame s (snd (setup_cmd_pipe A v s))" for s
    by (simp add: setup_cmd_pipe_def oc_frame_def case_prod_beta Let_def split: option.split)
  have ob: "same_sessions s (snd (obtain_call v s))" for s
    using assms by (simp add: obtain_ok_def same_sessions_def)
  have cookie: "same_sessions s (snd (obtain_cookie A obtain_call v s))" for s
  proof -
    define t where "t = s\<lparr>oc_w := snd (api_int A ''set_csd_callback'' (vi_ptr (vpn v s))
      (case cb_csd (vi_callbacks (vpn v s)) of None \<Rightarrow> 0 | Some _ \<Rightarrow> 1) (oc_w s))\<rparr>"
    have "same_sessions s t" by (simp add: t_def same_sessions_def vpn_def)
    moreover have "same_sessions t (snd (obtain_call v t))" by (rule ob)
    ultimately have base: "same_sessions s (snd (obtain_call v t))" by (rule same_sessions_trans)
    then show ?thesis
      unfolding obtain_cookie_def Let_def t_def [symmetric]
      using same_sessions_trans [OF base same_sessions_errch]
      by (auto simp: case_prod_beta split: option.split)
  qed
  have cstp: "oc_frame s (snd (make_cstp_connection A v s))" for s
    by (simp add: make_cstp_connection_def oc_frame_call)
  obtain r1 s1 where 1: "setup_cmd_pipe A v s = (r1, s1)" by fastforce
  obtain r2 s2 where 2: "obtain_cookie A obtain_call v s1 = (r2, s2)" by fastforce
  obtain r3 s3 where 3: "make_cstp_connection A v s2 = (r3, s3)" by fastforce
  have "same_sessions s s1" "same_sessions s1 s2" "same_sessions s2 s3"
    using same_sessions_frame [OF pipe [of s]] cookie [of s1] same_sessions_frame [OF cstp [of s2]] 1 2 3 by simp_all
  then show ?thesis
    using 1 2 3 by (auto simp: connect_def intro: same_sessions_trans split: sum.split option.split)
qed

lemma conn_cancel_idem: "conn_cancel A e' (conn_cancel A e cs) = conn_cancel A e cs"
  by (simp add: conn_cancel_def split: option.split)

lemma oc_connect_cases:
  assumes inv: "vpn_inv s" and fresh: "fresh_pointers A s" and ok: "obtain_ok obtain_call"
  shows "vpn_inv (snd (oc_connect A uid obtain_call opts s)) \<and>
    (case fst (oc_connect A uid obtain_call opts s) of
       Inl e \<Rightarrow> map_of (oc_handles (snd (oc_connect A uid obtain_call opts s))) = map_of (oc_handles s)
     | Inr c \<Rightarrow> \<exists>p. map_of (oc_handles s) p = None \<and>
         map_of (oc_handles (snd (oc_connect A uid obtain_call opts s))) = (map_of (oc_handles s))(p \<mapsto> cn_vpn c))"
proof -
  obtain r s1 where new: "vpn_new A uid (connect_defaults opts) s = (r, s1)" by fastforce
  have n: "vpn_inv s1" "case r of Inl e \<Rightarrow> map_of (oc_handles s1) = map_of (oc_handles s)
     | Inr v \<Rightarrow> v = length (oc_vpns s) \<and> (\<exists>p. map_of (oc_handles s) p = None \<and>
           map_of (oc_handles s1) = (map_of (oc_handles s))(p \<mapsto> v))"
    using vpn_new_cases [OF inv fresh, of uid "connect_defaults opts"] unfolding new fst_conv snd_conv by simp_all
  show ?thesis
  proof (cases r)
    case (Inl e)
    then show ?thesis using n new by (simp add: oc_connect_def)
  next
    case (Inr v)
    from n(2) Inr obtain p where p: "map_of (oc_handles s) p = None"
      "map_of (oc_handles s1) = (map_of (oc_handles s))(p \<mapsto> v)" by auto
    have "map_of (oc_handles s1) p = Some v" using p(2) by simp
    then have live: "v < length (oc_vpns s1)" "vi_ptr (vpn v s1) = Some p"
      using n(1) unfolding vpn_inv_def by blast+
    obtain c s2 where con: "connect A obtain_call v s1 = (c, s2)" by fastforce
    have same: "same_sessions s1 s2" using connect_same_sessions [OF ok, of s1 A v] con by simp
    have inv2: "vpn_inv s2" by (rule same_sessions_inv [OF same n(1)])
    show ?thesis
    proof (cases c)
      case (Inl e)
      have "vpn_inv (vpn_free A v s2)" using vpn_free_inv [OF inv2] same live(1) by (simp add: same_sessions_def)
      moreover have "map_of (oc_handles (vpn_free A v s2)) = map_of (oc_handles s)"
        using same live p by (auto simp: vpn_free_parts same_sessions_def go_simps)
      ultimately show ?thesis using Inl Inr new con by (simp add: oc_connect_def)
    next
      case (Inr c')
      then have "cn_vpn c' = v"
        using con by (auto simp: connect_def split: sum.splits option.splits prod.splits)
      moreover have "oc_handles s2 = oc_handles s1" using same by (simp add: same_sessions_def)
      ultimately show ?thesis using Inr \<open>r = Inr v\<close> new con inv2 p by (auto simp: oc_connect_def)
    qed
  qed
qed

lemma oc_connect_fresh:
  assumes "oc_connect A uid obtain_call opts s = (Inr c, s')"
  shows "cn_cause c = None \<and> \<not> cn_main_loop c"
  using assms by (auto simp: oc_connect_def connect_def split: sum.splits option.splits prod.splits)

section \<open>Properties\<close>



text \<open>an authentication error that a form callback left in \<open>errCh\<close> before the login went through is not
  drained: once \<open>Run\<close> has started the main loop, its goroutine takes the old error for the main loop's,
  cancels the healthy connection with it and frees the session.\<close>

theorem stale_form_error_kills_connection:
  assumes "cn_vpn c < length (oc_vpns s)" and "cn_cause c = None" and "vi_ptr (vpn (cn_vpn c) s) = Some p"
    and "vi_errch (vpn (cn_vpn c) s) = Some e"
    and "api_call A ''mainloop'' (Some p) (oc_w s) = (0, w')"
  shows "\<exists>c' s'. conn_run A (c, s) = (None, (c', s')) \<and> cn_cause c' = None \<and>
    conn_wait (fst (conn_watch A (c', s'))) = Some e \<and>
    vi_ptr (vpn (cn_vpn c) (snd (conn_watch A (c', s')))) = None"
proof -
  let ?s' = "s\<lparr>oc_w := w'\<rparr>"
  have run: "conn_run A (c, s) = (None, (c\<lparr>cn_watching := True, cn_main_loop := True\<rparr>, ?s'))"
    using assms(3,5) by (simp add: conn_run_def conn_run_go_def conn_run_loop_def main_loop_def oc_call_def oc_errno_def)
  have "vpn (cn_vpn c) ?s' = vpn (cn_vpn c) s" by (simp add: vpn_def)
  then show ?thesis
    using run assms(1-4)
    by (simp add: conn_watch_def conn_cancel_def conn_wait_def vpn_free_parts set_vpn_def vpn_def)
qed

definition stale_session :: "nat ocst" where
  "stale_session = \<lparr>oc_w = 0, oc_handles = [(7, 0)],
     oc_vpns = [\<lparr>vi_ptr = Some 7, vi_errch = Some (ErrOp ''auth'' (ErrText ''Login failed'')), vi_callbacks = no_callbacks\<rparr>]\<rparr>"

lemma stale_form_error_kills_connection_witness:
  "\<exists>c' s'. conn_run sample_api (\<lparr>cn_vpn = 0, cn_cmd = 3, cn_cause = None, cn_main_loop = False, cn_watching = False\<rparr>, stale_session) = (None, (c', s')) \<and>
    conn_wait (fst (conn_watch sample_api (c', s'))) = Some (ErrOp ''auth'' (ErrText ''Login failed''))"
  using stale_form_error_kills_connection [of "\<lparr>cn_vpn = 0, cn_cmd = 3, cn_cause = None, cn_main_loop = False, cn_watching = False\<rparr>"
      stale_session 7 "ErrOp ''auth'' (ErrText ''Login failed'')" sample_api 0]
  by (auto simp: stale_session_def vpn_def sample_api_def)

end
