(* ===== verification/Notify.thy ===== *)
theory Notify
  imports GoStrings SyncUtil "HOL-Library.Word"
begin

text \<open>
  Notifications and alerts: \<open>pkg/notify/notify.go\<close>, \<open>pkg/menuet/notification.go\<close> and \<open>pkg/menuet/alert.go\<close>.
  A response channel travels from the shared map to whoever took it out, who closes it. The steps that
  take and the steps that finish are separate, so that the invariant covers every interleaving of
  notifications, clean-ups and responses.
\<close>

unbundle bit_operations_syntax

section \<open>Notifications\<close>

record notification =
  nt_category :: string
  nt_identifier :: string
  nt_title :: string
  nt_subtitle :: string
  nt_body :: string
  nt_presentation :: int
  nt_interruption :: int

record response =
  re_notification :: string
  re_action :: string
  re_text :: string

definition zero_response :: response where
  "zero_response = \<lparr>re_notification = [], re_action = [], re_text = []\<rparr>"

text \<open>The option values come from the framework's headers.\<close>

record presentation =
  po_none :: int
  po_badge :: int
  po_sound :: int
  po_list :: int
  po_banner :: int

text \<open>What the package asks of the application: to show a notification, to remove one.\<close>

datatype app_call = Shown notification | Removed string

record notify_st =
  ns_chans :: "(string, nat) smap"
  ns_counter :: "64 word"
  ns_heap :: "response chan list"
  ns_app :: "app_call list"

definition new_chan :: "'m chan" where
  "new_chan = \<lparr>ch_buf = [], ch_closed = False\<rparr>"

text \<open>Closing twice and sending on a closed channel are panics (\<open>None\<close>); \<open>offer\<close> is the select with a default on a channel of capacity one.\<close>

definition close_chan :: "nat \<Rightarrow> 'm chan list \<Rightarrow> 'm chan list option" where
  "close_chan c h = (if ch_closed (h ! c) then None else Some (h[c := (h ! c)\<lparr>ch_closed := True\<rparr>]))"

definition offer :: "'m \<Rightarrow> nat \<Rightarrow> 'm chan list \<Rightarrow> 'm chan list option" where
  "offer m c h = (if ch_closed (h ! c) then None
     else if ch_buf (h ! c) = [] then Some (h[c := (h ! c)\<lparr>ch_buf := [m]\<rparr>]) else Some h)"

definition remove_notification :: "string \<Rightarrow> notify_st \<Rightarrow> notify_st" where
  "remove_notification i st = (if i = [] then st else st\<lparr>ns_app := ns_app st @ [Removed i]\<rparr>)"

fun remove_all :: "string list \<Rightarrow> notify_st \<Rightarrow> notify_st" where
  "remove_all [] st = st"
| "remove_all (i # is) st = remove_all is (if i = [] then st else remove_notification i st)"

text \<open>\<open>notify\<close> up to the swap, and the rest: closing the previous channel and showing the notification.\<close>

definition notify_swap ::
  "presentation \<Rightarrow> notification \<Rightarrow> nat option \<Rightarrow> notify_st \<Rightarrow> ((notification \<times> nat option) \<times> notify_st) option" where
  "notify_swap P n ch st =
     (let (n, st) = (if nt_identifier n = []
            then (n\<lparr>nt_identifier := ''auto-'' @ nat_digits (unat (ns_counter st + 1))\<rparr>, st\<lparr>ns_counter := ns_counter st + 1\<rparr>)
            else (n, remove_all [nt_identifier n] st));
          n = (if nt_presentation n = po_none P
            then n\<lparr>nt_presentation := po_badge P OR po_sound P OR po_list P OR po_banner P\<rparr> else n);
          (r, m) = (case ch of
              Some c \<Rightarrow> map_swap 0 (nt_identifier n) c (ns_chans st)
            | None \<Rightarrow> map_load_and_delete 0 (nt_identifier n) (ns_chans st))
      in map_option (\<lambda>(prev, loaded). ((n, if loaded then Some prev else None), st\<lparr>ns_chans := m\<rparr>)) r)"

definition notify_show :: "notification \<times> nat option \<Rightarrow> notify_st \<Rightarrow> notify_st option" where
  "notify_show t st = map_option (\<lambda>h. st\<lparr>ns_heap := h, ns_app := ns_app st @ [Shown (fst t)]\<rparr>)
     (case snd t of Some prev \<Rightarrow> close_chan prev (ns_heap st) | None \<Rightarrow> Some (ns_heap st))"

text \<open>The result is the identifier; the clean-up function captures it with the channel.\<close>

definition notify_call ::
  "presentation \<Rightarrow> notification \<Rightarrow> nat option \<Rightarrow> notify_st \<Rightarrow> (string \<times> notify_st) option" where
  "notify_call P n ch st = Option.bind (notify_swap P n ch st) (\<lambda>(t, st).
     map_option (\<lambda>st. (nt_identifier (fst t), st)) (notify_show t st))"

definition notify_simple :: "presentation \<Rightarrow> notification \<Rightarrow> notify_st \<Rightarrow> (string \<times> notify_st) option" where
  "notify_simple P n st =
     notify_call P (if nt_title n = [] then n\<lparr>nt_title := ''PACman''\<rparr> else n) None st"

definition notify_ch :: "presentation \<Rightarrow> notification \<Rightarrow> notify_st \<Rightarrow> ((string \<times> nat) \<times> notify_st) option" where
  "notify_ch P n st = map_option (\<lambda>(i, st'). ((i, length (ns_heap st)), st'))
     (notify_call P n (Some (length (ns_heap st))) (st\<lparr>ns_heap := ns_heap st @ [new_chan]\<rparr>))"

text \<open>The clean-up function: it closes only what it took out.\<close>

definition cleanup_take :: "string \<times> nat \<Rightarrow> notify_st \<Rightarrow> bool \<times> notify_st" where
  "cleanup_take t st = (let (b, m) = map_compare_and_delete (fst t) (snd t) (ns_chans st) in (b, st\<lparr>ns_chans := m\<rparr>))"

definition cleanup_finish :: "string \<times> nat \<Rightarrow> notify_st \<Rightarrow> notify_st option" where
  "cleanup_finish t st = map_option (\<lambda>h. remove_all [fst t] (st\<lparr>ns_heap := h\<rparr>)) (close_chan (snd t) (ns_heap st))"

definition cleanup :: "string \<times> nat \<Rightarrow> notify_st \<Rightarrow> notify_st option" where
  "cleanup t st = (case cleanup_take t st of (True, st) \<Rightarrow> cleanup_finish t st | (False, st) \<Rightarrow> Some st)"

text \<open>\<open>ResponseHandler\<close>: the deferred calls run last first, the close before \<open>Remove\<close>.\<close>

definition response_take :: "response \<Rightarrow> notify_st \<Rightarrow> (nat option \<times> notify_st) option" where
  "response_take resp st =
     (let (r, m) = map_load_and_delete 0 (re_notification resp) (ns_chans st) in
      map_option (\<lambda>(ch, ok). (if ok then Some ch else None, st\<lparr>ns_chans := m\<rparr>)) r)"

definition response_finish :: "response \<Rightarrow> nat option \<Rightarrow> notify_st \<Rightarrow> notify_st option" where
  "response_finish resp ch st = map_option (\<lambda>h. remove_all [re_notification resp] (st\<lparr>ns_heap := h\<rparr>))
     (case ch of None \<Rightarrow> Some (ns_heap st) | Some c \<Rightarrow> Option.bind (offer resp c (ns_heap st)) (close_chan c))"

definition response_handler :: "response \<Rightarrow> notify_st \<Rightarrow> notify_st option" where
  "response_handler resp st = Option.bind (response_take resp st) (\<lambda>(ch, st). response_finish resp ch st)"

text \<open>
  \<open>NotifyCtx\<close> waits for the context or for the channel. Receiving gives the buffered response, or the
  zero response from a closed channel, in both cases without an error; \<open>None\<close> is a receive that still
  blocks. When the context is done first the clean-up runs.
\<close>

definition receive :: "nat \<Rightarrow> 'm \<Rightarrow> 'm chan list \<Rightarrow> ('m \<times> 'm chan list) option" where
  "receive c z h = (case ch_buf (h ! c) of
     m # ms \<Rightarrow> Some (m, h[c := (h ! c)\<lparr>ch_buf := ms\<rparr>])
   | [] \<Rightarrow> if ch_closed (h ! c) then Some (z, h) else None)"

definition notify_ctx_receive :: "string \<times> nat \<Rightarrow> notify_st \<Rightarrow> ((response \<times> goerr option) \<times> notify_st) option" where
  "notify_ctx_receive t st =
     map_option (\<lambda>(r, h). ((r, None), st\<lparr>ns_heap := h\<rparr>)) (receive (snd t) zero_response (ns_heap st))"

definition notify_ctx_done ::
  "goerr \<Rightarrow> string \<times> nat \<Rightarrow> notify_st \<Rightarrow> ((response \<times> goerr option) \<times> notify_st) option" where
  "notify_ctx_done e t st = map_option (\<lambda>st. ((zero_response, Some e), st)) (cleanup t st)"

section \<open>The goroutines around the map\<close>

datatype task =
    ShowTask notification "nat option"
  | CleanTask string nat
  | RespondTask response "nat option"

fun task_chans :: "task \<Rightarrow> nat list" where
  "task_chans (ShowTask n c) = (case c of Some c \<Rightarrow> [c] | None \<Rightarrow> [])"
| "task_chans (CleanTask i c) = [c]"
| "task_chans (RespondTask r c) = (case c of Some c \<Rightarrow> [c] | None \<Rightarrow> [])"

fun run_task :: "task \<Rightarrow> notify_st \<Rightarrow> notify_st option" where
  "run_task (ShowTask n c) st = notify_show (n, c) st"
| "run_task (CleanTask i c) st = cleanup_finish (i, c) st"
| "run_task (RespondTask r c) st = response_finish r c st"

record notify_sys =
  ny_st :: notify_st
  ny_tasks :: "task list"
  ny_tokens :: "(string \<times> nat) list"

datatype notify_op =
    NotifyOp notification
  | NotifyChOp notification
  | CleanupOp nat
  | RespondOp response
  | FinishOp nat
  | ReceiveChOp nat

text \<open>One atomic step; a token, a task or a channel that does not exist is a step that does nothing.\<close>

fun notify_exec :: "presentation \<Rightarrow> notify_op \<Rightarrow> notify_sys \<Rightarrow> notify_sys option" where
  "notify_exec P (NotifyOp n) y =
     map_option (\<lambda>((n, prev), st). y\<lparr>ny_st := st, ny_tasks := ShowTask n prev # ny_tasks y\<rparr>) (notify_swap P n None (ny_st y))"
| "notify_exec P (NotifyChOp n) y =
     (let c = length (ns_heap (ny_st y)) in
      map_option (\<lambda>((n, prev), st). y\<lparr>ny_st := st, ny_tasks := ShowTask n prev # ny_tasks y,
          ny_tokens := ny_tokens y @ [(nt_identifier n, c)]\<rparr>)
        (notify_swap P n (Some c) ((ny_st y)\<lparr>ns_heap := ns_heap (ny_st y) @ [new_chan]\<rparr>)))"
| "notify_exec P (CleanupOp k) y =
     (if k < length (ny_tokens y)
      then (let t = ny_tokens y ! k; (b, st) = cleanup_take t (ny_st y) in
        Some (y\<lparr>ny_st := st, ny_tasks := (if b then [CleanTask (fst t) (snd t)] else []) @ ny_tasks y\<rparr>))
      else Some y)"
| "notify_exec P (RespondOp r) y =
     map_option (\<lambda>(c, st). y\<lparr>ny_st := st, ny_tasks := RespondTask r c # ny_tasks y\<rparr>) (response_take r (ny_st y))"
| "notify_exec P (FinishOp k) y =
     (if k < length (ny_tasks y)
      then map_option (\<lambda>st. y\<lparr>ny_st := st, ny_tasks := take k (ny_tasks y) @ drop (Suc k) (ny_tasks y)\<rparr>)
        (run_task (ny_tasks y ! k) (ny_st y))
      else Some y)"
| "notify_exec P (ReceiveChOp c) y =
     (if c < length (ns_heap (ny_st y))
      then (case receive c zero_response (ns_heap (ny_st y)) of
          Some (r, h) \<Rightarrow> Some (y\<lparr>ny_st := (ny_st y)\<lparr>ns_heap := h\<rparr>\<rparr>) | None \<Rightarrow> Some y)
      else Some y)"

fun notify_run :: "presentation \<Rightarrow> notify_op list \<Rightarrow> notify_sys \<Rightarrow> notify_sys option" where
  "notify_run P [] y = Some y"
| "notify_run P (op # ops) y = Option.bind (notify_exec P op y) (notify_run P ops)"

definition notify_start :: notify_sys where
  "notify_start = \<lparr>ny_st = \<lparr>ns_chans = [], ns_counter = 0, ns_heap = [], ns_app = []\<rparr>, ny_tasks = [], ny_tokens = []\<rparr>"

section \<open>Every open channel has one owner\<close>

text \<open>
  \<open>own_inv m ts h\<close>: the open channels are those registered in \<open>m\<close> and those that a pending task \<open>ts\<close> holds,
  each owned once, and still empty; no buffer holds more than one message.
\<close>

definition own_inv :: "('k \<Rightarrow> nat option) \<Rightarrow> nat list \<Rightarrow> 'm chan list \<Rightarrow> bool" where
  "own_inv m ts h \<longleftrightarrow> inj_on m (dom m) \<and> distinct ts \<and> set ts \<inter> ran m = {} \<and>
     set ts \<union> ran m = {c. c < length h \<and> \<not> ch_closed (h ! c)} \<and>
     (\<forall>c \<in> set ts \<union> ran m. ch_buf (h ! c) = []) \<and> (\<forall>c < length h. length (ch_buf (h ! c)) \<le> 1)"

abbreviation opt_list :: "'a option \<Rightarrow> 'a list" where
  "opt_list x \<equiv> (case x of Some a \<Rightarrow> [a] | None \<Rightarrow> [])"

lemma ran_split: "inj_on m (dom m) \<Longrightarrow> ran (m(k := None)) = ran m - set (opt_list (m k))"
proof (rule set_eqI)
  fix x
  assume inj: "inj_on m (dom m)"
  show "x \<in> ran (m(k := None)) \<longleftrightarrow> x \<in> ran m - set (opt_list (m k))"
  proof (cases "m k")
    case None
    then show ?thesis by (simp add: fun_upd_idem)
  next
    case (Some a)
    have a: "m j = Some a \<longleftrightarrow> j = k" for j using inj Some by (metis domI inj_on_eq_iff)
    show ?thesis
    proof (cases "x = a")
      case True
      then show ?thesis by (simp add: Some ran_def a)
    next
      case False
      then have "(m(k := None)) j = Some x \<longleftrightarrow> m j = Some x" for j using Some by simp
      then show ?thesis using False Some unfolding ran_def by simp
    qed
  qed
qed

lemma inj_on_remove: "inj_on m (dom m) \<Longrightarrow> inj_on (m(k := None)) (dom (m(k := None)))"
  by (auto simp: inj_on_def dom_def)

lemma ran_put: "ran (m(k \<mapsto> c)) = insert c (ran (m(k := None)))"
  by (auto simp: ran_def)

lemma own_inv_take:
  "own_inv m ts h \<Longrightarrow> own_inv (m(k := None)) (opt_list (m k) @ ts) h"
proof -
  assume a: "own_inv m ts h"
  then have inj: "inj_on m (dom m)" by (simp add: own_inv_def)
  have "set (opt_list (m k)) \<subseteq> ran m" by (auto simp: ran_def split: option.split)
  then have "set (opt_list (m k) @ ts) \<union> ran (m(k := None)) = set ts \<union> ran m"
    "set (opt_list (m k) @ ts) \<inter> ran (m(k := None)) = {}" "distinct (opt_list (m k) @ ts)"
    using a ran_split [OF inj, of k] by (auto simp: own_inv_def split: option.split)
  then show ?thesis using a inj_on_remove [OF inj] by (simp add: own_inv_def)
qed

lemma own_inv_put:
  assumes "own_inv m ts h" and "m k = None"
  shows "own_inv (m(k \<mapsto> length h)) ts (h @ [new_chan])"
proof -
  have new: "length h \<notin> set ts \<union> ran m" using assms by (auto simp: own_inv_def)
  have "m(k := None) = m" using assms(2) by (simp add: fun_upd_idem)
  then have "ran (m(k \<mapsto> length h)) = insert (length h) (ran m)" by (simp add: ran_put)
  moreover have "inj_on (m(k \<mapsto> length h)) (dom (m(k \<mapsto> length h)))"
    using assms new by (auto simp: own_inv_def inj_on_def dom_def ran_def)
  moreover have "{c. c < length (h @ [new_chan]) \<and> \<not> ch_closed ((h @ [new_chan]) ! c)} =
      insert (length h) {c. c < length h \<and> \<not> ch_closed (h ! c)}"
    by (auto simp: nth_append new_chan_def less_Suc_eq)
  ultimately show ?thesis
    using assms(1) new by (auto simp: own_inv_def nth_append new_chan_def less_Suc_eq)
qed

lemma own_inv_swap:
  "own_inv m ts h \<Longrightarrow> own_inv (m(k \<mapsto> length h)) (opt_list (m k) @ ts) (h @ [new_chan])"
  using own_inv_put [OF own_inv_take, of m ts h k k] by simp

lemma own_inv_close:
  assumes "own_inv m (us @ c # vs) h" and "length b \<le> 1"
  shows "own_inv m (us @ vs) (h[c := \<lparr>ch_buf = b, ch_closed = True\<rparr>]) \<and> \<not> ch_closed (h ! c) \<and> ch_buf (h ! c) = []"
proof -
  have c: "c < length h" "\<not> ch_closed (h ! c)" "ch_buf (h ! c) = []" "c \<notin> set us" "c \<notin> set vs" "c \<notin> ran m"
    using assms(1) by (auto simp: own_inv_def)
  have open': "{d. d < length h \<and> \<not> ch_closed (h[c := \<lparr>ch_buf = b, ch_closed = True\<rparr>] ! d)} =
      {d. d < length h \<and> \<not> ch_closed (h ! d)} - {c}"
    using c(1) by (auto simp: nth_list_update)
  have "set (us @ vs) \<union> ran m = (set (us @ c # vs) \<union> ran m) - {c}" using c by auto
  then show ?thesis using assms c open' by (auto simp: own_inv_def nth_list_update)
qed

lemma own_inv_receive:
  assumes "own_inv m ts h" and "receive c z h = Some (r, h')" and "c < length h"
  shows "own_inv m ts h'"
proof (cases "ch_buf (h ! c)")
  case Nil
  then show ?thesis using assms by (simp add: receive_def split: if_splits)
next
  case (Cons x xs)
  then have h': "h' = h[c := (h ! c)\<lparr>ch_buf := xs\<rparr>]" using assms(2) by (simp add: receive_def)
  have "c \<notin> set ts \<union> ran m" using assms(1) Cons by (auto simp: own_inv_def)
  moreover have "xs = []" using assms Cons by (auto simp: own_inv_def)
  moreover have "{d. d < length h' \<and> \<not> ch_closed (h' ! d)} = {d. d < length h \<and> \<not> ch_closed (h ! d)}"
    unfolding h' using assms(3) by (auto simp: nth_list_update)
  ultimately show ?thesis using assms(1,3) unfolding h' by (auto simp: own_inv_def nth_list_update)
qed

definition tasks_chans :: "task list \<Rightarrow> nat list" where
  "tasks_chans ts = concat (map task_chans ts)"

lemma tasks_chans_simps [simp, go_simps]:
  "tasks_chans [] = []" "tasks_chans (t # ts) = task_chans t @ tasks_chans ts"
  "tasks_chans (ts @ us) = tasks_chans ts @ tasks_chans us"
  by (simp_all add: tasks_chans_def)

definition notify_inv :: "notify_sys \<Rightarrow> bool" where
  "notify_inv y \<longleftrightarrow> own_inv (map_of (ns_chans (ny_st y))) (tasks_chans (ny_tasks y)) (ns_heap (ny_st y))"

lemma remove_notification_parts [simp, go_simps]:
  "ns_chans (remove_notification i st) = ns_chans st" "ns_heap (remove_notification i st) = ns_heap st"
  by (simp_all add: remove_notification_def)

lemma remove_all_parts [simp, go_simps]:
  "ns_chans (remove_all is st) = ns_chans st" "ns_heap (remove_all is st) = ns_heap st"
  by (induction "is" arbitrary: st) simp_all

lemma map_swap_parts:
  "map_swap z k v m = (Some (case map_of m k of Some w \<Rightarrow> (w, True) | None \<Rightarrow> (z, False)), AList.update k v m)"
  by (simp add: map_swap_def map_zero_def split: option.split)

lemma map_load_and_delete_parts:
  "map_load_and_delete z k m = (Some (case map_of m k of Some w \<Rightarrow> (w, True) | None \<Rightarrow> (z, False)), AList.delete k m)"
  by (simp add: map_load_and_delete_def map_zero_def split: option.split)

text \<open>The swap never panics and takes out exactly the previous channel of the identifier.\<close>

lemma notify_swap_takes:
  "\<exists>n' st'. notify_swap P n ch st = Some ((n', map_of (ns_chans st) (nt_identifier n')), st') \<and> ns_heap st' = ns_heap st \<and>
     map_of (ns_chans st') = (map_of (ns_chans st))(nt_identifier n' := ch) \<and>
     nt_identifier n' \<noteq> [] \<and> (nt_identifier n \<noteq> [] \<longrightarrow> nt_identifier n' = nt_identifier n)"
  by (cases ch) (auto simp: notify_swap_def map_swap_parts map_load_and_delete_parts Let_def go_simps split: option.split)

lemma cleanup_take_parts:
  "fst (cleanup_take t st) = (map_of (ns_chans st) (fst t) = Some (snd t))"
  "ns_heap (snd (cleanup_take t st)) = ns_heap st"
  "map_of (ns_chans (snd (cleanup_take t st))) =
     (if map_of (ns_chans st) (fst t) = Some (snd t) then (map_of (ns_chans st))(fst t := None) else map_of (ns_chans st))"
  by (auto simp: cleanup_take_def map_compare_and_delete_def go_simps)

lemma response_take_parts:
  "\<exists>st'. response_take r st = Some (map_of (ns_chans st) (re_notification r), st') \<and> ns_heap st' = ns_heap st \<and>
     map_of (ns_chans st') = (map_of (ns_chans st))(re_notification r := None)"
  by (auto simp: response_take_def map_load_and_delete_parts go_simps split: option.split)

text \<open>What a task leaves of its channel: closed, with the response in it when it was a response.\<close>

fun task_message :: "task \<Rightarrow> response list" where
  "task_message (RespondTask r c) = [r]"
| "task_message t = []"

lemma run_task_closes:
  assumes "own_inv m (us @ task_chans t @ vs) (ns_heap st)"
  shows "\<exists>st'. run_task t st = Some st' \<and> ns_chans st' = ns_chans st \<and> own_inv m (us @ vs) (ns_heap st') \<and>
    length (ns_heap st') = length (ns_heap st) \<and>
    (\<forall>c. ch_buf (ns_heap st' ! c) = (if c \<in> set (task_chans t) then task_message t else ch_buf (ns_heap st ! c)))"
proof (cases "task_chans t")
  case Nil
  then show ?thesis using assms
    by (cases t) (auto simp: notify_show_def response_finish_def simp del: remove_all.simps split: option.splits)
next
  case (Cons c cs)
  then have t: "task_chans t = [c]" by (cases t) (auto split: option.splits)
  let ?h = "(ns_heap st)[c := \<lparr>ch_buf = task_message t, ch_closed = True\<rparr>]"
  have "length (task_message t) \<le> 1" by (cases t) simp_all
  then have closed: "own_inv m (us @ vs) ?h" "\<not> ch_closed (ns_heap st ! c)" "ch_buf (ns_heap st ! c) = []"
    using own_inv_close [of m us c vs "ns_heap st" "task_message t"] assms t by simp_all
  have c: "c < length (ns_heap st)" using assms t by (auto simp: own_inv_def)
  have e: "ns_heap st ! c = \<lparr>ch_buf = [], ch_closed = False\<rparr>" using closed(2,3) by (cases "ns_heap st ! c") simp
  then have "\<exists>st'. run_task t st = Some st' \<and> ns_chans st' = ns_chans st \<and> ns_heap st' = ?h"
    using t c
    by (cases t) (auto simp: e notify_show_def cleanup_finish_def response_finish_def close_chan_def offer_def
      simp del: remove_all.simps split: option.splits)
  moreover have "ch_buf (?h ! d) = (if d \<in> set (task_chans t) then task_message t else ch_buf (ns_heap st ! d))" for d
    using c t by (cases "d = c") simp_all
  ultimately show ?thesis using closed(1) by (metis length_list_update)
qed

lemma notify_inv_exec:
  assumes "notify_inv y"
  shows "\<exists>y'. notify_exec P op y = Some y' \<and> notify_inv y'"
proof (cases op)
  case (NotifyOp n)
  obtain n' st' where "notify_swap P n None (ny_st y) = Some ((n', map_of (ns_chans (ny_st y)) (nt_identifier n')), st')"
    "ns_heap st' = ns_heap (ny_st y)" "map_of (ns_chans st') = (map_of (ns_chans (ny_st y)))(nt_identifier n' := None)"
    using notify_swap_takes by blast
  then show ?thesis using NotifyOp assms own_inv_take by (simp add: notify_inv_def)
next
  case (NotifyChOp n)
  let ?st = "(ny_st y)\<lparr>ns_heap := ns_heap (ny_st y) @ [new_chan]\<rparr>"
  obtain n' st' where
    "notify_swap P n (Some (length (ns_heap (ny_st y)))) ?st = Some ((n', map_of (ns_chans ?st) (nt_identifier n')), st')"
    "ns_heap st' = ns_heap ?st"
    "map_of (ns_chans st') = (map_of (ns_chans ?st))(nt_identifier n' := Some (length (ns_heap (ny_st y))))"
    using notify_swap_takes by blast
  then show ?thesis using NotifyChOp assms own_inv_swap by (simp add: notify_inv_def Let_def)
next
  case (CleanupOp k)
  then show ?thesis
    using assms own_inv_take [of "map_of (ns_chans (ny_st y))" "tasks_chans (ny_tasks y)" "ns_heap (ny_st y)" "fst (ny_tokens y ! k)"]
    by (auto simp: notify_inv_def Let_def case_prod_beta cleanup_take_parts)
next
  case (RespondOp r)
  obtain st' where "response_take r (ny_st y) = Some (map_of (ns_chans (ny_st y)) (re_notification r), st')"
    "ns_heap st' = ns_heap (ny_st y)" "map_of (ns_chans st') = (map_of (ns_chans (ny_st y)))(re_notification r := None)"
    using response_take_parts by blast
  then show ?thesis using RespondOp assms own_inv_take by (simp add: notify_inv_def)
next
  case (FinishOp k)
  show ?thesis
  proof (cases "k < length (ny_tasks y)")
    case True
    let ?us = "tasks_chans (take k (ny_tasks y))" and ?vs = "tasks_chans (drop (Suc k) (ny_tasks y))"
    have "tasks_chans (ny_tasks y) = ?us @ task_chans (ny_tasks y ! k) @ ?vs"
      using id_take_nth_drop [OF True] by (metis tasks_chans_simps(2,3))
    then have "own_inv (map_of (ns_chans (ny_st y))) (?us @ task_chans (ny_tasks y ! k) @ ?vs) (ns_heap (ny_st y))"
      using assms by (simp add: notify_inv_def)
    from run_task_closes [OF this] obtain st' where
      "run_task (ny_tasks y ! k) (ny_st y) = Some st'" "ns_chans st' = ns_chans (ny_st y)"
      "own_inv (map_of (ns_chans (ny_st y))) (?us @ ?vs) (ns_heap st')" by blast
    then show ?thesis using FinishOp True by (simp add: notify_inv_def)
  qed (use FinishOp assms in simp)
next
  case (ReceiveChOp c)
  then show ?thesis using assms own_inv_receive by (auto simp: notify_inv_def split: option.split)
qed

interpretation notify_runs: safe_runs "notify_exec P" "notify_run P" notify_inv for P
  by unfold_locales (auto simp: notify_inv_exec)

lemma notify_inv_start: "notify_inv notify_start"
  by (simp add: notify_inv_def notify_start_def own_inv_def)

text \<open>\<open>NotifyCh\<close> in one piece: it always succeeds, registers the new channel and closes the one it replaced.\<close>

lemma notify_ch_ok:
  assumes "own_inv (map_of (ns_chans st)) [] (ns_heap st)"
  shows "\<exists>i st1. notify_ch P n st = Some ((i, length (ns_heap st)), st1) \<and> i \<noteq> [] \<and>
    (nt_identifier n \<noteq> [] \<longrightarrow> i = nt_identifier n) \<and>
    map_of (ns_chans st1) = (map_of (ns_chans st))(i \<mapsto> length (ns_heap st)) \<and>
    own_inv (map_of (ns_chans st1)) [] (ns_heap st1) \<and> length (ns_heap st1) = Suc (length (ns_heap st)) \<and>
    ch_buf (ns_heap st1 ! length (ns_heap st)) = [] \<and>
    (\<forall>d < length (ns_heap st). ch_buf (ns_heap st1 ! d) = ch_buf (ns_heap st ! d))"
proof -
  let ?c = "length (ns_heap st)" and ?st = "st\<lparr>ns_heap := ns_heap st @ [new_chan]\<rparr>"
  obtain n' sw where sw: "notify_swap P n (Some ?c) ?st = Some ((n', map_of (ns_chans st) (nt_identifier n')), sw)"
    "ns_heap sw = ns_heap st @ [new_chan]" "map_of (ns_chans sw) = (map_of (ns_chans st))(nt_identifier n' \<mapsto> ?c)"
    and i: "nt_identifier n' \<noteq> []" "nt_identifier n \<noteq> [] \<longrightarrow> nt_identifier n' = nt_identifier n"
    using notify_swap_takes [of P n "Some ?c" ?st] by auto
  let ?t = "ShowTask n' (map_of (ns_chans st) (nt_identifier n'))"
  have own: "own_inv (map_of (ns_chans sw)) ([] @ task_chans ?t @ []) (ns_heap sw)"
    using own_inv_swap [OF assms, of "nt_identifier n'"] sw(2,3) by simp
  from run_task_closes [OF own] obtain st1 where st1: "notify_show (n', map_of (ns_chans st) (nt_identifier n')) sw = Some st1"
    "ns_chans st1 = ns_chans sw" "own_inv (map_of (ns_chans sw)) [] (ns_heap st1)" "length (ns_heap st1) = length (ns_heap sw)"
    "\<forall>c. ch_buf (ns_heap st1 ! c) = (if c \<in> set (task_chans ?t) then [] else ch_buf (ns_heap sw ! c))"
    by auto
  have empty: "ch_buf (ns_heap sw ! c) = []" if "c \<in> set (task_chans ?t)" for c
    using own that by (auto simp: own_inv_def)
  have run: "notify_ch P n st = Some ((nt_identifier n', ?c), st1)"
    using sw(1) st1(1) by (simp add: notify_ch_def notify_call_def)
  have same: "ch_buf (ns_heap st1 ! d) = ch_buf (ns_heap sw ! d)" for d
    using st1(5) empty by (simp del: task_chans.simps)
  have "ch_buf (ns_heap st1 ! ?c) = []" "\<forall>d < ?c. ch_buf (ns_heap st1 ! d) = ch_buf (ns_heap st ! d)"
    by (simp_all add: same sw(2) nth_append new_chan_def)
  moreover have "map_of (ns_chans st1) = (map_of (ns_chans st))(nt_identifier n' \<mapsto> ?c)"
    "own_inv (map_of (ns_chans st1)) [] (ns_heap st1)" "length (ns_heap st1) = Suc ?c"
    using st1(2-4) sw(2,3) by simp_all
  ultimately show ?thesis using i run by blast
qed

section \<open>Alerts\<close>

record alert =
  at_message :: string
  at_informative :: string
  at_buttons :: "string list"
  at_inputs :: "string list"

record alert_response =
  ar_button :: int
  ar_inputs :: "string list"

text \<open>
  C lists of C strings. \<open>C.CString\<close> copies every byte, \<open>C.GoString\<close> reads up to the first zero byte.
  The loops keep a pointer to the tail's \<open>next\<close> field, which is what recursion on the list does.
\<close>

datatype cnodes = CNil | CNode string cnodes

definition c_to_go :: "string \<Rightarrow> string" where
  "c_to_go s = takeWhile (\<lambda>c. c \<noteq> CHR 0x00) s"

fun to_alert_node :: "string list \<Rightarrow> cnodes" where
  "to_alert_node [] = CNil"
| "to_alert_node (label # s) = CNode label (to_alert_node s)"

fun from_alert_node :: "cnodes \<Rightarrow> string list" where
  "from_alert_node CNil = []"
| "from_alert_node (CNode text nxt) = c_to_go text # from_alert_node nxt"

record c_alert =
  ca_message :: string
  ca_informative :: string
  ca_buttons :: cnodes
  ca_inputs :: cnodes

text \<open>The pending alerts by the address of their C structure; \<open>al_shown\<close> and \<open>al_destroyed\<close> log the calls into C.\<close>

record alerts_st =
  al_map :: "(nat, nat) smap"
  al_heap :: "alert_response chan list"
  al_shown :: "(nat \<times> c_alert) list"
  al_destroyed :: "nat list"

text \<open>\<open>ptr\<close> is the address that \<open>make_alert\<close> returned.\<close>

definition display_ch :: "nat \<Rightarrow> alert \<Rightarrow> alerts_st \<Rightarrow> nat \<times> alerts_st" where
  "display_ch ptr a st =
     (let ca = \<lparr>ca_message = at_message a, ca_informative = at_informative a,
            ca_buttons = to_alert_node (at_buttons a), ca_inputs = to_alert_node (at_inputs a)\<rparr>;
          ch = length (al_heap st)
      in (ch, st\<lparr>al_heap := al_heap st @ [new_chan], al_map := map_store ptr ch (al_map st), al_shown := al_shown st @ [(ptr, ca)]\<rparr>))"

text \<open>The click handler's goroutine. The send blocks on a full buffer, which is the inner \<open>None\<close> of \<open>Some None\<close>; the outer one is a panic.\<close>

definition alert_clicked :: "nat \<Rightarrow> int \<Rightarrow> cnodes \<Rightarrow> alerts_st \<Rightarrow> alerts_st option option" where
  "alert_clicked ptr button inputs st =
     (let (r, m) = map_load_and_delete 0 ptr (al_map st); destroy = (\<lambda>st. st\<lparr>al_destroyed := al_destroyed st @ [ptr]\<rparr>) in
      case r of
        None \<Rightarrow> None
      | Some (ch, ok) \<Rightarrow>
          if \<not> ok then Some (Some (destroy (st\<lparr>al_map := m\<rparr>)))
          else if ch_closed (al_heap st ! ch) then None
          else if ch_buf (al_heap st ! ch) \<noteq> [] then Some None
          else Some (Some (destroy (st\<lparr>al_map := m, al_heap := (al_heap st)[ch := (al_heap st ! ch)\<lparr>
            ch_buf := [\<lparr>ar_button = button, ar_inputs = from_alert_node inputs\<rparr>]\<rparr>]\<rparr>))))"

definition zero_alert_response :: alert_response where
  "zero_alert_response = \<lparr>ar_button = 0, ar_inputs = []\<rparr>"

text \<open>\<open>Display\<close> and \<open>DisplayCtx\<close> receive from the channel; when the context ends first, nothing is cleaned up.\<close>

definition display :: "nat \<Rightarrow> alerts_st \<Rightarrow> (alert_response \<times> alerts_st) option" where
  "display ch st = map_option (\<lambda>(r, h). (r, st\<lparr>al_heap := h\<rparr>)) (receive ch zero_alert_response (al_heap st))"

definition display_ctx ::
  "goerr option \<Rightarrow> nat \<Rightarrow> alerts_st \<Rightarrow> ((alert_response \<times> goerr option) \<times> alerts_st) option" where
  "display_ctx err ch st = (case err of
     Some e \<Rightarrow> Some ((zero_alert_response, Some e), st)
   | None \<Rightarrow> map_option (\<lambda>(r, st). ((r, None), st)) (display ch st))"

text \<open>Pending alerts have channels of their own, open and empty.\<close>

definition alerts_inv :: "alerts_st \<Rightarrow> bool" where
  "alerts_inv st \<longleftrightarrow> inj_on (map_of (al_map st)) (dom (map_of (al_map st))) \<and>
     (\<forall>c \<in> ran (map_of (al_map st)). c < length (al_heap st) \<and> al_heap st ! c = new_chan)"

lemma c_to_go_id: "CHR 0x00 \<notin> set s \<Longrightarrow> c_to_go s = s"
  unfolding c_to_go_def by (rule takeWhile_eq_all_conv [THEN iffD2]) auto

lemma alert_nodes_roundtrip: "(\<forall>s \<in> set ss. CHR 0x00 \<notin> set s) \<Longrightarrow> from_alert_node (to_alert_node ss) = ss"
  by (induction ss) (auto simp: c_to_go_id)

lemma alerts_inv_display:
  assumes "alerts_inv st" and "map_of (al_map st) ptr = None"
  shows "alerts_inv (snd (display_ch ptr a st))"
proof -
  have new: "length (al_heap st) \<notin> ran (map_of (al_map st))" using assms(1) by (auto simp: alerts_inv_def)
  have "inj_on ((map_of (al_map st))(ptr \<mapsto> length (al_heap st))) (dom ((map_of (al_map st))(ptr \<mapsto> length (al_heap st))))"
    using assms new by (auto simp: alerts_inv_def inj_on_def dom_def ran_def)
  then show ?thesis
    using assms by (auto simp: alerts_inv_def display_ch_def Let_def map_store_def go_simps nth_append)
qed

lemma alert_clicked_delivers:
  assumes "alerts_inv st"
  shows "\<exists>st'. alert_clicked ptr button inputs st = Some (Some st') \<and> alerts_inv st' \<and>
    (case map_of (al_map st) ptr of
       None \<Rightarrow> al_heap st' = al_heap st
     | Some ch \<Rightarrow> ch_buf (al_heap st' ! ch) = [\<lparr>ar_button = button, ar_inputs = from_alert_node inputs\<rparr>])"
proof (cases "map_of (al_map st) ptr")
  case None
  then have "(map_of (al_map st))(ptr := None) = map_of (al_map st)" by (simp add: fun_upd_idem)
  then show ?thesis using None assms
    by (simp add: alert_clicked_def map_load_and_delete_parts alerts_inv_def go_simps)
next
  case (Some ch)
  have inj: "inj_on (map_of (al_map st)) (dom (map_of (al_map st)))" using assms by (simp add: alerts_inv_def)
  have ran: "ran ((map_of (al_map st))(ptr := None)) = ran (map_of (al_map st)) - {ch}"
    using ran_split [OF inj, of ptr] Some by simp
  have "ch < length (al_heap st)" "al_heap st ! ch = new_chan"
    using assms Some ranI [of "map_of (al_map st)" ptr ch] by (auto simp: alerts_inv_def)
  then show ?thesis using Some assms ran inj_on_remove [OF inj]
    by (auto simp: alert_clicked_def map_load_and_delete_parts alerts_inv_def go_simps new_chan_def)
qed

section \<open>Notification categories\<close>

record action =
  ac_identifier :: string
  ac_title :: string

datatype actioner = PlainAction action | TextAction action string string

datatype c_action = CAction string string "(string \<times> string) option"

record category =
  cg_identifier :: string
  cg_actions :: "actioner list"
  cg_options :: int

text \<open>\<open>apply\<close>: the action node has the text fields only for a text action.\<close>

fun action_apply :: "actioner \<Rightarrow> c_action" where
  "action_apply (PlainAction a) = CAction (ac_identifier a) (ac_title a) None"
| "action_apply (TextAction a b p) = CAction (ac_identifier a) (ac_title a) (Some (b, p))"

fun to_notification_node_actions :: "actioner list \<Rightarrow> c_action list" where
  "to_notification_node_actions [] = []"
| "to_notification_node_actions (a # as) = action_apply a # to_notification_node_actions as"

text \<open>
  \<open>SetNotificationCategories\<close> hands the list to the framework. The argument of the deferred destroy is
  evaluated when the defer statement runs, with \<open>head\<close> still nil: the second result is the list that is
  destroyed. \<open>None\<close> is the early return.
\<close>

definition set_notification_categories ::
  "category list \<Rightarrow> ((string \<times> c_action list \<times> int) list \<times> (string \<times> c_action list \<times> int) list) option" where
  "set_notification_categories cats =
     (if cats = [] then None
      else let head = []; destroyed = head;
               head = map (\<lambda>c. (cg_identifier c, to_notification_node_actions (cg_actions c), cg_options c)) cats
           in Some (head, destroyed))"

text \<open>
  \<open>Notification\<close>: what the framework is given, its texts through C strings and its options through 32-bit integers; and
  what \<open>go_notification_response_received\<close> hands to the responder of the response that comes back.
\<close>

definition app_notification :: "notification \<Rightarrow> notification" where
  "app_notification n = \<lparr>nt_category = c_to_go (nt_category n), nt_identifier = c_to_go (nt_identifier n),
     nt_title = c_to_go (nt_title n), nt_subtitle = c_to_go (nt_subtitle n), nt_body = c_to_go (nt_body n),
     nt_presentation = signed_take_bit 31 (nt_presentation n), nt_interruption = signed_take_bit 31 (nt_interruption n)\<rparr>"

definition notification_received :: "response \<Rightarrow> response" where
  "notification_received r = \<lparr>re_notification = c_to_go (re_notification r), re_action = c_to_go (re_action r), re_text = c_to_go (re_text r)\<rparr>"

text \<open>The answer to a notification comes back under its identifier exactly when that has no NUL.\<close>

lemma c_to_go_idem [simp, go_simps]: "c_to_go (c_to_go s) = c_to_go s"
  by (simp add: c_to_go_def)

lemma answer_finds_identifier:
  assumes "re_notification r = nt_identifier (app_notification n)"
  shows "re_notification (notification_received r) = nt_identifier n \<longleftrightarrow> CHR 0x00 \<notin> set (nt_identifier n)"
proof -
  have "CHR 0x00 \<notin> set (c_to_go s)" for s by (auto simp: c_to_go_def dest: set_takeWhileD)
  then show ?thesis using assms c_to_go_id [of "nt_identifier n"]
    by (simp add: app_notification_def notification_received_def) metis
qed

lemma categories_leak: "set_notification_categories cats = Some (h, d) \<Longrightarrow> d = [] \<and> length h = length cats"
  by (auto simp: set_notification_categories_def split: if_splits)

section \<open>Properties\<close>

definition sample_notification :: notification where
  "sample_notification = \<lparr>nt_category = [], nt_identifier = ''otp'', nt_title = ''a'', nt_subtitle = [], nt_body = [],
     nt_presentation = 16, nt_interruption = 0\<rparr>"

definition sample_waiting :: notify_st where
  "sample_waiting = \<lparr>ns_chans = [(''otp'', 0)], ns_counter = 0, ns_heap = [new_chan], ns_app = [Removed ''otp'', Shown sample_notification]\<rparr>"

text \<open>C30: whatever the order of notifications, clean-ups, responses and their unfinished halves, no channel is closed
  twice or sent on after its close; and the open response channels are exactly those registered under an
  identifier or about to be closed by a pending task, so no receiver is forgotten.\<close>

theorem notify_channels_closed_once:
  "\<exists>y. notify_run P ops notify_start = Some y \<and>
    {c. c < length (ns_heap (ny_st y)) \<and> \<not> ch_closed (ns_heap (ny_st y) ! c)} =
      ran (map_of (ns_chans (ny_st y))) \<union> set (tasks_chans (ny_tasks y))"
proof -
  obtain y where "notify_run P ops notify_start = Some y" "notify_inv y"
    using notify_runs.run_good [OF notify_inv_start] by blast
  then show ?thesis by (auto simp: notify_inv_def own_inv_def)
qed

text \<open>the notification that \<open>NotifyCtx\<close> waits for gets the response to its identifier; but when another
  notification takes over the identifier first, \<open>NotifyCtx\<close> returns the empty response and no error.\<close>

theorem notify_ctx_answered_or_replaced:
  assumes "own_inv (map_of (ns_chans st)) [] (ns_heap st)"
    and "notify_ch P n st = Some ((i, c), st1)"
  shows "(\<exists>st2 st3. response_handler \<lparr>re_notification = i, re_action = a, re_text = x\<rparr> st1 = Some st2 \<and>
      notify_ctx_receive (i, c) st2 = Some ((\<lparr>re_notification = i, re_action = a, re_text = x\<rparr>, None), st3)) \<and>
    (\<exists>r st2. notify_ch P (n\<lparr>nt_identifier := i\<rparr>) st1 = Some (r, st2) \<and>
      notify_ctx_receive (i, c) st2 = Some ((zero_response, None), st2))"
proof -
  obtain s where s: "notify_ch P n st = Some ((i, c), s)" "own_inv (map_of (ns_chans s)) [] (ns_heap s)"
    "map_of (ns_chans s) i = Some c" "ch_buf (ns_heap s ! c) = []" "i \<noteq> []" "c < length (ns_heap s)"
    using notify_ch_ok [OF assms(1), of P n] assms(2) by auto
  then have st1: "s = st1" using assms(2) by simp
  let ?r = "\<lparr>re_notification = i, re_action = a, re_text = x\<rparr>"
  obtain sr where sr: "response_take ?r st1 = Some (Some c, sr)" "ns_heap sr = ns_heap st1"
    "map_of (ns_chans sr) = (map_of (ns_chans st1))(i := None)"
    using response_take_parts [of ?r st1] s(3) st1 by auto
  have "own_inv (map_of (ns_chans sr)) ([] @ task_chans (RespondTask ?r (Some c)) @ []) (ns_heap sr)"
    using own_inv_take [OF s(2), of i] s(3) sr(2,3) st1 by simp
  from run_task_closes [OF this] obtain st2 where "response_finish ?r (Some c) sr = Some st2" "ch_buf (ns_heap st2 ! c) = [?r]"
    by auto
  then have answered: "\<exists>st2 st3. response_handler ?r st1 = Some st2 \<and> notify_ctx_receive (i, c) st2 = Some ((?r, None), st3)"
    using sr(1) by (simp add: response_handler_def notify_ctx_receive_def receive_def)
  obtain c2 s2 where s2: "notify_ch P (n\<lparr>nt_identifier := i\<rparr>) s = Some ((i, c2), s2)" "own_inv (map_of (ns_chans s2)) [] (ns_heap s2)"
    "map_of (ns_chans s2) = (map_of (ns_chans s))(i \<mapsto> c2)" "c2 = length (ns_heap s)" "length (ns_heap s2) = Suc (length (ns_heap s))"
    "\<forall>d < length (ns_heap s). ch_buf (ns_heap s2 ! d) = ch_buf (ns_heap s ! d)"
    using notify_ch_ok [OF s(2), of P "n\<lparr>nt_identifier := i\<rparr>"] s(5) by auto
  have "c \<notin> ran (map_of (ns_chans s2))"
  proof
    assume "c \<in> ran (map_of (ns_chans s2))"
    then obtain k where k: "map_of (ns_chans s2) k = Some c" by (auto simp: ran_def)
    then have "k \<noteq> i" using s2(3,4) s(6) by auto
    then have "map_of (ns_chans s) k = Some c" using k s2(3) by simp
    then show False using s(2,3) \<open>k \<noteq> i\<close> by (auto simp: own_inv_def inj_on_def dom_def)
  qed
  then have "ch_closed (ns_heap s2 ! c)" using s2(2,5) s(6) by (auto simp: own_inv_def)
  then have "notify_ctx_receive (i, c) s2 = Some ((zero_response, None), s2)"
    using s2(6) s(4,6) by (simp add: notify_ctx_receive_def receive_def)
  then show ?thesis using answered s2(1) st1 by blast
qed

lemma notify_ctx_answered_or_replaced_witness:
  "\<exists>r st2. notify_ch \<lparr>po_none = 0, po_badge = 1, po_sound = 2, po_list = 8, po_banner = 16\<rparr> (sample_notification\<lparr>nt_identifier := ''otp''\<rparr>)
      sample_waiting = Some (r, st2) \<and> notify_ctx_receive (''otp'', 0) st2 = Some ((zero_response, None), st2)"
proof -
  have "notify_ch \<lparr>po_none = 0, po_badge = 1, po_sound = 2, po_list = 8, po_banner = 16\<rparr> sample_notification (ny_st notify_start) =
      Some ((''otp'', 0), sample_waiting)"
    by (simp add: notify_ch_def notify_call_def notify_swap_def notify_show_def sample_notification_def sample_waiting_def
      notify_start_def map_swap_def map_zero_def remove_notification_def)
  moreover have "own_inv (map_of (ns_chans (ny_st notify_start))) [] (ns_heap (ny_st notify_start))"
    by (simp add: notify_start_def own_inv_def)
  ultimately show ?thesis using notify_ctx_answered_or_replaced by blast
qed

end
