(* ===== verification/Menu.thy ===== *)
theory Menu
  imports Notify
begin

text \<open>
  The menu bar: \<open>pkg/menuet/menu.go\<close>, \<open>App.go\<close> and \<open>webview.go\<close>. A menu is built into the linked list of C
  nodes that Cocoa shows; every item gets a random key once, under which a click finds it again. Claiming
  a key is a race of goroutines, so registering and claiming are steps of their own.
\<close>

section \<open>The keys of menu items\<close>

text \<open>
  Items are objects, named by numbers. \<open>uq_map\<close> is the weak map from keys to items, \<open>uq_ids\<close> the \<open>unique\<close>
  field of the items that have one. \<open>draws i\<close> is what \<open>rand.Text\<close> yields when item \<open>i\<close> asks for keys.
\<close>

record uniq =
  uq_map :: "(string, nat) weak_map"
  uq_ids :: "(nat, string) gomap"

definition unique_register :: "(nat \<Rightarrow> bool) \<Rightarrow> (nat \<Rightarrow> string list) \<Rightarrow> nat \<Rightarrow> uniq \<Rightarrow> (string \<times> uniq) option" where
  "unique_register live draws i q =
     map_option (\<lambda>(key, m). (key, q\<lparr>uq_map := m\<rparr>)) (weak_store_random live [] (Some i) (draws i) (uq_map q))"

definition unique_claim :: "nat \<Rightarrow> string \<Rightarrow> uniq \<Rightarrow> string \<times> uniq" where
  "unique_claim i key q = (case map_of (uq_ids q) i of
     None \<Rightarrow> (key, q\<lparr>uq_ids := AList.update i key (uq_ids q)\<rparr>)
   | Some u \<Rightarrow> (u, q\<lparr>uq_map := weak_delete key (uq_map q)\<rparr>))"

definition unique_of :: "(nat \<Rightarrow> bool) \<Rightarrow> (nat \<Rightarrow> string list) \<Rightarrow> nat \<Rightarrow> uniq \<Rightarrow> (string \<times> uniq) option" where
  "unique_of live draws i q = (case map_of (uq_ids q) i of
     Some u \<Rightarrow> Some (u, q)
   | None \<Rightarrow> map_option (\<lambda>(key, q). unique_claim i key q) (unique_register live draws i q))"

definition empty_uniq :: uniq where
  "empty_uniq = \<lparr>uq_map = \<lparr>wm_map = [], wm_cleanups = []\<rparr>, uq_ids = []\<rparr>"

section \<open>Menus\<close>

record 'f item_info =
  mi_image :: string
  mi_text :: string
  mi_font_size :: int
  mi_font_weight :: 'f
  mi_state :: bool
  mi_subtitle :: string
  mi_badge :: string
  mi_clickable :: bool

text \<open>A \<open>DynamicItem\<close> is what its function returns when the menu is built; \<open>None\<close> is nil.\<close>

datatype 'f itemer =
    Item nat "'f item_info" "'f itemer option"
  | Separator
  | SectionHeader string
  | Section string "'f itemer"
  | Sections "'f itemer list"
  | MenuItems "'f itemer list"
  | Dynamic "'f itemer option"

datatype 'f c_item =
    CRegular string "'f item_info" "'f c_item list"
  | CSeparator
  | CHeader string

text \<open>
  \<open>item\<close> of each type. A chain of C nodes is a list; \<open>toMenuItems\<close> walks to the end of each item's chain
  before it hangs on the next one, which is appending. The last separator of \<open>Sections\<close> is cut off, as
  \<open>children[0 : n*2-1]\<close> does.
\<close>

fun item_build ::
    "(nat \<Rightarrow> bool) \<Rightarrow> (nat \<Rightarrow> string list) \<Rightarrow> 'f itemer \<Rightarrow> uniq \<Rightarrow> ('f c_item list \<times> uniq) option"
  and to_menu_items ::
    "(nat \<Rightarrow> bool) \<Rightarrow> (nat \<Rightarrow> string list) \<Rightarrow> 'f itemer list \<Rightarrow> uniq \<Rightarrow> ('f c_item list \<times> uniq) option"
  and build_sections ::
    "(nat \<Rightarrow> bool) \<Rightarrow> (nat \<Rightarrow> string list) \<Rightarrow> 'f itemer list \<Rightarrow> uniq \<Rightarrow> ('f c_item list \<times> uniq) option"
where
  "item_build live draws (Item i info None) q =
     map_option (\<lambda>(u, q). ([CRegular u info []], q)) (unique_of live draws i q)"
| "item_build live draws (Item i info (Some sub)) q =
     Option.bind (unique_of live draws i q) (\<lambda>(u, q).
       map_option (\<lambda>(cs, q). ([CRegular u info cs], q)) (item_build live draws sub q))"
| "item_build live draws Separator q = Some ([CSeparator], q)"
| "item_build live draws (SectionHeader t) q = Some ([CHeader t], q)"
| "item_build live draws (Section t c) q =
     map_option (\<lambda>(cs, q). (CHeader t # cs, q)) (item_build live draws c q)"
| "item_build live draws (Sections ss) q = build_sections live draws ss q"
| "item_build live draws (MenuItems ms) q = to_menu_items live draws ms q"
| "item_build live draws (Dynamic None) q = Some ([], q)"
| "item_build live draws (Dynamic (Some m)) q = item_build live draws m q"
| "to_menu_items live draws [] q = Some ([], q)"
| "to_menu_items live draws (m # ms) q =
     Option.bind (item_build live draws m q) (\<lambda>(c, q).
       map_option (\<lambda>(cs, q). (c @ cs, q)) (to_menu_items live draws ms q))"
| "build_sections live draws [] q = Some ([], q)"
| "build_sections live draws [m] q = item_build live draws m q"
| "build_sections live draws (m # m' # ms) q =
     Option.bind (item_build live draws m q) (\<lambda>(c, q).
       map_option (\<lambda>(cs, q). (c @ CSeparator # cs, q)) (build_sections live draws (m' # ms) q))"

text \<open>\<open>build_sections\<close> is \<open>toMenuItems\<close> on the children with separators in between and none at the end.\<close>

definition section_children :: "'f itemer list \<Rightarrow> 'f itemer list" where
  "section_children ss = take (2 * length ss - 1) (concat (map (\<lambda>m. [m, Separator]) ss))"

lemma section_children_simps:
  "section_children [] = []" "section_children [m] = [m]"
  "section_children (m # m' # ms) = m # Separator # section_children (m' # ms)"
  by (simp_all add: section_children_def)

lemma build_sections_children: "build_sections live draws ss q = to_menu_items live draws (section_children ss) q"
proof (induction ss arbitrary: q rule: induct_list012)
  case (2 m)
  show ?case by (cases "item_build live draws m q") (auto simp: section_children_simps)
next
  case (3 m m' ms)
  show ?case using 3(2)
    by (cases "item_build live draws m q")
      (auto simp: section_children_simps option.map_comp comp_def case_prod_unfold)
qed (simp add: section_children_simps)

section \<open>Status items\<close>

record 'f status_item =
  si_id :: nat
  si_title :: string
  si_image :: string
  si_submenu :: "'f itemer option"

text \<open>The keys of status items and those of menu items are two weak maps; the C structure is its fields.\<close>

definition status_item_build ::
  "(nat \<Rightarrow> bool) \<Rightarrow> (nat \<Rightarrow> string list) \<Rightarrow> 'f status_item \<Rightarrow> uniq \<times> uniq \<Rightarrow>
   ((string \<times> string \<times> string \<times> 'f c_item list) \<times> (uniq \<times> uniq)) option" where
  "status_item_build live draws s qs =
     Option.bind (unique_of live draws (si_id s) (fst qs)) (\<lambda>(u, qs0).
       (case si_submenu s of
          None \<Rightarrow> Some ((u, si_title s, si_image s, []), (qs0, snd qs))
        | Some m \<Rightarrow> map_option (\<lambda>(cs, q). ((u, si_title s, si_image s, cs), (qs0, q))) (item_build live draws m (snd qs))))"

text \<open>The first result is the key that is removed from the status bar; the item keeps its key.\<close>

definition remove_status_item :: "nat \<Rightarrow> uniq \<Rightarrow> string option \<times> uniq" where
  "remove_status_item i q = (case map_of (uq_ids q) i of
     None \<Rightarrow> (None, q)
   | Some u \<Rightarrow> (Some u, q\<lparr>uq_map := weak_delete u (uq_map q)\<rparr>))"

section \<open>Clicks\<close>

text \<open>\<open>handler i\<close> is the item's \<open>Clicked\<close> field at the time of the click.\<close>

datatype 'h click = ItemNotFound | NoHandler | Clicked nat 'h

definition go_item_clicked :: "(nat \<Rightarrow> bool) \<Rightarrow> (nat \<Rightarrow> 'h option) \<Rightarrow> string \<Rightarrow> uniq \<Rightarrow> 'h click \<times> uniq" where
  "go_item_clicked live handler u q =
     (let (item, m) = weak_load live u (uq_map q) in
      (case item of
         None \<Rightarrow> ItemNotFound
       | Some i \<Rightarrow> (case handler i of None \<Rightarrow> NoHandler | Some h \<Rightarrow> Clicked i h), q\<lparr>uq_map := m\<rparr>))"

section \<open>The application\<close>

text \<open>
  \<open>didFinishLaunching\<close> is closed once by the framework's callback; a second close is a panic. The goroutine
  of \<open>Run\<close> calls its function only after that.
\<close>

definition go_app_did_finish_launching :: "bool \<Rightarrow> bool option" where
  "go_app_did_finish_launching closed = (if closed then None else Some True)"

definition app_run :: "bool \<Rightarrow> ('w \<Rightarrow> 'w) \<Rightarrow> 'w \<Rightarrow> 'w option" where
  "app_run closed f w = (if closed then Some (f w) else None)"

definition has_action :: "(string \<Rightarrow> int) \<Rightarrow> string \<Rightarrow> bool" where
  "has_action has_app_action act = (has_app_action act \<noteq> 0)"

definition invoke_action :: "(string \<Rightarrow> 'd \<Rightarrow> 'w \<Rightarrow> 'w) \<Rightarrow> string \<Rightarrow> 'd \<Rightarrow> 'w \<Rightarrow> 'w" where
  "invoke_action invoke act dat w = invoke act dat w"

section \<open>Keys find their items\<close>

definition uniq_ok :: "(nat \<Rightarrow> bool) \<Rightarrow> uniq \<Rightarrow> bool" where
  "uniq_ok live q \<longleftrightarrow> (\<forall>i u. map_of (uq_ids q) i = Some u \<longrightarrow> live i \<longrightarrow> map_of (wm_map (uq_map q)) u = Some i)"

definition keeps_ids :: "uniq \<Rightarrow> uniq \<Rightarrow> bool" where
  "keeps_ids q q' \<longleftrightarrow> (\<forall>i u. map_of (uq_ids q) i = Some u \<longrightarrow> map_of (uq_ids q') i = Some u)"

lemma keeps_ids_refl [simp, intro]: "keeps_ids q q"
  by (simp add: keeps_ids_def)

lemma keeps_ids_trans: "keeps_ids q r \<Longrightarrow> keeps_ids r s \<Longrightarrow> keeps_ids q s"
  by (simp add: keeps_ids_def)

lemma unique_register_parts:
  assumes "unique_register live draws i q = Some (k, q')"
  shows "uq_ids q' = uq_ids q" "map_of (wm_map (uq_map q')) = (map_of (wm_map (uq_map q)))(k \<mapsto> i)"
    "case map_of (wm_map (uq_map q)) k of None \<Rightarrow> True | Some j \<Rightarrow> \<not> live j"
  using assms by (auto simp: unique_register_def weak_store_random_def dest: store_random_fresh)

lemma unique_of_ok:
  assumes "uniq_ok live q" and "live i" and "unique_of live draws i q = Some (u, q')"
  shows "uniq_ok live q' \<and> map_of (uq_ids q') i = Some u \<and> keeps_ids q q'"
proof (cases "map_of (uq_ids q) i")
  case None
  then obtain k q1 where k: "unique_register live draws i q = Some (k, q1)" "unique_claim i k q1 = (u, q')"
    using assms(3) by (auto simp: unique_of_def)
  note p = unique_register_parts [OF k(1)]
  have q': "u = k" "q' = q1\<lparr>uq_ids := AList.update i k (uq_ids q1)\<rparr>"
    using k(2) p(1) None by (auto simp: unique_claim_def)
  have "uniq_ok live q'"
    unfolding uniq_ok_def
  proof (intro allI impI)
    fix j v
    assume j: "map_of (uq_ids q') j = Some v" and l: "live j"
    show "map_of (wm_map (uq_map q')) v = Some j"
    proof (cases "j = i")
      case False
      then have "map_of (wm_map (uq_map q)) v = Some j"
        using j l assms(1) by (simp add: q' p(1) go_simps uniq_ok_def)
      moreover from this have "v \<noteq> k" using p(3) l by auto
      ultimately show ?thesis by (simp add: q' p(2))
    qed (use j in \<open>simp add: q' p(2) go_simps\<close>)
  qed
  then show ?thesis using None by (auto simp: q' p(1) go_simps keeps_ids_def)
qed (use assms in \<open>auto simp: unique_of_def\<close>)

text \<open>The items of a menu in the order of its nodes, and the keys of the nodes.\<close>

fun item_refs :: "'f itemer \<Rightarrow> nat list" and refs_all :: "'f itemer list \<Rightarrow> nat list" where
  "item_refs (Item i info None) = [i]"
| "item_refs (Item i info (Some s)) = i # item_refs s"
| "item_refs Separator = []"
| "item_refs (SectionHeader t) = []"
| "item_refs (Section t c) = item_refs c"
| "item_refs (Sections ss) = refs_all ss"
| "item_refs (MenuItems ms) = refs_all ms"
| "item_refs (Dynamic None) = []"
| "item_refs (Dynamic (Some m)) = item_refs m"
| "refs_all [] = []"
| "refs_all (m # ms) = item_refs m @ refs_all ms"

fun node_keys :: "'f c_item \<Rightarrow> string list" and keys_all :: "'f c_item list \<Rightarrow> string list" where
  "node_keys (CRegular u info cs) = u # keys_all cs"
| "node_keys CSeparator = []"
| "node_keys (CHeader t) = []"
| "keys_all [] = []"
| "keys_all (c # cs) = node_keys c @ keys_all cs"

lemma keys_all_append [simp]: "keys_all (cs @ ds) = keys_all cs @ keys_all ds"
  by (induction cs) auto

definition built :: "(nat \<Rightarrow> bool) \<Rightarrow> nat list \<Rightarrow> uniq \<Rightarrow> 'f c_item list \<times> uniq \<Rightarrow> bool" where
  "built live is q r \<longleftrightarrow> uniq_ok live (snd r) \<and> keeps_ids q (snd r) \<and>
     list_all2 (\<lambda>u i. map_of (uq_ids (snd r)) i = Some u) (keys_all (fst r)) is"

lemma list_all2_keep:
  "list_all2 (\<lambda>u i. map_of (uq_ids q) i = Some u) us is \<Longrightarrow> keeps_ids q q' \<Longrightarrow>
   list_all2 (\<lambda>u i. map_of (uq_ids q') i = Some u) us is"
  by (erule list_all2_mono) (simp add: keeps_ids_def)

lemma built_append:
  "built live is q (cs, r) \<Longrightarrow> built live js r (ds, s) \<Longrightarrow> built live (is @ js) q (cs @ ds, s)"
  unfolding built_def fst_conv snd_conv
  by (auto intro: keeps_ids_trans list_all2_keep list_all2_appendI)

lemma built_cons:
  "uniq_ok live r \<Longrightarrow> map_of (uq_ids r) i = Some u \<Longrightarrow> keeps_ids q r \<Longrightarrow> built live js r (cs, s) \<Longrightarrow>
   built live (i # js) q ([CRegular u info cs], s)"
  unfolding built_def fst_conv snd_conv
  by (auto intro: keeps_ids_trans simp: keeps_ids_def)

lemma item_build_built:
  "item_build live draws m q = Some r \<Longrightarrow> uniq_ok live q \<Longrightarrow> \<forall>i \<in> set (item_refs m). live i \<Longrightarrow> built live (item_refs m) q r"
  "to_menu_items live draws ms q = Some r \<Longrightarrow> uniq_ok live q \<Longrightarrow> \<forall>i \<in> set (refs_all ms). live i \<Longrightarrow> built live (refs_all ms) q r"
  "build_sections live draws ss q = Some r \<Longrightarrow> uniq_ok live q \<Longrightarrow> \<forall>i \<in> set (refs_all ss). live i \<Longrightarrow> built live (refs_all ss) q r"
proof (induction live draws m q and live draws ms q and live draws ss q arbitrary: r and r and r
    rule: item_build_to_menu_items_build_sections.induct)
  case (1 live draws i info q)
  then show ?case using unique_of_ok [of live q i draws] by (auto simp: built_def)
next
  case (2 live draws i info sub q)
  from 2(2) obtain u q1 cs q2 where b: "unique_of live draws i q = Some (u, q1)"
    "item_build live draws sub q1 = Some (cs, q2)" "r = ([CRegular u info cs], q2)"
    by (auto simp: bind_eq_Some_conv)
  then have u: "uniq_ok live q1" "map_of (uq_ids q1) i = Some u" "keeps_ids q q1"
    using unique_of_ok [of live q i draws u q1] 2(3,4) by auto
  then have "built live (item_refs sub) q1 (cs, q2)" using 2(1) [OF b(1) refl b(2)] 2(4) by simp
  then show ?case using built_cons [OF u] b(3) by simp
next
  case (11 live draws m ms q)
  from 11(3) obtain c q1 cs q2 where b: "item_build live draws m q = Some (c, q1)"
    "to_menu_items live draws ms q1 = Some (cs, q2)" "r = (c @ cs, q2)"
    by (auto simp: bind_eq_Some_conv)
  have m: "built live (item_refs m) q (c, q1)" using 11(1) [OF b(1)] 11(4,5) by simp
  then have "built live (refs_all ms) q1 (cs, q2)" using 11(2) [OF b(1) refl b(2)] 11(5) by (simp add: built_def)
  then show ?case using built_append [OF m] b(3) by simp
next
  case (14 live draws m m' ms q)
  from 14(3) obtain c q1 cs q2 where b: "item_build live draws m q = Some (c, q1)"
    "build_sections live draws (m' # ms) q1 = Some (cs, q2)" "r = (c @ CSeparator # cs, q2)"
    by (auto simp: bind_eq_Some_conv)
  have m: "built live (item_refs m) q (c, q1)" using 14(1) [OF b(1)] 14(4,5) by simp
  then have "built live (refs_all (m' # ms)) q1 (cs, q2)" using 14(2) [OF b(1) refl b(2)] 14(5) by (simp add: built_def)
  then have "built live (refs_all (m' # ms)) q1 (CSeparator # cs, q2)" by (simp add: built_def)
  then show ?case using built_append [OF m] b(3) by simp
qed (auto simp: built_def)

section \<open>The race for a key\<close>

datatype claim_op = RegisterOp nat | ClaimOp nat

fun claim_exec :: "(nat \<Rightarrow> string list) \<Rightarrow> claim_op \<Rightarrow> uniq \<times> (nat \<times> string) list \<Rightarrow> uniq \<times> (nat \<times> string) list" where
  "claim_exec draws (RegisterOp i) (q, pend) = (case unique_register (\<lambda>_. True) draws i q of
     None \<Rightarrow> (q, pend) | Some (k, q) \<Rightarrow> (q, (i, k) # pend))"
| "claim_exec draws (ClaimOp j) (q, pend) =
     (if j < length pend
      then (snd (unique_claim (fst (pend ! j)) (snd (pend ! j)) q), take j pend @ drop (Suc j) pend)
      else (q, pend))"

fun claim_run :: "(nat \<Rightarrow> string list) \<Rightarrow> claim_op list \<Rightarrow> uniq \<times> (nat \<times> string) list \<Rightarrow> uniq \<times> (nat \<times> string) list" where
  "claim_run draws [] s = s"
| "claim_run draws (op # ops) s = claim_run draws ops (claim_exec draws op s)"

definition claim_inv :: "uniq \<times> (nat \<times> string) list \<Rightarrow> bool" where
  "claim_inv s \<longleftrightarrow> distinct (map snd (snd s)) \<and>
     (\<forall>u i. map_of (wm_map (uq_map (fst s))) u = Some i \<longleftrightarrow> map_of (uq_ids (fst s)) i = Some u \<or> (i, u) \<in> set (snd s)) \<and>
     (\<forall>i u j. map_of (uq_ids (fst s)) i = Some u \<longrightarrow> (j, u) \<notin> set (snd s))"

lemma claim_inv_register:
  assumes "claim_inv (q, pend)"
  shows "claim_inv (claim_exec draws (RegisterOp i) (q, pend))"
proof (cases "unique_register (\<lambda>_. True) draws i q")
  case (Some kq)
  obtain k q' where kq: "kq = (k, q')" by fastforce
  note p = unique_register_parts [OF Some [unfolded kq]]
  have free: "map_of (wm_map (uq_map q)) k = None" using p(3) by (auto split: option.splits)
  then have "\<And>j. map_of (uq_ids q) j \<noteq> Some k" "\<And>j. (j, k) \<notin> set pend"
    using assms by (auto simp: claim_inv_def) (metis option.distinct(1))+
  then show ?thesis using assms Some by (auto simp: claim_inv_def kq p(1,2))
qed (use assms in simp)

lemma claim_inv_claim:
  assumes "claim_inv (q, pend)"
  shows "claim_inv (claim_exec draws (ClaimOp j) (q, pend))"
proof (cases "j < length pend")
  case True
  obtain i k where ik: "pend ! j = (i, k)" by fastforce
  define us vs where "us = take j pend" and "vs = drop (Suc j) pend"
  have pend: "pend = us @ (i, k) # vs" using id_take_nth_drop [OF True] ik by (simp add: us_def vs_def)
  have exec: "claim_exec draws (ClaimOp j) (q, pend) = (snd (unique_claim i k q), us @ vs)"
    using True ik by (simp add: us_def vs_def)
  have "map_of (uq_ids q) i' = Some k \<longrightarrow> (i, k) \<notin> set pend" for i'
    using assms unfolding claim_inv_def fst_conv snd_conv by blast
  then have "map_of (uq_ids q) i' \<noteq> Some k" for i' by (simp add: pend)
  moreover have "(i', k) \<notin> set (us @ vs)" for i'
    using assms unfolding claim_inv_def pend by (auto simp: rev_image_eqI)
  ultimately have fresh: "\<And>i'. (i', k) \<notin> set (us @ vs)" "\<And>i'. map_of (uq_ids q) i' \<noteq> Some k" by auto
  note inv = assms [unfolded claim_inv_def pend]
  have own: "map_of (wm_map (uq_map q)) k = Some i" using assms unfolding claim_inv_def pend by auto
  have dist: "distinct (map snd (us @ vs))" using assms unfolding claim_inv_def pend by auto
  show ?thesis
  proof (cases "map_of (uq_ids q) i")
    case None
    then have "unique_claim i k q = (k, q\<lparr>uq_ids := AList.update i k (uq_ids q)\<rparr>)" by (simp add: unique_claim_def)
    then show ?thesis using inv dist fresh None unfolding exec unfolding claim_inv_def
      by (auto simp: go_simps)
  next
    case (Some u)
    then have "unique_claim i k q = (u, q\<lparr>uq_map := weak_delete k (uq_map q)\<rparr>)" by (simp add: unique_claim_def)
    moreover have "map_of (wm_map (weak_delete k (uq_map q))) = (map_of (wm_map (uq_map q)))(k := None)"
      by (simp add: weak_delete_def map_delete_def go_simps)
    ultimately show ?thesis using inv dist fresh own unfolding exec unfolding claim_inv_def
      by auto
  qed
qed (use assms in simp)

lemma claim_run_inv: "claim_inv s \<Longrightarrow> claim_inv (claim_run draws ops s)"
proof (induction ops arbitrary: s)
  case (Cons op ops)
  then show ?case by (cases op; cases s) (simp_all add: claim_inv_register claim_inv_claim del: claim_exec.simps)
qed simp

section \<open>Properties\<close>

text \<open>however the goroutines that build menus race for an item's key, once none is in the middle of it every item
  that has a key is found under exactly that key, and no key is left over.\<close>

theorem menu_keys_one_to_one:
  assumes "claim_run draws ops (empty_uniq, []) = (q, [])"
  shows "map_of (wm_map (uq_map q)) u = Some i \<longleftrightarrow> map_of (uq_ids q) i = Some u"
  using claim_run_inv [of "(empty_uniq, [])" draws ops] assms
  by (auto simp: claim_inv_def empty_uniq_def)

lemma menu_keys_one_to_one_witness:
  "map_of (wm_map (uq_map (fst (claim_run (\<lambda>i. [''a'', ''b'', ''c'']) [RegisterOp 0, RegisterOp 0, ClaimOp 1, ClaimOp 0] (empty_uniq, []))))) ''a'' =
    Some (0 :: nat)"
proof -
  have "claim_run (\<lambda>i. [''a'', ''b'', ''c'']) [RegisterOp 0, RegisterOp 0, ClaimOp 1, ClaimOp 0] (empty_uniq, []) =
      (\<lparr>uq_map = \<lparr>wm_map = [(''a'', 0)], wm_cleanups = []\<rparr>, uq_ids = [(0, ''a'')]\<rparr>, [])"
    by (simp add: empty_uniq_def unique_register_def unique_claim_def weak_store_random_def map_store_def
      weak_delete_def map_delete_def)
  from menu_keys_one_to_one [OF this, of "''a''" 0] this show ?thesis by simp
qed

text \<open>a click on any node of a menu that was just built runs the handler of the item the node was made from.\<close>

theorem menu_click_reaches_item:
  assumes "uniq_ok live q" and "item_build live draws m q = Some (cs, q')"
    and "\<forall>i \<in> set (item_refs m). live i"
  shows "length (keys_all cs) = length (item_refs m) \<and>
    (\<forall>k < length (item_refs m). fst (go_item_clicked live handler (keys_all cs ! k) q') =
       (case handler (item_refs m ! k) of None \<Rightarrow> NoHandler | Some h \<Rightarrow> Clicked (item_refs m ! k) h))"
proof -
  have b: "built live (item_refs m) q (cs, q')" by (rule item_build_built(1) [OF assms(2,1,3)])
  then have l: "length (keys_all cs) = length (item_refs m)" using list_all2_lengthD by (auto simp: built_def)
  have "map_of (wm_map (uq_map q')) (keys_all cs ! k) = Some (item_refs m ! k) \<and> live (item_refs m ! k)"
    if "k < length (item_refs m)" for k
    using b l assms(3) that by (auto simp: built_def uniq_ok_def dest: list_all2_nthD)
  then show ?thesis using l
    by (auto simp: go_item_clicked_def weak_load_def weak_value_def)
qed

definition sample_info :: "unit item_info" where
  "sample_info = \<lparr>mi_image = [], mi_text = ''a'', mi_font_size = 14, mi_font_weight = (), mi_state = False, mi_subtitle = [],
     mi_badge = [], mi_clickable = True\<rparr>"

lemma menu_click_reaches_item_witness:
  "fst (go_item_clicked (\<lambda>_. True) (\<lambda>i. if i = 4 then Some ''quit'' else None) ''K'' 
    \<lparr>uq_map = \<lparr>wm_map = [(''K'', 4)], wm_cleanups = []\<rparr>, uq_ids = [(4, ''K'')]\<rparr>) = Clicked 4 ''quit''"
proof -
  have b: "item_build (\<lambda>_. True) (\<lambda>i. [''K'']) (Sections [Item 4 sample_info None]) empty_uniq =
      Some ([CRegular ''K'' sample_info []], \<lparr>uq_map = \<lparr>wm_map = [(''K'', 4)], wm_cleanups = []\<rparr>, uq_ids = [(4, ''K'')]\<rparr>)"
    by (simp add: unique_of_def unique_register_def unique_claim_def weak_store_random_def map_store_def empty_uniq_def)
  have "uniq_ok (\<lambda>_. True) empty_uniq" by (simp add: uniq_ok_def empty_uniq_def)
  from menu_click_reaches_item [OF this b, of "\<lambda>i. if i = 4 then Some ''quit'' else None"] show ?thesis by simp
qed

end
