(* ===== verification/Mux.thy ===== *)
theory Mux
  imports NetAddr SyncUtil
begin

text \<open>
  One port for three protocols: \<open>pkg/netutil/listener.go\<close>, \<open>conn.go\<close>, \<open>io.go\<close> and \<open>hpkp.go\<close>. A connection is
  peeked at without losing a byte, dispatched to the first protocol that matches, and handed over an
  unbuffered channel that plays a listener. The shutdown of the server is a state machine of its own.
\<close>

section \<open>Buffered connections\<close>

text \<open>
  Bytes are characters. \<open>bc_rest\<close> is what the next reads of the connection return, piece by piece, and
  \<open>bc_err\<close> what they return after that; a \<open>bufio.Reader\<close> holds at most \<open>bufio_size\<close> bytes in \<open>bc_buf\<close>.
\<close>

record buff_conn =
  bc_buf :: string
  bc_rest :: "string list"
  bc_err :: goerr

definition bufio_size :: nat where
  "bufio_size = 4096"

definition new_buff_conn :: "string list \<Rightarrow> goerr \<Rightarrow> buff_conn" where
  "new_buff_conn pieces e = \<lparr>bc_buf = [], bc_rest = pieces, bc_err = e\<rparr>"

text \<open>One fill appends what one read returns, as far as there is room; the flag says that a read failed.\<close>

fun peek_fill :: "nat \<Rightarrow> string \<Rightarrow> string list \<Rightarrow> (string \<times> string list) \<times> bool" where
  "peek_fill n buf [] = ((buf, []), length buf < n)"
| "peek_fill n buf (p # ps) =
     (if n \<le> length buf then ((buf, p # ps), False)
      else if length p \<le> bufio_size - length buf then peek_fill n (buf @ p) ps
      else ((buf @ take (bufio_size - length buf) p, drop (bufio_size - length buf) p # ps), False))"

definition bc_peek :: "nat \<Rightarrow> buff_conn \<Rightarrow> string res \<times> buff_conn" where
  "bc_peek n c =
     (let ((buf, rest), failed) = peek_fill n (bc_buf c) (bc_rest c); c = c\<lparr>bc_buf := buf, bc_rest := rest\<rparr> in
      (if failed then Inl (bc_err c) else Inr (take n buf), c))"

text \<open>\<open>Read\<close> into \<open>k\<close> bytes: from the buffer when it holds any, else one read, a large one past the buffer.\<close>

definition bc_read :: "nat \<Rightarrow> buff_conn \<Rightarrow> (string \<times> goerr option) \<times> buff_conn" where
  "bc_read k c =
     (if k = 0 then (([], if bc_buf c = [] \<and> bc_rest c = [] then Some (bc_err c) else None), c)
      else if bc_buf c \<noteq> [] then ((take k (bc_buf c), None), c\<lparr>bc_buf := drop k (bc_buf c)\<rparr>)
      else (case bc_rest c of
          [] \<Rightarrow> (([], Some (bc_err c)), c)
        | p # ps \<Rightarrow>
            if bufio_size \<le> k
            then ((take k p, None), c\<lparr>bc_rest := (if drop k p = [] then ps else drop k p # ps)\<rparr>)
            else ((take k (take bufio_size p), None), c\<lparr>bc_buf := drop k (take bufio_size p),
              bc_rest := (if drop bufio_size p = [] then ps else drop bufio_size p # ps)\<rparr>)))"

text \<open>
  \<open>Write\<close> flushes at once, so the write buffer is empty between calls; \<open>werr\<close> is the sticky error of the
  \<open>bufio.Writer\<close> and \<open>W\<close> the connection's \<open>Write\<close>. More than the buffer holds is written directly.
\<close>

definition bc_write ::
  "(string \<Rightarrow> 'w \<Rightarrow> (nat \<times> goerr option) \<times> 'w) \<Rightarrow> string \<Rightarrow> goerr option \<times> 'w \<Rightarrow>
   (nat \<times> goerr option) \<times> (goerr option \<times> 'w)" where
  "bc_write W p s = (case fst s of
     Some e \<Rightarrow> ((0, Some e), s)
   | None \<Rightarrow>
       if p = [] then ((0, None), s)
       else let ((n, e), w) = W p (snd s) in
         if bufio_size < length p then ((n, e), (e, w))
         else let e = (if n < length p \<and> e = None then Some (ErrText ''short write'') else e) in
           ((length p, e), (e, w)))"

definition stream :: "buff_conn \<Rightarrow> string" where
  "stream c = bc_buf c @ concat (bc_rest c)"

lemma peek_fill_stream:
  "peek_fill n buf ps = ((buf', ps'), failed) \<Longrightarrow> n \<le> bufio_size \<Longrightarrow>
     buf' @ concat ps' = buf @ concat ps \<and> failed = (length (buf @ concat ps) < n) \<and> (\<not> failed \<longrightarrow> n \<le> length buf')"
proof (induction n buf ps rule: peek_fill.induct)
  case (2 n buf p ps)
  show ?case
  proof (cases "n \<le> length buf \<or> length p \<le> bufio_size - length buf")
    case True
    then show ?thesis using 2 by (auto split: if_splits)
  next
    case False
    then have "n \<le> length (buf @ take (bufio_size - length buf) p)" using 2(3) by simp
    moreover have "take k p @ drop k p @ r = p @ r" for k r by (metis append_assoc append_take_drop_id)
    ultimately show ?thesis using False 2(2) by auto
  qed
qed auto

lemma bc_peek_stream:
  assumes "n \<le> bufio_size"
  shows "stream (snd (bc_peek n c)) = stream c \<and> bc_err (snd (bc_peek n c)) = bc_err c \<and>
    fst (bc_peek n c) = (if length (stream c) < n then Inl (bc_err c) else Inr (take n (stream c)))"
proof -
  obtain buf ps failed where p: "peek_fill n (bc_buf c) (bc_rest c) = ((buf, ps), failed)" by (metis prod.exhaust)
  have s: "buf @ concat ps = bc_buf c @ concat (bc_rest c)" "failed = (length (stream c) < n)" "\<not> failed \<longrightarrow> n \<le> length buf"
    using peek_fill_stream [OF p assms] by (simp_all add: stream_def)
  then have "\<not> failed \<longrightarrow> take n buf = take n (stream c)" by (simp add: stream_def flip: s(1))
  then show ?thesis using s(1,2) by (simp add: bc_peek_def p stream_def)
qed

lemma bc_read_stream:
  "stream c = fst (fst (bc_read k c)) @ stream (snd (bc_read k c))"
proof (cases "k = 0 \<or> bc_buf c \<noteq> []")
  case True
  then show ?thesis by (auto simp: bc_read_def stream_def)
next
  case False
  have split: "take k p = p" if "drop k p = []" for p :: string using that by simp
  have buffered: "take k (take bufio_size p) @ drop k (take bufio_size p) = take bufio_size p" for p :: string by (rule append_take_drop_id)
  show ?thesis
  proof (cases "bc_rest c")
    case (Cons p ps)
    have td: "take j p @ drop j p @ r = p @ r" for j r by (metis append_assoc append_take_drop_id)
    have rest: "concat (if drop j p = [] then ps else drop j p # ps) = drop j p @ concat ps" for j by simp
    have "take k (take bufio_size p) @ drop k (take bufio_size p) @ drop bufio_size p = p"
      using buffered [of p] by (metis append_assoc append_take_drop_id)
    then show ?thesis using False Cons
      by (cases "bufio_size \<le> k") (simp_all add: bc_read_def stream_def rest td del: take_take drop_eq_Nil)
  qed (use False in \<open>simp add: bc_read_def stream_def\<close>)
qed

section \<open>The mux\<close>

type_synonym 'h mux = "((buff_conn \<Rightarrow> bool \<times> buff_conn) \<times> 'h) list"

definition mux_handle :: "(buff_conn \<Rightarrow> bool \<times> buff_conn) \<Rightarrow> 'h \<Rightarrow> 'h mux \<Rightarrow> 'h mux" where
  "mux_handle match handler m = m @ [(match, handler)]"

text \<open>The loop over the entries; \<open>None\<close> is the close of an unmatched connection.\<close>

fun mux_serve_conn :: "'h mux \<Rightarrow> buff_conn \<Rightarrow> 'h option \<times> buff_conn" where
  "mux_serve_conn [] bc = (None, bc)"
| "mux_serve_conn (e # es) bc =
     (let (hit, bc) = fst e bc in if hit then (Some (snd e), bc) else mux_serve_conn es bc)"

text \<open>\<open>Listener\<close> hangs a new \<open>ChanListener\<close>, known by its number, behind the matching function.\<close>

definition mux_listener :: "(buff_conn \<Rightarrow> bool \<times> buff_conn) \<Rightarrow> nat mux \<Rightarrow> nat \<times> nat mux" where
  "mux_listener match m = (let l = length m in (l, mux_handle match l m))"

definition socks5_match :: "buff_conn \<Rightarrow> bool \<times> buff_conn" where
  "socks5_match conn = (case bc_peek 1 conn of
     (Inl _, conn) \<Rightarrow> (False, conn) | (Inr magic, conn) \<Rightarrow> (magic ! 0 = CHR 0x05, conn))"

definition ssh_match :: "buff_conn \<Rightarrow> bool \<times> buff_conn" where
  "ssh_match conn = (case bc_peek 4 conn of
     (Inl _, conn) \<Rightarrow> (False, conn) | (Inr magic, conn) \<Rightarrow> (magic = ''SSH-'', conn))"

definition default_match :: "buff_conn \<Rightarrow> bool \<times> buff_conn" where
  "default_match conn = (True, conn)"

text \<open>The entries of \<open>NewProxyServer\<close> (\<open>internal/app/proxy.go\<close>), in the order it registers them.\<close>

datatype protocol = Socks5 | Ssh | Http

definition proxy_mux :: "protocol mux" where
  "proxy_mux = mux_handle default_match Http (mux_handle ssh_match Ssh (mux_handle socks5_match Socks5 []))"

lemma socks5_match_stream:
  "fst (socks5_match c) = (stream c \<noteq> [] \<and> hd (stream c) = CHR 0x05) \<and> stream (snd (socks5_match c)) = stream c"
  using bc_peek_stream [of 1 c]
  by (cases "stream c") (auto simp: socks5_match_def bufio_size_def split: prod.split sum.split)

lemma ssh_match_stream:
  "fst (ssh_match c) = (take 4 (stream c) = ''SSH-'') \<and> stream (snd (ssh_match c)) = stream c"
proof -
  have "take 4 s \<noteq> ''SSH-''" if "length s < 4" for s :: string
  proof
    assume "take 4 s = ''SSH-''"
    then have "length (take 4 s) = 4" by simp
    then show False using that by simp
  qed
  then show ?thesis
    using bc_peek_stream [of 4 c]
    by (auto simp: ssh_match_def bufio_size_def split: prod.split sum.split if_splits)
qed

section \<open>The shutdown of the server\<close>

text \<open>
  \<open>MuxServer\<close>: one \<open>ChanListener\<close> and one serving goroutine per handler, the accept loop, and the group
  that cancels its context at the first error. \<open>owns i\<close> says that server \<open>i\<close> closes its listener when its
  \<open>Serve\<close> returns, as \<open>http.Serve\<close> does. A connection on its way to listener \<open>i\<close> is a sender blocked on
  the channel. Closing a channel twice, and closing one under a sender, panics.
\<close>

record mux_sys =
  ms_closed :: "bool list"
  ms_running :: "bool list"
  ms_hooked :: "bool list"      \<comment> \<open>the \<open>AfterFunc\<close> of this listener has not run yet\<close>
  ms_senders :: "nat list"
  ms_accepting :: bool
  ms_cancelled :: bool
  ms_err :: "goerr option"

datatype mux_event =
    Incoming nat
  | Accepted nat
  | AcceptFails goerr
  | AfterFunc nat
  | ServerReturns nat

definition mux_start :: "nat \<Rightarrow> mux_sys" where
  "mux_start n = \<lparr>ms_closed = replicate n False, ms_running = replicate n True, ms_hooked = replicate n True,
     ms_senders = [], ms_accepting = True, ms_cancelled = False, ms_err = None\<rparr>"

definition chan_listener_close :: "nat \<Rightarrow> mux_sys \<Rightarrow> mux_sys outcome" where
  "chan_listener_close i s = (if ms_closed s ! i \<or> i \<in> set (ms_senders s) then Panic
     else Next (s\<lparr>ms_closed := (ms_closed s)[i := True]\<rparr>))"

text \<open>
  The listener's other operations. \<open>ServeConn\<close> sends: a sender blocks until somebody accepts, and sending on a closed
  channel panics. \<open>Accept\<close> takes a waiting sender's connection; of a closed channel it is an error.
\<close>

definition chan_listener_serve_conn :: "nat \<Rightarrow> mux_sys \<Rightarrow> mux_sys outcome" where
  "chan_listener_serve_conn i s = (if ms_closed s ! i then Panic else Next (s\<lparr>ms_senders := ms_senders s @ [i]\<rparr>))"

definition chan_listener_accept :: "nat \<Rightarrow> mux_sys \<Rightarrow> (goerr option \<times> mux_sys) outcome" where
  "chan_listener_accept i s =
     (if i \<in> set (ms_senders s) then Next (None, s\<lparr>ms_senders := remove1 i (ms_senders s)\<rparr>)
      else if ms_closed s ! i then Next (Some (ErrText ''listener closed''), s) else Blocked)"

definition group_error :: "goerr \<Rightarrow> mux_sys \<Rightarrow> mux_sys" where
  "group_error e s = (case ms_err s of None \<Rightarrow> s\<lparr>ms_err := Some e, ms_cancelled := True\<rparr> | Some _ \<Rightarrow> s)"

fun mux_exec :: "(nat \<Rightarrow> bool) \<Rightarrow> mux_event \<Rightarrow> mux_sys \<Rightarrow> mux_sys outcome" where
  "mux_exec owns (Incoming i) s =
     (if \<not> ms_accepting s \<or> length (ms_closed s) \<le> i then Blocked
      else chan_listener_serve_conn i s)"
| "mux_exec owns (Accepted i) s =
     (if i < length (ms_running s) \<and> ms_running s ! i
      then (case chan_listener_accept i s of Next (None, s) \<Rightarrow> Next s | _ \<Rightarrow> Blocked) else Blocked)"
| "mux_exec owns (AcceptFails e) s =
     (if ms_accepting s then Next (group_error e (s\<lparr>ms_accepting := False\<rparr>)) else Blocked)"
| "mux_exec owns (AfterFunc i) s =
     (if ms_cancelled s \<and> i < length (ms_hooked s) \<and> ms_hooked s ! i
      then chan_listener_close i (s\<lparr>ms_hooked := (ms_hooked s)[i := False]\<rparr>) else Blocked)"
| "mux_exec owns (ServerReturns i) s =
     (if i < length (ms_running s) \<and> ms_running s ! i
      then (case chan_listener_accept i s of
          Next (Some e, s) \<Rightarrow> (case (if owns i then chan_listener_close i s else Next s) of
              Next s \<Rightarrow> Next (group_error e (s\<lparr>ms_running := (ms_running s)[i := False]\<rparr>))
            | r \<Rightarrow> r)
        | _ \<Rightarrow> Blocked)
      else Blocked)"

fun mux_run :: "(nat \<Rightarrow> bool) \<Rightarrow> mux_event list \<Rightarrow> mux_sys \<Rightarrow> mux_sys outcome" where
  "mux_run owns [] s = Next s"
| "mux_run owns (e # es) s = (case mux_exec owns e s of Next s \<Rightarrow> mux_run owns es s | r \<Rightarrow> r)"

interpretation mux_runs: guarded_runs "mux_exec owns" "mux_run owns" for owns
  by unfold_locales simp_all

text \<open>\<open>Serve\<close> returns the group's error once the accept loop and every server have returned.\<close>

definition mux_server_serve :: "mux_sys \<Rightarrow> goerr option option" where
  "mux_server_serve s = (if \<not> ms_accepting s \<and> True \<notin> set (ms_running s) then Some (ms_err s) else None)"

definition mux_sizes :: "nat \<Rightarrow> mux_sys \<Rightarrow> bool" where
  "mux_sizes n s \<longleftrightarrow> length (ms_closed s) = n \<and> length (ms_running s) = n \<and> length (ms_hooked s) = n"

lemma group_error_parts [simp, go_simps]:
  "ms_closed (group_error e s) = ms_closed s" "ms_running (group_error e s) = ms_running s"
  "ms_hooked (group_error e s) = ms_hooked s" "ms_senders (group_error e s) = ms_senders s"
  "ms_accepting (group_error e s) = ms_accepting s"
  by (simp_all add: group_error_def split: option.split)

lemma owner_keeps_running:
  assumes "mux_exec owns ev s = Next s'" and "owns i" and "ms_running s ! i" and "mux_sizes n s"
  shows "ms_running s' ! i \<and> mux_sizes n s'"
proof (cases ev)
  case (ServerReturns j)
  then have j: "j < length (ms_running s)" "ms_running s ! j" "ms_closed s ! j"
    using assms(1) by (auto simp: chan_listener_accept_def split: if_splits)
  then have "\<not> owns j" using ServerReturns assms(1) by (auto simp: chan_listener_close_def chan_listener_accept_def split: if_splits)
  then have "j \<noteq> i" using assms(2) by auto
  then show ?thesis using ServerReturns assms j \<open>\<not> owns j\<close> by (auto simp: mux_sizes_def chan_listener_accept_def split: if_splits)
qed (use assms in \<open>auto simp: mux_sizes_def chan_listener_close_def chan_listener_accept_def chan_listener_serve_conn_def split: if_splits\<close>)

lemma owner_never_returns:
  assumes "mux_run owns evs s = Next s'" and "owns i" and "ms_running s ! i" and "mux_sizes n s" and "i < n"
  shows "ms_running s' ! i \<and> i < length (ms_running s')"
proof -
  have "ms_running s' ! i \<and> mux_sizes n s'"
    by (rule mux_runs.run_keeps [where A = UNIV, OF _ _ _ assms(1)]) (use assms(2-4) owner_keeps_running in blast)+
  then show ?thesis using assms(5) by (simp add: mux_sizes_def)
qed

section \<open>Copying between two connections\<close>

text \<open>
  \<open>JoinBuffer\<close>: two goroutines copy one way each, close their destination and report. \<open>copy\<close> is
  \<open>io.CopyBuffer\<close>; a buffer size of zero is its default. The result joins the two errors in a fixed order,
  whichever goroutine ended first.
\<close>

definition join_pipe ::
  "(nat \<Rightarrow> nat option \<Rightarrow> nat \<Rightarrow> 'w \<Rightarrow> goerr option \<times> 'w) \<Rightarrow> (nat \<Rightarrow> 'w \<Rightarrow> 'w) \<Rightarrow> nat \<Rightarrow> nat \<Rightarrow> 32 word \<Rightarrow> 'w \<Rightarrow> goerr option \<times> 'w" where
  "join_pipe copy close dst src bufsz w =
     (let (e, w) = copy dst (if bufsz \<noteq> 0 then Some (unat bufsz) else None) src w in (e, close dst w))"

definition join_errors :: "goerr option \<Rightarrow> goerr option \<Rightarrow> goerr option" where
  "join_errors e f = errors_join (concat (map (\<lambda>x. case x of Some e \<Rightarrow> [e] | None \<Rightarrow> []) [e, f]))"

definition join_buffer ::
  "(nat \<Rightarrow> nat option \<Rightarrow> nat \<Rightarrow> 'w \<Rightarrow> goerr option \<times> 'w) \<Rightarrow> (nat \<Rightarrow> 'w \<Rightarrow> 'w) \<Rightarrow> bool \<Rightarrow> nat \<Rightarrow> nat \<Rightarrow> 32 word \<Rightarrow> 'w \<Rightarrow>
   goerr option \<times> 'w" where
  "join_buffer copy close first_ab a b bufsz w =
     (if first_ab then
        let (e0, w) = join_pipe copy close b a bufsz w; (e1, w) = join_pipe copy close a b bufsz w in (join_errors e0 e1, w)
      else
        let (e1, w) = join_pipe copy close a b bufsz w; (e0, w) = join_pipe copy close b a bufsz w in (join_errors e0 e1, w))"

definition join_conns ::
  "(nat \<Rightarrow> nat option \<Rightarrow> nat \<Rightarrow> 'w \<Rightarrow> goerr option \<times> 'w) \<Rightarrow> (nat \<Rightarrow> 'w \<Rightarrow> 'w) \<Rightarrow> bool \<Rightarrow> nat \<Rightarrow> nat \<Rightarrow> 'w \<Rightarrow>
   goerr option \<times> 'w" where
  "join_conns copy close first_ab a b w = join_buffer copy close first_ab a b 0 w"

text \<open>\<open>RWCDumper\<close>: a read or write that also hands the bytes it moved to the dump function.\<close>

definition rwc_read ::
  "('w \<Rightarrow> (string \<times> goerr option) \<times> 'w) \<Rightarrow> string \<Rightarrow> (string \<Rightarrow> string \<Rightarrow> 'w \<Rightarrow> 'w) option \<Rightarrow> 'w \<Rightarrow>
   (string \<times> goerr option) \<times> 'w" where
  "rwc_read rd label dump w =
     (let ((p, e), w) = rd w; w = (case dump of Some d \<Rightarrow> d p (label @ '' read'') w | None \<Rightarrow> w) in ((p, e), w))"

definition rwc_write ::
  "(string \<Rightarrow> 'w \<Rightarrow> (nat \<times> goerr option) \<times> 'w) \<Rightarrow> string \<Rightarrow> (string \<Rightarrow> string \<Rightarrow> 'w \<Rightarrow> 'w) option \<Rightarrow> string \<Rightarrow> 'w \<Rightarrow>
   (nat \<times> goerr option) \<times> 'w" where
  "rwc_write wr label dump p w =
     (let ((n, e), w) = wr p w; w = (case dump of Some d \<Rightarrow> d (take n p) (label @ '' write'') w | None \<Rightarrow> w) in ((n, e), w))"

section \<open>Pinned certificates\<close>

text \<open>\<open>parse\<close>, \<open>marshal_key\<close> and \<open>sha256\<close> are the functions of \<open>crypto\<close> with these names.\<close>

fun verify_peer_certificate ::
  "('r \<Rightarrow> 'c res) \<Rightarrow> ('c \<Rightarrow> string res) \<Rightarrow> (string \<Rightarrow> string) \<Rightarrow> string \<Rightarrow> 'r list \<Rightarrow> goerr option" where
  "verify_peer_certificate parse marshal_key sha256 fp [] = Some (ErrText ''Pin validation failed'')"
| "verify_peer_certificate parse marshal_key sha256 fp (raw # raws) = (case parse raw of
     Inl e \<Rightarrow> Some e
   | Inr cert \<Rightarrow> (case marshal_key cert of
       Inl e \<Rightarrow> Some e
     | Inr der \<Rightarrow> if sha256 der = fp then None else verify_peer_certificate parse marshal_key sha256 fp raws))"

text \<open>
  \<open>NewHPKPClient\<close>: \<open>crypto/tls\<close> skips its own verification of the chain when told so, and asks \<open>VerifyPeerCertificate\<close>
  in any case.
\<close>

record 'r tls_config =
  tc_insecure :: bool
  tc_verify :: "'r list \<Rightarrow> goerr option"

definition tls_accepts :: "'r tls_config \<Rightarrow> bool \<Rightarrow> 'r list \<Rightarrow> bool" where
  "tls_accepts c chain_ok raws \<longleftrightarrow> (tc_insecure c \<or> chain_ok) \<and> tc_verify c raws = None"

definition new_hpkp_client :: "('r \<Rightarrow> 'c res) \<Rightarrow> ('c \<Rightarrow> string res) \<Rightarrow> (string \<Rightarrow> string) \<Rightarrow> string \<Rightarrow> 'r tls_config" where
  "new_hpkp_client parse marshal_key sha256 fp =
     \<lparr>tc_insecure = True, tc_verify = verify_peer_certificate parse marshal_key sha256 fp\<rparr>"

definition key_hash :: "('r \<Rightarrow> 'c res) \<Rightarrow> ('c \<Rightarrow> string res) \<Rightarrow> (string \<Rightarrow> string) \<Rightarrow> 'r \<Rightarrow> string option" where
  "key_hash parse marshal_key sha256 raw =
     (case bind_res (parse raw) marshal_key of Inl _ \<Rightarrow> None | Inr der \<Rightarrow> Some (sha256 der))"

lemma verify_peer_iff:
  "verify_peer_certificate parse marshal_key sha256 fp raws = None \<longleftrightarrow>
     (\<exists>us raw vs. raws = us @ raw # vs \<and> key_hash parse marshal_key sha256 raw = Some fp \<and>
        (\<forall>r \<in> set us. key_hash parse marshal_key sha256 r \<noteq> None))"
proof (induction raws)
  case (Cons r raws)
  let ?h = "key_hash parse marshal_key sha256"
  have step: "verify_peer_certificate parse marshal_key sha256 fp (r # raws) = None \<longleftrightarrow>
      ?h r = Some fp \<or> (?h r \<noteq> None \<and> verify_peer_certificate parse marshal_key sha256 fp raws = None)"
    by (auto simp: key_hash_def split: sum.split)
  have "(\<exists>us raw vs. r # raws = us @ raw # vs \<and> ?h raw = Some fp \<and> (\<forall>r \<in> set us. ?h r \<noteq> None)) \<longleftrightarrow>
      ?h r = Some fp \<or> (?h r \<noteq> None \<and> (\<exists>us raw vs. raws = us @ raw # vs \<and> ?h raw = Some fp \<and> (\<forall>r \<in> set us. ?h r \<noteq> None)))"
    (is "?l \<longleftrightarrow> ?r")
  proof
    assume ?l
    then obtain us raw vs where "r # raws = us @ raw # vs" "?h raw = Some fp" "\<forall>r \<in> set us. ?h r \<noteq> None" by blast
    then show ?r by (cases us) auto
  next
    assume ?r
    then show ?l
    proof
      assume "?h r = Some fp"
      then show ?l by (intro exI [of _ "[]"]) auto
    next
      assume "?h r \<noteq> None \<and> (\<exists>us raw vs. raws = us @ raw # vs \<and> ?h raw = Some fp \<and> (\<forall>r \<in> set us. ?h r \<noteq> None))"
      then obtain us raw vs where "?h r \<noteq> None" "raws = us @ raw # vs" "?h raw = Some fp" "\<forall>r \<in> set us. ?h r \<noteq> None" by blast
      then show ?l by (intro exI [of _ "r # us"] exI [of _ raw] exI [of _ vs]) auto
    qed
  qed
  then show ?case using step Cons.IH by simp
qed simp

section \<open>Properties\<close>


text \<open>the multiplexing server cannot shut down: a server that closes its listener when \<open>Serve\<close> returns, as
  \<open>http.Serve\<close> does, never returns without a panic, because the listener it closes was closed by the group's
  context; so \<open>Serve\<close> of the multiplexer never returns.\<close>

theorem mux_server_never_returns:
  assumes "owns i" and "i < n" and "mux_run owns evs (mux_start n) = Next s"
  shows "mux_server_serve s = None \<and>
    mux_run owns [AcceptFails e, AfterFunc i, ServerReturns i] (mux_start n) = Panic"
proof -
  have "ms_running s ! i \<and> i < length (ms_running s)"
    using owner_never_returns [OF assms(3,1)] assms(2) by (simp add: mux_start_def mux_sizes_def)
  then have "True \<in> set (ms_running s)" using nth_mem by force
  moreover have "mux_run owns [AcceptFails e, AfterFunc i, ServerReturns i] (mux_start n) = Panic"
    using assms(1,2) by (simp add: mux_start_def group_error_def chan_listener_close_def chan_listener_accept_def)
  ultimately show ?thesis by (simp add: mux_server_serve_def)
qed

lemma mux_server_never_returns_witness:
  "mux_run (\<lambda>i. i = 2) [AcceptFails ErrNetClosed, AfterFunc 2, ServerReturns 2] (mux_start 3) = Panic"
  using mux_server_never_returns [of "\<lambda>i. i = 2" 2 3 "[]"] by simp

text \<open>a pinned client accepts a server exactly when the key of some certificate that it sent has the pinned hash and
  every certificate before it could be parsed; who signed them does not matter.\<close>

theorem pin_accepts_iff:
  "tls_accepts (new_hpkp_client parse marshal_key sha256 fp) chain_ok raws \<longleftrightarrow>
     (\<exists>k < length raws. key_hash parse marshal_key sha256 (raws ! k) = Some fp \<and>
        (\<forall>j < k. key_hash parse marshal_key sha256 (raws ! j) \<noteq> None))"
  unfolding tls_accepts_def new_hpkp_client_def tls_config.simps simp_thms verify_peer_iff
proof
  assume "\<exists>us raw vs. raws = us @ raw # vs \<and> key_hash parse marshal_key sha256 raw = Some fp \<and>
      (\<forall>r \<in> set us. key_hash parse marshal_key sha256 r \<noteq> None)"
  then obtain us raw vs where "raws = us @ raw # vs" "key_hash parse marshal_key sha256 raw = Some fp"
    "\<forall>r \<in> set us. key_hash parse marshal_key sha256 r \<noteq> None" by blast
  then show "\<exists>k < length raws. key_hash parse marshal_key sha256 (raws ! k) = Some fp \<and>
      (\<forall>j < k. key_hash parse marshal_key sha256 (raws ! j) \<noteq> None)"
    by (intro exI [of _ "length us"]) (simp add: nth_append)
next
  assume "\<exists>k < length raws. key_hash parse marshal_key sha256 (raws ! k) = Some fp \<and>
      (\<forall>j < k. key_hash parse marshal_key sha256 (raws ! j) \<noteq> None)"
  then obtain k where k: "k < length raws" "key_hash parse marshal_key sha256 (raws ! k) = Some fp"
    "\<forall>j < k. key_hash parse marshal_key sha256 (raws ! j) \<noteq> None" by blast
  have "\<forall>r \<in> set (take k raws). key_hash parse marshal_key sha256 r \<noteq> None"
    using k(1,3) by (auto simp: in_set_conv_nth)
  then show "\<exists>us raw vs. raws = us @ raw # vs \<and> key_hash parse marshal_key sha256 raw = Some fp \<and>
      (\<forall>r \<in> set us. key_hash parse marshal_key sha256 r \<noteq> None)"
    using k id_take_nth_drop [OF k(1)] by (intro exI [of _ "take k raws"]) blast
qed

lemma pin_accepts_iff_witness:
  "tls_accepts (new_hpkp_client Inr Inr (\<lambda>s. s) ''k'') False [''a'', ''k'']"
  using pin_accepts_iff [of Inr Inr "\<lambda>s. s" "''k''" False "[''a'', ''k'']"]
  by (auto simp: key_hash_def intro: exI [of _ 1])

end
