(* ===== verification/AppConfig.thy ===== *)
theory AppConfig
  imports NetAddr "HOL-Library.List_Lexorder" "HOL-Library.Char_ord"
begin

text \<open>
  The configuration: \<open>internal/app/config.go\<close> over the parts of \<open>path\<close>, \<open>net/url\<close> and \<open>encoding/json\<close> that it
  uses. A proxy is written as a URL or as an object of parts; the parts' path is cleaned, their options become
  the query. The lemmas: a cleaned path has no dot elements, an encoded query reads back.
\<close>

section \<open>Paths\<close>

text \<open>\<open>path.Clean\<close>, element by element; the stack \<open>out\<close> holds the elements kept so far, last first.\<close>

definition clean_step :: "bool \<Rightarrow> string list \<Rightarrow> string \<Rightarrow> string list" where
  "clean_step rooted out e =
     (if e = [] \<or> e = ''.'' then out
      else if e = ''..'' then
        (case out of [] \<Rightarrow> if rooted then [] else [''..''] | x # xs \<Rightarrow> if x = ''..'' then ''..'' # out else xs)
      else e # out)"

definition path_clean :: "string \<Rightarrow> string" where
  "path_clean p =
     (if p = [] then ''.''
      else let rooted = (hd p = CHR ''/''); out = rev (foldl (clean_step rooted) [] (split_on CHR ''/'' p)) in
        if rooted then CHR ''/'' # join ''/'' out else if out = [] then ''.'' else join ''/'' out)"

definition path_join :: "string list \<Rightarrow> string" where
  "path_join es = (let es = filter (\<lambda>e. e \<noteq> []) es in if es = [] then [] else path_clean (join ''/'' es))"

text \<open>\<open>filepath.Dir\<close>: all up to the last slash, cleaned.\<close>

definition path_dir :: "string \<Rightarrow> string" where
  "path_dir p = path_clean (case last_index_of CHR ''/'' p of None \<Rightarrow> [] | Some i \<Rightarrow> take (i + 1) p)"

definition plain_elem :: "string \<Rightarrow> bool" where
  "plain_elem e \<longleftrightarrow> e \<noteq> [] \<and> e \<noteq> ''.'' \<and> e \<noteq> ''..'' \<and> CHR ''/'' \<notin> set e"

lemma clean_step_plain:
  "\<forall>e \<in> set out. plain_elem e \<Longrightarrow> CHR ''/'' \<notin> set e \<Longrightarrow> \<forall>e \<in> set (clean_step True out e). plain_elem e"
  unfolding clean_step_def by (cases out) (simp_all add: plain_elem_def)

lemma clean_fold_plain:
  "\<forall>e \<in> set out. plain_elem e \<Longrightarrow> \<forall>e \<in> set es. CHR ''/'' \<notin> set e \<Longrightarrow>
   \<forall>e \<in> set (foldl (clean_step True) out es). plain_elem e"
proof (induction es arbitrary: out)
  case (Cons e es)
  then show ?case using clean_step_plain [of out e] by simp
qed simp

lemma clean_fold_id: "\<forall>e \<in> set es. plain_elem e \<Longrightarrow> foldl (clean_step True) out es = rev es @ out"
  by (induction es arbitrary: out) (auto simp: clean_step_def plain_elem_def)

lemma split_on_join_plain:
  "es \<noteq> [] \<Longrightarrow> \<forall>e \<in> set es. CHR ''/'' \<notin> set e \<Longrightarrow> split_on CHR ''/'' (join ''/'' es) = es"
proof (induction es rule: induct_list012)
  case (3 e e' es)
  have "split_on c (e @ c # r) = e # split_on c r" if "c \<notin> set e" for c e r
    using that by (induction e) auto
  then show ?case using 3 by simp
qed (simp_all add: split_on_no_sep)

text \<open>A cleaned rooted path: a slash, then plain elements with slashes between; cleaning it again changes nothing.\<close>

lemma path_clean_rooted:
  "\<exists>es. path_clean (CHR ''/'' # p) = CHR ''/'' # join ''/'' es \<and> (\<forall>e \<in> set es. plain_elem e)"
proof -
  have "\<forall>e \<in> set (split_on CHR ''/'' (CHR ''/'' # p)). CHR ''/'' \<notin> set e"
    using split_on_labels by blast
  then have "\<forall>e \<in> set (foldl (clean_step True) [] (split_on CHR ''/'' (CHR ''/'' # p))). plain_elem e"
    by (rule clean_fold_plain [rotated]) simp
  then show ?thesis by (auto simp: path_clean_def)
qed

lemma path_clean_plain:
  "\<forall>e \<in> set es. plain_elem e \<Longrightarrow> path_clean (CHR ''/'' # join ''/'' es) = CHR ''/'' # join ''/'' es"
proof -
  assume a: "\<forall>e \<in> set es. plain_elem e"
  have "split_on CHR ''/'' (CHR ''/'' # join ''/'' es) = [] # (if es = [] then [[]] else es)"
    using a split_on_join_plain [of es] by (auto simp: plain_elem_def)
  moreover have "foldl (clean_step True) [] ([] # (if es = [] then [[]] else es)) = rev es"
    using clean_fold_id [OF a, of "[]"] by (simp add: clean_step_def)
  ultimately show ?thesis by (simp add: path_clean_def)
qed

lemma path_clean_idem: "path_clean (path_clean (CHR ''/'' # p)) = path_clean (CHR ''/'' # p)"
  using path_clean_rooted [of p] path_clean_plain by auto

section \<open>Queries\<close>

text \<open>\<open>url.QueryEscape\<close> and \<open>url.QueryUnescape\<close>; \<open>None\<close> is a malformed escape.\<close>

definition unreserved :: "char \<Rightarrow> bool" where
  "unreserved c \<longleftrightarrow> is_digit c \<or> (97 \<le> byte_of c \<and> byte_of c \<le> 122) \<or> (65 \<le> byte_of c \<and> byte_of c \<le> 90) \<or> c \<in> set ''-_.~''"

definition upper_hex :: "nat \<Rightarrow> char" where
  "upper_hex n = ''0123456789ABCDEF'' ! n"

definition escape_char :: "char \<Rightarrow> string" where
  "escape_char c = (if unreserved c then [c] else if c = CHR '' '' then ''+''
     else [CHR ''%'', upper_hex (of_char c div 16), upper_hex (of_char c mod 16)])"

definition query_escape :: "string \<Rightarrow> string" where
  "query_escape s = concat (map escape_char s)"

fun query_unescape :: "string \<Rightarrow> string option" where
  "query_unescape [] = Some []"
| "query_unescape (c # s) =
     (if c = CHR ''%'' then (case s of
          x # y # r \<Rightarrow> (case (hex_val x, hex_val y) of
              (Some a, Some b) \<Rightarrow> map_option (\<lambda>t. char_of (a * 16 + b) # t) (query_unescape r)
            | _ \<Rightarrow> None)
        | _ \<Rightarrow> None)
      else map_option ((#) (if c = CHR ''+'' then CHR '' '' else c)) (query_unescape s))"

type_synonym url_values = "(string, string list) gomap"

definition values_add :: "string \<Rightarrow> string \<Rightarrow> url_values \<Rightarrow> url_values" where
  "values_add k v m = AList.update k ((case map_of m k of Some vs \<Rightarrow> vs | None \<Rightarrow> []) @ [v]) m"

definition values_get :: "string \<Rightarrow> url_values \<Rightarrow> string" where
  "values_get k m = (case map_of m k of Some (v # vs) \<Rightarrow> v | _ \<Rightarrow> [])"

definition query_pair :: "string \<times> string \<Rightarrow> string" where
  "query_pair kv = query_escape (fst kv) @ ''='' @ query_escape (snd kv)"

text \<open>\<open>Encode\<close> sorts by key.\<close>

definition values_encode :: "url_values \<Rightarrow> string" where
  "values_encode m = join ''&'' (map query_pair
     (concat (map (\<lambda>k. map (Pair k) (the (map_of m k))) (sort (map fst m)))))"

text \<open>\<open>ParseQuery\<close> as \<open>Query\<close> uses it: a malformed pair is skipped and its error forgotten.\<close>

definition parse_pair :: "string \<Rightarrow> (string \<times> string) option" where
  "parse_pair s =
     (if CHR '';'' \<in> set s \<or> s = [] then None
      else case (query_unescape (takeWhile (\<lambda>c. c \<noteq> CHR ''='') s), query_unescape (drop 1 (dropWhile (\<lambda>c. c \<noteq> CHR ''='') s))) of
          (Some k, Some v) \<Rightarrow> Some (k, v) | _ \<Rightarrow> None)"

definition parse_query :: "string \<Rightarrow> url_values" where
  "parse_query q = foldl (\<lambda>m s. case parse_pair s of Some (k, v) \<Rightarrow> values_add k v m | None \<Rightarrow> m) [] (split_on CHR ''&'' q)"

lemma hex_val_upper: "n < 16 \<Longrightarrow> hex_val (upper_hex n) = Some n"
proof -
  have "\<forall>n \<in> set [0..<16]. hex_val (upper_hex n) = Some n" by code_simp
  then show "n < 16 \<Longrightarrow> hex_val (upper_hex n) = Some n" by simp
qed

lemma byte_digits: "byte_of c div 16 < (16 :: nat)" "byte_of c mod 16 < (16 :: nat)"
  using nat_of_char_less_256 [of c] by (simp_all add: less_mult_imp_div_less del: nat_of_char_less_256)

lemma escape_char_not_reserved: "c \<in> set ''&;='' \<Longrightarrow> c \<notin> set (escape_char d)"
proof -
  assume c: "c \<in> set ''&;=''"
  then have not_plain: "\<not> unreserved c" by (auto simp: unreserved_def is_digit_def)
  have hex: "upper_hex n \<noteq> c" if "n < 16" for n
  proof -
    have "upper_hex n \<in> set ''0123456789ABCDEF''" unfolding upper_hex_def using that by (intro nth_mem) simp
    then show ?thesis using c by auto
  qed
  note not_plain
  moreover have "upper_hex (byte_of d div 16) \<noteq> c" "upper_hex (byte_of d mod 16) \<noteq> c"
    by (rule hex, rule byte_digits)+
  moreover have "c \<noteq> CHR ''%''" "c \<noteq> CHR ''+''" using c by auto
  ultimately show ?thesis by (auto simp: escape_char_def)
qed

lemma unescape_escape_char: "query_unescape (escape_char c @ s) = map_option ((#) c) (query_unescape s)"
proof (cases "unreserved c")
  case True
  have "\<not> unreserved CHR ''%''" "\<not> unreserved CHR ''+''" by (simp_all add: unreserved_def is_digit_def)
  then have "c \<noteq> CHR ''%''" "c \<noteq> CHR ''+''" using True by auto
  then show ?thesis using True by (simp add: escape_char_def)
next
  case False
  define a b where "a = (byte_of c div 16 :: nat)" and "b = (byte_of c mod 16 :: nat)"
  have ab: "a < 16" "b < 16" "char_of (a * 16 + b) = c" unfolding a_def b_def using byte_digits by simp_all
  have "hex_val (upper_hex a) = Some a" "hex_val (upper_hex b) = Some b" using ab hex_val_upper by simp_all
  then have "query_unescape ([CHR ''%'', upper_hex a, upper_hex b] @ s) = map_option ((#) c) (query_unescape s)"
    using ab(3) by simp
  then show ?thesis using False by (cases "c = CHR '' ''") (simp_all add: escape_char_def a_def b_def)
qed

lemma unescape_escape: "query_unescape (query_escape s) = Some s"
  by (induction s) (simp_all add: query_escape_def unescape_escape_char)

lemma query_escape_chars: "c \<in> set ''&;='' \<Longrightarrow> c \<notin> set (query_escape s)"
  using escape_char_not_reserved by (auto simp: query_escape_def)

lemma parse_query_pair: "parse_pair (query_pair kv) = Some kv"
proof -
  have k: "CHR ''='' \<notin> set (query_escape (fst kv))" by (rule query_escape_chars) simp
  have "CHR '';'' \<notin> set (query_pair kv)" using query_escape_chars [of "CHR '';''"] by (simp add: query_pair_def)
  moreover have "takeWhile (\<lambda>c. c \<noteq> CHR ''='') (query_pair kv) = query_escape (fst kv)"
    "dropWhile (\<lambda>c. c \<noteq> CHR ''='') (query_pair kv) = CHR ''='' # query_escape (snd kv)"
    using cut_at [OF k, of "query_escape (snd kv)"] by (simp_all add: query_pair_def)
  moreover have "query_pair kv \<noteq> []" by (simp add: query_pair_def)
  ultimately show ?thesis by (simp add: parse_pair_def unescape_escape)
qed

lemma split_pairs:
  "ps \<noteq> [] \<Longrightarrow> split_on CHR ''&'' (join ''&'' (map query_pair ps)) = map query_pair ps"
proof (induction ps rule: induct_list012)
  case (2 p)
  have "CHR ''&'' \<notin> set (query_pair p)" using query_escape_chars [of "CHR ''&''"] by (simp add: query_pair_def)
  then show ?case by (simp add: split_on_no_sep)
next
  case (3 p p' ps)
  have n: "CHR ''&'' \<notin> set (query_pair p)" using query_escape_chars [of "CHR ''&''"] by (simp add: query_pair_def)
  have "split_on c (e @ c # r) = e # split_on c r" if "c \<notin> set e" for c e r
    using that by (induction e) auto
  then show ?case using 3 n by simp
qed simp

lemma parse_query_pairs:
  "parse_query (join ''&'' (map query_pair ps)) = foldl (\<lambda>m (k, v). values_add k v m) [] ps"
proof (cases "ps = []")
  case False
  have "foldl (\<lambda>m s. case parse_pair s of Some (k, v) \<Rightarrow> values_add k v m | None \<Rightarrow> m) m (map query_pair ps) =
      foldl (\<lambda>m (k, v). values_add k v m) m ps" for m
    by (induction ps arbitrary: m) (simp_all add: parse_query_pair)
  then show ?thesis by (simp add: parse_query_def split_pairs [OF False])
qed (simp add: parse_query_def parse_pair_def)

lemma values_add_fold:
  "distinct (map fst ps) \<Longrightarrow> \<forall>k \<in> set (map fst ps). map_of m k = None \<Longrightarrow>
   map_of (foldl (\<lambda>m (k, v). values_add k v m) m ps) k =
     (case map_of ps k of Some v \<Rightarrow> Some [v] | None \<Rightarrow> map_of m k)"
proof (induction ps arbitrary: m)
  case (Cons p ps)
  obtain a b where p: "p = (a, b)" by fastforce
  have "\<forall>k \<in> set (map fst ps). map_of (values_add a b m) k = None"
    using Cons.prems p by (auto simp: values_add_def go_simps)
  from Cons.IH [OF _ this] Cons.prems p show ?case
    by (auto simp: values_add_def go_simps map_of_eq_None_iff [symmetric] split: option.split)
qed simp

section \<open>JSON values\<close>

text \<open>
  A configuration file is YAML; the third-party reader turns it into JSON, which \<open>encoding/json\<close> hands to the
  \<open>UnmarshalJSON\<close> of a URL as the text of one valid value. \<open>foldname\<close> is the folding under which \<open>encoding/json\<close>
  compares the keys of objects with the names of fields.
\<close>

datatype json = JNull | JBool bool | JNumber string | JString string | JArray "json list" | JObject "(string \<times> json) list"

definition type_error :: "string \<Rightarrow> goerr" where
  "type_error t = ErrText (''json: cannot unmarshal value into Go value of type '' @ t)"

text \<open>Decoding into a string leaves it alone at null. Errors are saved: decoding goes on and the first one is returned.\<close>

definition json_string :: "json \<Rightarrow> string \<Rightarrow> goerr option \<times> string" where
  "json_string j old = (case j of JString s \<Rightarrow> (None, s) | JNull \<Rightarrow> (None, old) | _ \<Rightarrow> (Some (type_error ''string''), old))"

definition first_err :: "goerr option \<Rightarrow> goerr option \<Rightarrow> goerr option" where
  "first_err e f = (case e of None \<Rightarrow> f | Some _ \<Rightarrow> e)"

record parts =
  pt_username :: string
  pt_password :: string
  pt_protocol :: string
  pt_host :: string
  pt_path :: string
  pt_options :: "(string, string) gomap"

definition no_parts :: parts where
  "no_parts = \<lparr>pt_username = [], pt_password = [], pt_protocol = [], pt_host = [], pt_path = [], pt_options = []\<rparr>"

text \<open>A map is decoded entry by entry into the map that is there; null leaves a nil map.\<close>

definition json_options :: "json \<Rightarrow> (string, string) gomap \<Rightarrow> goerr option \<times> (string, string) gomap" where
  "json_options j m = (case j of
     JNull \<Rightarrow> (None, [])
   | JObject kvs \<Rightarrow> foldl (\<lambda>(e, m) (k, x). let (e', s) = json_string x [] in (first_err e e', AList.update k s m)) (None, m) kvs
   | _ \<Rightarrow> (Some (type_error ''map[string]string''), m))"

definition parts_field :: "(string \<Rightarrow> string) \<Rightarrow> goerr option \<times> parts \<Rightarrow> string \<times> json \<Rightarrow> goerr option \<times> parts" where
  "parts_field foldname ep kx =
     (let (e, p) = ep; (k, x) = kx; is = (\<lambda>name. foldname k = foldname name) in
      if is ''username'' then (let (e', s) = json_string x (pt_username p) in (first_err e e', p\<lparr>pt_username := s\<rparr>))
      else if is ''password'' then (let (e', s) = json_string x (pt_password p) in (first_err e e', p\<lparr>pt_password := s\<rparr>))
      else if is ''protocol'' then (let (e', s) = json_string x (pt_protocol p) in (first_err e e', p\<lparr>pt_protocol := s\<rparr>))
      else if is ''host'' then (let (e', s) = json_string x (pt_host p) in (first_err e e', p\<lparr>pt_host := s\<rparr>))
      else if is ''path'' then (let (e', s) = json_string x (pt_path p) in (first_err e e', p\<lparr>pt_path := s\<rparr>))
      else if is ''options'' then (let (e', m) = json_options x (pt_options p) in (first_err e e', p\<lparr>pt_options := m\<rparr>))
      else (e, p))"

definition json_parts :: "(string \<Rightarrow> string) \<Rightarrow> json \<Rightarrow> goerr option \<times> parts" where
  "json_parts foldname j = (case j of
     JNull \<Rightarrow> (None, no_parts)
   | JObject kvs \<Rightarrow> foldl (parts_field foldname) (None, no_parts) kvs
   | _ \<Rightarrow> (Some (type_error ''app.Parts''), no_parts))"

section \<open>Proxy URLs\<close>

text \<open>\<open>url.URL\<close>; the user is a name and an optional password.\<close>

record url =
  u_scheme :: string
  u_opaque :: string
  u_user :: "(string \<times> string option) option"
  u_host :: string
  u_path :: string
  u_raw_query :: string
  u_fragment :: string

definition empty_url :: url where
  "empty_url = \<lparr>u_scheme = [], u_opaque = [], u_user = None, u_host = [], u_path = [], u_raw_query = [], u_fragment = []\<rparr>"

text \<open>\<open>parse\<close> is \<open>url.URL.UnmarshalBinary\<close>. A string is a URL; so is null, as the empty string.\<close>

definition url_unmarshal_json :: "(string \<Rightarrow> url res) \<Rightarrow> (string \<Rightarrow> string) \<Rightarrow> json \<Rightarrow> url \<Rightarrow> url res" where
  "url_unmarshal_json parse foldname j u =
     (case json_string j [] of
        (None, text) \<Rightarrow> parse text
      | (Some _, _) \<Rightarrow>
          (case json_parts foldname j of
             (Some e, _) \<Rightarrow> Inl (ErrWrap ''failed to unmarshal URL: '' e)
           | (None, p) \<Rightarrow>
               let u = u\<lparr>u_scheme := pt_protocol p, u_host := pt_host p, u_path := path_clean (CHR ''/'' # pt_path p)\<rparr>;
                   u = (if pt_username p \<noteq> [] \<or> pt_password p \<noteq> []
                        then u\<lparr>u_user := Some (pt_username p, Some (pt_password p))\<rparr> else u);
                   u = (if pt_options p \<noteq> []
                        then u\<lparr>u_raw_query := values_encode (foldl (\<lambda>q (k, v). values_add k v q) [] (pt_options p))\<rparr> else u)
               in Inr u))"

section \<open>The configuration file\<close>

text \<open>The parts of \<open>os\<close> that the file handling uses, over a world \<open>'w\<close>.\<close>

record 'w fs =
  fs_home :: "'w \<Rightarrow> string res"
  fs_stat :: "string \<Rightarrow> 'w \<Rightarrow> goerr option"
  fs_not_exist :: "goerr \<Rightarrow> bool"
  fs_mkdir_all :: "string \<Rightarrow> nat \<Rightarrow> 'w \<Rightarrow> goerr option \<times> 'w"
  fs_write_file :: "string \<Rightarrow> string \<Rightarrow> nat \<Rightarrow> 'w \<Rightarrow> goerr option \<times> 'w"
  fs_open :: "string \<Rightarrow> 'w \<Rightarrow> goerr option"
  fs_read_all :: "string \<Rightarrow> 'w \<Rightarrow> string res"

definition expand_user :: "'w fs \<Rightarrow> string \<Rightarrow> 'w \<Rightarrow> string res" where
  "expand_user F p w =
     (let (s, found) = cut_prefix p ''~/'' in
      if \<not> found then Inr s
      else (case fs_home F w of
          Inl e \<Rightarrow> Inl (ErrWrap ''cannot expand '' e)
        | Inr home \<Rightarrow> Inr (path_join [home, s])))"

definition default_config_path :: string where
  "default_config_path = ''~/.config/pacman/config''"

text \<open>The modes are 0o755 and 0o600; \<open>default_config\<close> is the embedded file.\<close>

definition ensure_default_config_file :: "'w fs \<Rightarrow> string \<Rightarrow> 'w \<Rightarrow> string res \<times> 'w" where
  "ensure_default_config_file F default_config w =
     (case expand_user F default_config_path w of
        Inl e \<Rightarrow> (Inl e, w)
      | Inr s \<Rightarrow> (case fs_stat F s w of
          None \<Rightarrow> (Inr default_config_path, w)
        | Some e \<Rightarrow>
            if \<not> fs_not_exist F e then (Inl e, w)
            else (case fs_mkdir_all F (path_dir s) 493 w of
                (Some e, w) \<Rightarrow> (Inl e, w)
              | (None, w) \<Rightarrow> (case fs_write_file F s default_config 384 w of
                  (Some e, w) \<Rightarrow> (Inl e, w)
                | (None, w) \<Rightarrow> (Inr default_config_path, w)))))"

record cfg_rule =
  cr_hosts :: "string list"
  cr_proxies :: "string list"

text \<open>Proxies and rules are pointers, which null leaves nil.\<close>

record config =
  cf_path :: string
  cf_listen :: string
  cf_proxies :: "(string, url option) gomap"
  cf_rules :: "cfg_rule option list"

text \<open>\<open>decode\<close> is the third-party YAML reader into the \<open>Config\<close> type.\<close>

definition parse_config_file :: "'w fs \<Rightarrow> (string \<Rightarrow> config res) \<Rightarrow> string \<Rightarrow> 'w \<Rightarrow> config res" where
  "parse_config_file F decode path w =
     (case expand_user F path w of
        Inl e \<Rightarrow> Inl e
      | Inr s \<Rightarrow> (case fs_open F s w of
          Some e \<Rightarrow> Inl e
        | None \<Rightarrow> (case fs_read_all F s w of
            Inl e \<Rightarrow> Inl e
          | Inr dat \<Rightarrow> (case decode dat of Inl e \<Rightarrow> Inl e | Inr rs \<Rightarrow> Inr (rs\<lparr>cf_path := path\<rparr>)))))"

lemma values_options:
  assumes "distinct (map fst opts)"
  shows "map_of (foldl (\<lambda>q (k, v). values_add k v q) [] opts) k = map_option (\<lambda>v. [v]) (map_of opts k)"
  using values_add_fold [OF assms, of "[]" k] by (simp split: option.split)

lemma values_fold_distinct: "distinct (map fst m) \<Longrightarrow> distinct (map fst (foldl (\<lambda>q (k, v). values_add k v q) m ps))"
  by (induction ps arbitrary: m) (auto simp: values_add_def distinct_update split: prod.split)

lemma concat_singletons: "concat (map (\<lambda>x. [f x]) xs) = map f xs"
  by (induction xs) auto

text \<open>The query that the options become reads back to the options.\<close>

lemma query_of_options:
  assumes "distinct (map fst opts)"
  shows "values_get k (parse_query (values_encode (foldl (\<lambda>q (k, v). values_add k v q) [] opts))) =
    (case map_of opts k of Some v \<Rightarrow> v | None \<Rightarrow> [])"
proof -
  define q where "q = foldl (\<lambda>q (k, v). values_add k v q) [] opts"
  have q: "map_of q k = map_option (\<lambda>v. [v]) (map_of opts k)" for k
    unfolding q_def by (rule values_options [OF assms])
  have dq: "distinct (map fst q)" unfolding q_def by (rule values_fold_distinct) simp
  define ps where "ps = map (\<lambda>k. (k, the (map_of opts k))) (sort (map fst q))"
  have keys: "k \<in> set (map fst q) \<longleftrightarrow> map_of opts k \<noteq> None" for k
    using q [of k] by (metis map_of_eq_None_iff option.map_disc_iff set_map)
  have "map (Pair k) (the (map_of q k)) = [(k, the (map_of opts k))]" if "k \<in> set (sort (map fst q))" for k
    using that keys [of k] q [of k] by auto
  then have m: "map (\<lambda>k. map (Pair k) (the (map_of q k))) (sort (map fst q)) = map (\<lambda>k. [(k, the (map_of opts k))]) (sort (map fst q))"
    by (intro map_cong) auto
  have enc: "values_encode q = join ''&'' (map query_pair ps)"
    unfolding values_encode_def m concat_singletons ps_def ..
  have "distinct (map fst ps)" by (simp add: ps_def comp_def dq)
  then have "map_of (parse_query (values_encode q)) k = map_option (\<lambda>v. [v]) (map_of ps k)"
    unfolding enc parse_query_pairs by (rule values_options)
  moreover have "map_of ps k = map_of opts k"
    using keys [of k] by (auto simp: ps_def map_of_map_restrict restrict_map_def)
  ultimately show ?thesis by (simp add: values_get_def q_def split: option.split)
qed

section \<open>What decoding leaves\<close>

lemma json_options_distinct:
  "distinct (map fst m) \<Longrightarrow> distinct (map fst (snd (json_options j m)))"
proof -
  have "distinct (map fst m) \<Longrightarrow> distinct (map fst (snd (foldl (\<lambda>(e, m) (k, x).
      let (e', s) = json_string x [] in (first_err e e', AList.update k s m)) (e, m) kvs)))" for kvs e m
  proof (induction kvs arbitrary: e m)
    case (Cons kx kvs)
    then show ?case by (cases kx) (simp add: case_prod_beta Let_def distinct_update)
  qed simp
  then show "distinct (map fst m) \<Longrightarrow> ?thesis" by (auto simp: json_options_def split: json.split)
qed

lemma parts_field_distinct:
  "distinct (map fst (pt_options (snd ep))) \<Longrightarrow> distinct (map fst (pt_options (snd (parts_field foldname ep kx))))"
  using json_options_distinct by (auto simp: parts_field_def Let_def split: prod.split) (metis snd_conv)

lemma json_parts_distinct: "distinct (map fst (pt_options (snd (json_parts foldname j))))"
proof -
  have "distinct (map fst (pt_options (snd ep))) \<Longrightarrow>
      distinct (map fst (pt_options (snd (foldl (parts_field foldname) ep kvs))))" for ep kvs
    by (induction kvs arbitrary: ep) (simp_all add: parts_field_distinct)
  then show ?thesis by (auto simp: json_parts_def no_parts_def split: json.split)
qed

lemma parse_query_empty: "parse_query [] = []"
  by (simp add: parse_query_def parse_pair_def)

section \<open>Properties\<close>

text \<open>A URL given in parts: its path, user and query.\<close>

lemma url_of_parts:
  assumes "url_unmarshal_json parse foldname (JObject kvs) empty_url = Inr u"
  defines "p \<equiv> snd (json_parts foldname (JObject kvs))"
  shows "u_path u = path_clean (CHR ''/'' # pt_path p)"
    and "u_user u = (if pt_username p = [] \<and> pt_password p = [] then None else Some (pt_username p, Some (pt_password p)))"
    and "values_get k (parse_query (u_raw_query u)) = (case map_of (pt_options p) k of Some v \<Rightarrow> v | None \<Rightarrow> [])"
proof -
  have p: "json_parts foldname (JObject kvs) = (None, p)"
    using assms by (auto simp: url_unmarshal_json_def json_string_def split: prod.splits option.splits)
  then have q: "u_raw_query u = (if pt_options p = [] then [] else values_encode (foldl (\<lambda>q (k, v). values_add k v q) [] (pt_options p)))"
    and "u_path u = path_clean (CHR ''/'' # pt_path p)"
    and "u_user u = (if pt_username p = [] \<and> pt_password p = [] then None else Some (pt_username p, Some (pt_password p)))"
    using assms(1) by (auto simp: url_unmarshal_json_def json_string_def Let_def empty_url_def split: if_splits)
  then show "u_path u = path_clean (CHR ''/'' # pt_path p)"
    and "u_user u = (if pt_username p = [] \<and> pt_password p = [] then None else Some (pt_username p, Some (pt_password p)))" by blast+
  have "distinct (map fst (pt_options p))" using json_parts_distinct [of foldname "JObject kvs"] p by simp
  from query_of_options [OF this, of k] show "values_get k (parse_query (u_raw_query u)) = (case map_of (pt_options p) k of Some v \<Rightarrow> v | None \<Rightarrow> [])"
    using q by (auto simp: parse_query_empty values_get_def)
qed

text \<open>C34: a proxy written as an object of parts has a rooted path without empty, \<open>.\<close> or \<open>..\<close> elements, which cleaning
  again does not change, and a query from which every option reads back as it was written, whatever
  characters it contains.\<close>

theorem url_parts_read_back:
  assumes "url_unmarshal_json parse foldname (JObject kvs) empty_url = Inr u"
  shows "(\<exists>es. u_path u = CHR ''/'' # join ''/'' es \<and> (\<forall>e \<in> set es. plain_elem e)) \<and>
    path_clean (u_path u) = u_path u \<and>
    values_get k (parse_query (u_raw_query u)) =
      (case map_of (pt_options (snd (json_parts foldname (JObject kvs)))) k of Some v \<Rightarrow> v | None \<Rightarrow> [])"
  unfolding url_of_parts(1,3) [OF assms]
  using path_clean_rooted [of "pt_path (snd (json_parts foldname (JObject kvs)))"]
    path_clean_idem [of "pt_path (snd (json_parts foldname (JObject kvs)))"] by blast

lemma url_parts_read_back_witness:
  "values_get ''otp'' (parse_query (u_raw_query (empty_url\<lparr>u_scheme := ''gp'', u_path := ''/'',
     u_raw_query := ''otp=a+b%26c''\<rparr>))) = ''a b&c''"
proof -
  let ?j = "JObject [(''protocol'', JString ''gp''), (''options'', JObject [(''otp'', JString ''a b&c'')])]"
  have "url_unmarshal_json (\<lambda>s. Inr empty_url) (\<lambda>s. s) ?j empty_url = Inr (empty_url\<lparr>u_scheme := ''gp'', u_path := ''/'', u_raw_query := ''otp=a+b%26c''\<rparr>)"
    by (simp add: url_unmarshal_json_def json_string_def json_parts_def parts_field_def json_options_def first_err_def no_parts_def
      path_clean_def clean_step_def values_encode_def values_add_def query_pair_def query_escape_def escape_char_def unreserved_def
      is_digit_def upper_hex_def empty_url_def)
  from url_parts_read_back [OF this, of "''otp''"] show ?thesis
    by (simp add: json_parts_def parts_field_def json_options_def json_string_def first_err_def no_parts_def)
qed

text \<open>\<open>EnsureDefaultConfigFile\<close> touches the file system only when the file is reported missing; when it succeeds,
  the file was there or the default was written to it.\<close>

theorem default_config_not_overwritten:
  assumes "expand_user F default_config_path w = Inr s"
  shows "case ensure_default_config_file F text w of (r, w') \<Rightarrow>
    (w' \<noteq> w \<longrightarrow> (\<exists>e. fs_stat F s w = Some e \<and> fs_not_exist F e)) \<and>
    (case r of Inr p \<Rightarrow> p = default_config_path \<and>
        (fs_stat F s w = None \<and> w' = w \<or>
         (\<exists>w1. fs_mkdir_all F (path_dir s) 493 w = (None, w1) \<and> fs_write_file F s text 384 w1 = (None, w')))
      | Inl e \<Rightarrow> fs_stat F s w \<noteq> None)"
  using assms
  by (auto simp: ensure_default_config_file_def split: option.split prod.split sum.split)

definition sample_fs :: "(string \<times> string) list fs" where
  "sample_fs = \<lparr>fs_home = (\<lambda>w. Inr ''/home/a''), fs_stat = (\<lambda>p w. if map_of w p = None then Some ErrEOF else None),
     fs_not_exist = (\<lambda>e. True), fs_mkdir_all = (\<lambda>p m w. (None, w)), fs_write_file = (\<lambda>p d m w. (None, AList.update p d w)),
     fs_open = (\<lambda>p w. if map_of w p = None then Some ErrEOF else None), fs_read_all = (\<lambda>p w. Inr (the (map_of w p)))\<rparr>"

lemma default_config_not_overwritten_witness:
  "fs_write_file sample_fs ''/home/a/.config/pacman/config'' ''x'' 384 [] =
    (None, snd (ensure_default_config_file sample_fs ''x'' []))"
proof -
  have e: "expand_user sample_fs default_config_path [] = Inr ''/home/a/.config/pacman/config''"
    by (simp add: expand_user_def default_config_path_def sample_fs_def cut_prefix_def has_prefix_def path_join_def
      path_clean_def clean_step_def)
  have r: "ensure_default_config_file sample_fs ''x'' [] = (Inr default_config_path, [(''/home/a/.config/pacman/config'', ''x'')])"
    unfolding ensure_default_config_file_def e by (simp add: sample_fs_def)
  show ?thesis
    using default_config_not_overwritten [OF e, of "''x''"] unfolding r by (auto simp: sample_fs_def)
qed

end
