(* ===== verification/PacMan.thy ===== *)
theory PacMan
  imports AppConfig Dialers Notify LazyDialer
begin

text \<open>
  The application's core: \<open>internal/app/pool.go\<close> and \<open>internal/app/app.go\<close>. A pool of lazy dialers, one per
  configured proxy; loading a configuration reuses, replaces, adds and closes them and swaps the rule set.
\<close>

section \<open>Pooled dialers\<close>

text \<open>Durations are 64-bit numbers of nanoseconds: the product with a second wraps around.\<close>

definition second :: int where
  "second = 1000000000"

definition duration_mult :: "int \<Rightarrow> int \<Rightarrow> int" where
  "duration_mult a b = signed_take_bit 63 (a * b)"

definition url_query :: "url \<Rightarrow> url_values" where
  "url_query u = parse_query (u_raw_query u)"

definition pool_timeout :: "url \<Rightarrow> int" where
  "pool_timeout u =
     (let t = values_get ''timeout'' (url_query u) in
      if t = [] then 3600 * second
      else (case atoi t of Inr i \<Rightarrow> duration_mult i second | Inl _ \<Rightarrow> 3600 * second))"

datatype pool_action = CloseDialer | ResetDialer

text \<open>The menu item shows text, badge and, unless the dialer is offline, a child item with an action.\<close>

record pooled =
  pd_label :: string
  pd_url :: url
  pd_timeout :: int
  pd_cancelled :: bool
  pd_text :: string
  pd_badge :: string
  pd_submenu :: bool
  pd_child :: "string \<times> pool_action option"

text \<open>White, green, red and yellow circles in UTF-8.\<close>

fun icon :: "conn_state \<Rightarrow> string" where
  "icon Offline = [CHR 0xE2, CHR 0x9A, CHR 0xAA]"
| "icon Online = [CHR 0xF0, CHR 0x9F, CHR 0x9F, CHR 0xA2]"
| "icon Failed = [CHR 0xF0, CHR 0x9F, CHR 0x94, CHR 0xB4]"
| "icon Connecting = [CHR 0xF0, CHR 0x9F, CHR 0x9F, CHR 0xA1]"

fun pool_action_of :: "conn_state \<Rightarrow> string \<times> pool_action option" where
  "pool_action_of Offline = (''Offline'', None)"
| "pool_action_of Failed = (''Reset'', Some ResetDialer)"
| "pool_action_of Online = (''Disconnect'', Some CloseDialer)"
| "pool_action_of Connecting = (''Disconnect'', Some CloseDialer)"

definition update_pool_menu :: "conn_state \<Rightarrow> pooled \<Rightarrow> pooled" where
  "update_pool_menu st pd =
     (let pd = pd\<lparr>pd_text := icon st @ '' '' @ pd_label pd, pd_badge := conn_state_string (conn_state_code st)\<rparr> in
      if st = Offline then pd\<lparr>pd_submenu := False\<rparr>
      else pd\<lparr>pd_submenu := True, pd_child := pool_action_of st\<rparr>)"

definition new_pooled_dialer :: "string \<Rightarrow> url \<Rightarrow> pooled" where
  "new_pooled_dialer l u = update_pool_menu Offline
     \<lparr>pd_label = l, pd_url = u, pd_timeout = pool_timeout u, pd_cancelled = False, pd_text = [], pd_badge = [],
      pd_submenu = False, pd_child = ([], None)\<rparr>"

text \<open>The status notification; \<open>err_text\<close> is the error's \<open>Error\<close> method, \<open>banner\<close> the framework's option.\<close>

definition pool_notification :: "int \<Rightarrow> (goerr \<Rightarrow> string) \<Rightarrow> pooled \<Rightarrow> conn_state \<Rightarrow> goerr option \<Rightarrow> notification" where
  "pool_notification banner err_text pd st err =
     (let (sub, body) = (case st of
            Offline \<Rightarrow> (''Proxy disconnected'', ''The connection was terminated.'')
          | Connecting \<Rightarrow> (''Connecting to proxy'', ''The connection to the proxy is being established.'')
          | Online \<Rightarrow> (''Proxy connected'', ''The proxy connection has been established.'')
          | Failed \<Rightarrow> (''Proxy connection failed'', []));
          body = (case err of None \<Rightarrow> body
            | Some e \<Rightarrow> (if body \<noteq> [] then body @ [CHR 0x0A] else body) @ err_text e)
      in \<lparr>nt_category = [], nt_identifier = ''status:'' @ pd_label pd, nt_title = pd_label pd, nt_subtitle = sub,
          nt_body = body, nt_presentation = banner, nt_interruption = 0\<rparr>)"

text \<open>
  \<open>Track\<close> is the body of a loop over \<open>Subscribe\<close>. A wake-up is the dialer's state and whether the pooled
  dialer's context is cancelled by then; the result tells whether the goroutine has ended, the menu item and the
  notifications sent.
\<close>

fun track ::
  "int \<Rightarrow> (goerr \<Rightarrow> string) \<Rightarrow> conn_state \<Rightarrow> pooled \<times> notification list \<Rightarrow> ('d lazy \<times> bool) list \<Rightarrow>
   bool \<times> (pooled \<times> notification list)" where
  "track banner err_text prev s [] = (False, s)"
| "track banner err_text prev s ((d, cancelled) # ws) =
     (case subscribe_wake prev d of
        (st, None) \<Rightarrow> track banner err_text st s ws
      | (st, Some (x, err)) \<Rightarrow>
          let pd = update_pool_menu x (fst s); s = (pd, snd s @ [pool_notification banner err_text pd x err]) in
          if cancelled then (True, s) else track banner err_text st s ws)"

text \<open>\<open>MenuItems\<close>: the items in the order of the labels.\<close>

definition pool_menu_items :: "(string, nat) gomap \<Rightarrow> nat list" where
  "pool_menu_items pool = map (\<lambda>k. the (map_of pool k)) (sort (map fst pool))"

section \<open>Loading a configuration\<close>

text \<open>What a rule dials: a pooled dialer's lazy dialer, the same behind a rewriting dialer, or a chain of them.\<close>

datatype target = ToLazy nat | ToRewriting nat string | ToChain "nat list"

record pacman =
  pm_pds :: "pooled list"
  pm_pool :: "(string, nat) gomap"
  pm_rs :: "target option trie option"
  pm_closed :: "nat list"
  pm_tracked :: "nat list"

definition pd_close :: "nat \<Rightarrow> pacman \<Rightarrow> pacman" where
  "pd_close i s = s\<lparr>pm_pds := (pm_pds s)[i := (pm_pds s ! i)\<lparr>pd_cancelled := True\<rparr>], pm_closed := pm_closed s @ [i]\<rparr>"

text \<open>Deferred calls run last first.\<close>

definition run_deferred :: "nat list \<Rightarrow> pacman \<Rightarrow> pacman" where
  "run_deferred ds s = foldl (\<lambda>s i. pd_close i s) s (rev ds)"

text \<open>
  The loop over the proxies, in the order of \<open>range\<close>; a nil URL is a panic (\<open>None\<close>). \<open>us\<close> is \<open>url.URL.String\<close>.
  The state is the application, the new rule set and the deferred closes.
\<close>

fun load_proxies ::
  "(string \<Rightarrow> string) \<Rightarrow> (nat \<Rightarrow> nat \<Rightarrow> nat) \<Rightarrow> (url \<Rightarrow> string) \<Rightarrow> (string \<times> url option) list \<Rightarrow>
   pacman \<times> target option trie \<times> nat list \<Rightarrow> (pacman \<times> target option trie \<times> nat list) option" where
  "load_proxies ul grow us [] st = Some st"
| "load_proxies ul grow us ((k, u) # ps) (s, rs, ds) =
     (case u of
        None \<Rightarrow> None
      | Some u \<Rightarrow>
          let (pd, s, ds) = (case map_of (pm_pool s) k of
                Some i \<Rightarrow> if us (pd_url (pm_pds s ! i)) = us u then (i, s, ds)
                  else (length (pm_pds s), s\<lparr>pm_pds := pm_pds s @ [new_pooled_dialer k u],
                    pm_pool := AList.update k (length (pm_pds s)) (pm_pool s), pm_tracked := pm_tracked s @ [length (pm_pds s)]\<rparr>, ds @ [i])
              | None \<Rightarrow> (length (pm_pds s), s\<lparr>pm_pds := pm_pds s @ [new_pooled_dialer k u],
                    pm_pool := AList.update k (length (pm_pds s)) (pm_pool s), pm_tracked := pm_tracked s @ [length (pm_pds s)]\<rparr>, ds));
              subdomain = k @ ''.pacman''
          in load_proxies ul grow us ps
               (s, ruleset_add ul grow rs (''.'' @ subdomain) (Some (ToRewriting pd subdomain)), ds))"

text \<open>The dialers of a rule; the inner error names the first proxy that is not in the pool.\<close>

fun rule_chain :: "(string, nat) gomap \<Rightarrow> string list \<Rightarrow> nat list res" where
  "rule_chain pool [] = Inr []"
| "rule_chain pool (p # ps) = (case map_of pool p of
     None \<Rightarrow> Inl (ErrText (''proxy not found: '' @ p))
   | Some i \<Rightarrow> bind_res (rule_chain pool ps) (\<lambda>is. Inr (i # is)))"

definition rule_target :: "nat list \<Rightarrow> target option" where
  "rule_target chain = (case chain of [] \<Rightarrow> None | [i] \<Rightarrow> Some (ToLazy i) | _ \<Rightarrow> Some (ToChain chain))"

fun load_rules ::
  "(string \<Rightarrow> string) \<Rightarrow> (nat \<Rightarrow> nat \<Rightarrow> nat) \<Rightarrow> (string, nat) gomap \<Rightarrow> cfg_rule option list \<Rightarrow> target option trie \<Rightarrow>
   target option trie res option" where
  "load_rules ul grow pool [] rs = Some (Inr rs)"
| "load_rules ul grow pool (r # rls) rs = (case r of
     None \<Rightarrow> None
   | Some r \<Rightarrow> (case rule_chain pool (cr_proxies r) of
       Inl e \<Rightarrow> Some (Inl e)
     | Inr chain \<Rightarrow>
         load_rules ul grow pool rls (foldl (\<lambda>rs h. ruleset_add ul grow rs h (rule_target chain)) rs (cr_hosts r))))"

fun drop_removed :: "(string, url option) gomap \<Rightarrow> (string \<times> nat) list \<Rightarrow> pacman \<times> nat list \<Rightarrow> pacman \<times> nat list" where
  "drop_removed proxies [] st = st"
| "drop_removed proxies ((k, pd) # q) (s, ds) =
     (if map_of proxies k \<noteq> None then drop_removed proxies q (s, ds)
      else drop_removed proxies q (s\<lparr>pm_pool := AList.delete k (pm_pool s)\<rparr>, ds @ [pd]))"

text \<open>\<open>ordp\<close> and \<open>ordq\<close> are the orders in which the runtime ranges over the two maps.\<close>

definition load_config ::
  "(string \<Rightarrow> string) \<Rightarrow> (nat \<Rightarrow> nat \<Rightarrow> nat) \<Rightarrow> (url \<Rightarrow> string) \<Rightarrow>
   ((string, url option) gomap \<Rightarrow> (string \<times> url option) list) \<Rightarrow> ((string, nat) gomap \<Rightarrow> (string \<times> nat) list) \<Rightarrow>
   config \<Rightarrow> pacman \<Rightarrow> (goerr option \<times> pacman) option" where
  "load_config ul grow us ordp ordq cfg s =
     Option.bind (load_proxies ul grow us (ordp (cf_proxies cfg)) (s, empty_trie, [])) (\<lambda>(s, rs, ds).
       map_option (\<lambda>r. case r of
           Inl e \<Rightarrow> (Some e, run_deferred ds s)
         | Inr rs \<Rightarrow>
             let s = s\<lparr>pm_rs := Some rs\<rparr>; (s, ds) = drop_removed (cf_proxies cfg) (ordq (pm_pool s)) (s, ds)
             in (None, run_deferred ds s))
         (load_rules ul grow (pm_pool s) (cf_rules cfg) rs))"

section \<open>Reloading and starting\<close>

text \<open>\<open>cfg\<close> is what \<open>ParseConfigFile\<close> returned. The notification is the title, subtitle and body that are sent.\<close>

definition reload_config ::
  "(config \<Rightarrow> pacman \<Rightarrow> (goerr option \<times> pacman) option) \<Rightarrow> (goerr \<Rightarrow> string) \<Rightarrow> config res \<Rightarrow> pacman \<Rightarrow>
   ((string \<times> string \<times> string) \<times> pacman) option" where
  "reload_config load err_text cfg s =
     map_option (\<lambda>(err, s). (case err of
          Some e \<Rightarrow> (''Config Reload Error'', [], err_text e)
        | None \<Rightarrow> ([], ''Config Reloaded'', ''The configuration was successfully reloaded.''), s))
       (case cfg of Inl e \<Rightarrow> Some (Some e, s) | Inr cfg \<Rightarrow> load cfg s)"

text \<open>The URL that \<open>OpenConfig\<close> opens: scheme \<open>file\<close> and the expanded path; \<open>None\<close> when it cannot be expanded.\<close>

definition open_config :: "'w fs \<Rightarrow> string \<Rightarrow> 'w \<Rightarrow> url option" where
  "open_config F path w = (case expand_user F path w of
     Inl e \<Rightarrow> None | Inr p \<Rightarrow> Some (empty_url\<lparr>u_scheme := ''file'', u_path := p\<rparr>))"

text \<open>
  \<open>run\<close> up to the accept loop: the configuration, the listener that was handed over or the configured address,
  the first load. \<open>listen\<close> is \<open>net.Listen\<close> on TCP.
\<close>

definition run_setup ::
  "(config \<Rightarrow> pacman \<Rightarrow> (goerr option \<times> pacman) option) \<Rightarrow> (string \<Rightarrow> 'l res) \<Rightarrow> config res \<Rightarrow> 'l option \<Rightarrow>
   ('l \<times> pacman) res option" where
  "run_setup load listen cfg l =
     (case cfg of
        Inl e \<Rightarrow> Some (Inl e)
      | Inr cfg \<Rightarrow>
          (case (case l of
              Some l \<Rightarrow> Inr l
            | None \<Rightarrow> if cf_listen cfg = [] then Inl (ErrText ''no listener provided'') else listen (cf_listen cfg)) of
             Inl e \<Rightarrow> Some (Inl e)
           | Inr l \<Rightarrow> map_option (\<lambda>(err, s). case err of Some e \<Rightarrow> Inl e | None \<Rightarrow> Inr (l, s))
               (load cfg \<lparr>pm_pds = [], pm_pool = [], pm_rs = None, pm_closed = [], pm_tracked = []\<rparr>)))"

definition start_pacman :: pacman where
  "start_pacman = \<lparr>pm_pds = [], pm_pool = [], pm_rs = None, pm_closed = [], pm_tracked = []\<rparr>"

section \<open>What a loaded configuration is\<close>

text \<open>Every pool entry is a pooled dialer of that label.\<close>

definition pool_ok :: "pacman \<Rightarrow> bool" where
  "pool_ok s \<longleftrightarrow> (\<forall>k i. map_of (pm_pool s) k = Some i \<longrightarrow> i < length (pm_pds s) \<and> pd_label (pm_pds s ! i) = k)"

text \<open>\<open>grows s s'\<close>: the dialers of \<open>s\<close> are still there, and nothing was closed or swapped.\<close>

definition grows :: "pacman \<Rightarrow> pacman \<Rightarrow> bool" where
  "grows s s' \<longleftrightarrow> length (pm_pds s) \<le> length (pm_pds s') \<and> (\<forall>i < length (pm_pds s). pm_pds s' ! i = pm_pds s ! i) \<and>
     pm_rs s' = pm_rs s \<and> pm_closed s' = pm_closed s"

text \<open>\<open>current us s k u\<close>: the pool's dialer for the label has the configured URL already.\<close>

definition current :: "(url \<Rightarrow> string) \<Rightarrow> pacman \<Rightarrow> string \<Rightarrow> url \<Rightarrow> bool" where
  "current us s k u \<longleftrightarrow> (\<exists>i. map_of (pm_pool s) k = Some i \<and> us (pd_url (pm_pds s ! i)) = us u)"

definition add_rules ::
  "(string \<Rightarrow> string) \<Rightarrow> (nat \<Rightarrow> nat \<Rightarrow> nat) \<Rightarrow> (string \<times> 'v) list \<Rightarrow> 'v trie \<Rightarrow> 'v trie" where
  "add_rules ul grow rules rs = foldl (\<lambda>m (r, v). ruleset_add ul grow m r v) rs rules"

definition label_rule :: "(string, nat) gomap \<Rightarrow> string \<Rightarrow> string \<times> target option" where
  "label_rule pool k = (''.'' @ k @ ''.pacman'', Some (ToRewriting (the (map_of pool k)) (k @ ''.pacman'')))"

definition config_rules :: "(string, nat) gomap \<Rightarrow> cfg_rule option list \<Rightarrow> (string \<times> target option) list" where
  "config_rules pool rls = concat (map (\<lambda>r. case r of None \<Rightarrow> []
     | Some r \<Rightarrow> map (\<lambda>h. (h, rule_target (map (\<lambda>p. the (map_of pool p)) (cr_proxies r)))) (cr_hosts r)) rls)"

lemma pool_okD:
  "pool_ok s \<Longrightarrow> map_of (pm_pool s) k = Some i \<Longrightarrow> i < length (pm_pds s) \<and> pd_label (pm_pds s ! i) = k"
  by (simp add: pool_ok_def)

lemma add_rules_append: "add_rules ul grow (xs @ ys) rs = add_rules ul grow ys (add_rules ul grow xs rs)"
  by (simp add: add_rules_def)

lemma grows_trans: "grows s t \<Longrightarrow> grows t u \<Longrightarrow> grows s u"
  by (simp add: grows_def)

lemma new_pooled_parts [simp]: "pd_label (new_pooled_dialer k u) = k" "pd_url (new_pooled_dialer k u) = u"
  by (simp_all add: new_pooled_dialer_def update_pool_menu_def)

text \<open>One proxy: the pool has the dialer of its label with its URL; the replaced one, if any, is deferred.\<close>

lemma load_proxies_step:
  assumes "pool_ok s"
  shows "\<exists>i s1 ds1. load_proxies ul grow us ((k, Some u) # ps) (s, rs, ds) =
      load_proxies ul grow us ps (s1, ruleset_add ul grow rs (fst (label_rule (pm_pool s1) k)) (snd (label_rule (pm_pool s1) k)), ds1) \<and>
    grows s s1 \<and> pool_ok s1 \<and> map_of (pm_pool s1) = (map_of (pm_pool s))(k \<mapsto> i) \<and> us (pd_url (pm_pds s1 ! i)) = us u \<and>
    (if current us s k u then map_of (pm_pool s) k = Some i \<and> ds1 = ds
     else length (pm_pds s) \<le> i \<and> ds1 = ds @ (case map_of (pm_pool s) k of None \<Rightarrow> [] | Some j \<Rightarrow> [j]))"
proof (cases "current us s k u")
  case True
  then obtain i where i: "map_of (pm_pool s) k = Some i" "us (pd_url (pm_pds s ! i)) = us u" by (auto simp: current_def)
  then have "map_of (pm_pool s) = (map_of (pm_pool s))(k \<mapsto> i)" by (simp add: fun_upd_idem)
  then show ?thesis using True i assms
    by (intro exI [of _ i] exI [of _ s] exI [of _ ds]) (simp add: grows_def label_rule_def Let_def)
next
  case False
  define s1 where "s1 = s\<lparr>pm_pds := pm_pds s @ [new_pooled_dialer k u],
    pm_pool := AList.update k (length (pm_pds s)) (pm_pool s), pm_tracked := pm_tracked s @ [length (pm_pds s)]\<rparr>"
  have s1: "grows s s1" "map_of (pm_pool s1) = (map_of (pm_pool s))(k \<mapsto> length (pm_pds s))"
    "us (pd_url (pm_pds s1 ! length (pm_pds s))) = us u"
    by (simp_all add: s1_def grows_def nth_append go_simps)
  have "pool_ok s1"
    unfolding pool_ok_def
  proof (intro allI impI)
    fix k' j
    assume "map_of (pm_pool s1) k' = Some j"
    then show "j < length (pm_pds s1) \<and> pd_label (pm_pds s1 ! j) = k'"
      using pool_okD [OF assms, of k' j] by (cases "k' = k") (auto simp: s1_def go_simps nth_append)
  qed
  then show ?thesis using s1 False
    by (intro exI [of _ "length (pm_pds s)"] exI [of _ s1]
          exI [of _ "ds @ (case map_of (pm_pool s) k of None \<Rightarrow> [] | Some j \<Rightarrow> [j])"])
      (auto simp: current_def label_rule_def s1_def go_simps Let_def split: option.split)
qed

lemma load_proxies_parts:
  "load_proxies ul grow us ps (s, rs, ds) = Some (s', rs', ds') \<Longrightarrow> pool_ok s \<Longrightarrow> distinct (map fst ps) \<Longrightarrow>
   grows s s' \<and> pool_ok s' \<and> (\<forall>k. k \<notin> set (map fst ps) \<longrightarrow> map_of (pm_pool s') k = map_of (pm_pool s) k) \<and>
   rs' = add_rules ul grow (map (label_rule (pm_pool s') \<circ> fst) ps) rs \<and>
   set ds' = set ds \<union> {j. \<exists>k u. (k, Some u) \<in> set ps \<and> map_of (pm_pool s) k = Some j \<and> \<not> current us s k u} \<and>
   (\<forall>(k, u) \<in> set ps. \<exists>v i. u = Some v \<and> map_of (pm_pool s') k = Some i \<and> us (pd_url (pm_pds s' ! i)) = us v \<and>
      (if current us s k v then map_of (pm_pool s) k = Some i else length (pm_pds s) \<le> i))"
proof (induction ps arbitrary: s rs ds)
  case Nil
  then show ?case by (auto simp: grows_def add_rules_def)
next
  case (Cons ku ps)
  obtain k ou where ku: "ku = (k, ou)" by fastforce
  from Cons.prems(1) obtain u where u: "ou = Some u" by (cases ou) (simp_all add: ku)
  obtain i s1 ds1 where st:
    "load_proxies ul grow us ((k, Some u) # ps) (s, rs, ds) =
      load_proxies ul grow us ps (s1, ruleset_add ul grow rs (fst (label_rule (pm_pool s1) k)) (snd (label_rule (pm_pool s1) k)), ds1)"
    "grows s s1" "pool_ok s1" "map_of (pm_pool s1) = (map_of (pm_pool s))(k \<mapsto> i)" "us (pd_url (pm_pds s1 ! i)) = us u"
    "if current us s k u then map_of (pm_pool s) k = Some i \<and> ds1 = ds
     else length (pm_pds s) \<le> i \<and> ds1 = ds @ (case map_of (pm_pool s) k of None \<Rightarrow> [] | Some j \<Rightarrow> [j])"
    using load_proxies_step [OF Cons.prems(2)] by metis
  have d: "k \<notin> set (map fst ps)" "distinct (map fst ps)" using Cons.prems(3) ku by simp_all
  have run: "load_proxies ul grow us ps (s1, ruleset_add ul grow rs (fst (label_rule (pm_pool s1) k)) (snd (label_rule (pm_pool s1) k)), ds1) =
      Some (s', rs', ds')" using Cons.prems(1) st(1) by (simp add: ku u del: load_proxies.simps)
  note ih = Cons.IH [OF run st(3) d(2)]
  have cur: "current us s1 k' v \<longleftrightarrow> current us s k' v" if "k' \<noteq> k" for k' v
    using that st(2,4) Cons.prems(2) by (auto simp: current_def grows_def pool_ok_def)
  have pool_k: "map_of (pm_pool s') k = Some i" using ih d(1) st(4) by simp
  have "i < length (pm_pds s1)" using pool_okD [OF st(3), of k i] st(4) by simp
  then have head: "us (pd_url (pm_pds s' ! i)) = us u" using ih st(5) by (simp add: grows_def)
  have lr: "label_rule (pm_pool s1) k = label_rule (pm_pool s') k" using pool_k st(4) by (simp add: label_rule_def)
  have g: "grows s s'" using grows_trans [OF st(2)] ih by blast
  have rules: "rs' = add_rules ul grow (map (label_rule (pm_pool s') \<circ> fst) (ku # ps)) rs"
    using ih lr by (simp add: add_rules_def ku comp_def case_prod_beta)
  have ne: "k' \<noteq> k" if "(k', v) \<in> set ps" for k' v using that d(1) by force
  have others: "map_of (pm_pool s') k' = map_of (pm_pool s) k'" if "k' \<notin> set (map fst (ku # ps))" for k'
    using ih that st(4) by (simp add: ku)
  have deferred: "set ds' = set ds \<union> {j. \<exists>k' v. (k', Some v) \<in> set (ku # ps) \<and> map_of (pm_pool s) k' = Some j \<and> \<not> current us s k' v}"
  proof -
    have "set ds1 = set ds \<union> {j. map_of (pm_pool s) k = Some j \<and> \<not> current us s k u}"
      using st(6) by (auto split: if_splits option.splits)
    moreover have "(\<exists>k' v. (k', Some v) \<in> set ps \<and> map_of (pm_pool s1) k' = Some j \<and> \<not> current us s1 k' v) \<longleftrightarrow>
        (\<exists>k' v. (k', Some v) \<in> set ps \<and> map_of (pm_pool s) k' = Some j \<and> \<not> current us s k' v)" for j
      using ne cur st(4) by (metis fun_upd_other)
    ultimately show ?thesis using ih by (auto simp: ku u)
  qed
  have each: "\<exists>v i. w = Some v \<and> map_of (pm_pool s') k' = Some i \<and> us (pd_url (pm_pds s' ! i)) = us v \<and>
      (if current us s k' v then map_of (pm_pool s) k' = Some i else length (pm_pds s) \<le> i)" if "(k', w) \<in> set (ku # ps)" for k' w
  proof (cases "(k', w) = ku")
    case True
    then show ?thesis using pool_k head st(6) ku u by (auto split: if_splits)
  next
    case False
    then have in_ps: "(k', w) \<in> set ps" using that by simp
    then obtain v i' where "w = Some v" "map_of (pm_pool s') k' = Some i'" "us (pd_url (pm_pds s' ! i')) = us v"
      "if current us s1 k' v then map_of (pm_pool s1) k' = Some i' else length (pm_pds s1) \<le> i'" using ih by blast
    then show ?thesis using cur [OF ne [OF in_ps]] st(2,4) ne [OF in_ps] by (auto simp: grows_def split: if_splits)
  qed
  show ?case using g ih rules others deferred each by blast
qed

lemma rule_chain_Inr:
  "rule_chain pool ps = Inr is \<Longrightarrow> is = map (\<lambda>p. the (map_of pool p)) ps \<and> (\<forall>p \<in> set ps. map_of pool p \<noteq> None)"
  by (induction ps arbitrary: "is") (auto simp: bind_res_Inr_iff split: option.splits)

lemma load_rules_parts:
  "load_rules ul grow pool rls rs = Some (Inr rs') \<Longrightarrow>
   rs' = add_rules ul grow (config_rules pool rls) rs \<and>
   (\<forall>r \<in> set rls. \<exists>q. r = Some q \<and> (\<forall>p \<in> set (cr_proxies q). map_of pool p \<noteq> None))"
proof (induction rls arbitrary: rs)
  case Nil
  then show ?case by (simp add: add_rules_def config_rules_def)
next
  case (Cons r rls)
  then obtain q chain where q: "r = Some q" "rule_chain pool (cr_proxies q) = Inr chain"
    "load_rules ul grow pool rls (foldl (\<lambda>rs h. ruleset_add ul grow rs h (rule_target chain)) rs (cr_hosts q)) = Some (Inr rs')"
    by (auto split: option.splits sum.splits)
  note chain = rule_chain_Inr [OF q(2)]
  have hosts: "foldl (\<lambda>rs h. ruleset_add ul grow rs h v) rs hs = add_rules ul grow (map (\<lambda>h. (h, v)) hs) rs" for v hs rs
    by (induction hs arbitrary: rs) (simp_all add: add_rules_def)
  have "config_rules pool (r # rls) = map (\<lambda>h. (h, rule_target chain)) (cr_hosts q) @ config_rules pool rls"
    using q(1) chain by (simp add: config_rules_def)
  then show ?case using Cons.IH [OF q(3)] q(1) chain by (simp add: add_rules_append hosts)
qed

lemma drop_removed_parts:
  "drop_removed proxies q (s, ds) = (s', ds') \<Longrightarrow>
   map_of (pm_pool s') = (\<lambda>k. if k \<in> set (map fst q) \<and> map_of proxies k = None then None else map_of (pm_pool s) k) \<and>
   set ds' = set ds \<union> {i. \<exists>k. (k, i) \<in> set q \<and> map_of proxies k = None} \<and>
   pm_pds s' = pm_pds s \<and> pm_rs s' = pm_rs s \<and> pm_closed s' = pm_closed s"
proof (induction q arbitrary: s ds)
  case (Cons ki q)
  obtain k i where "ki = (k, i)" by fastforce
  then show ?case using Cons by (auto simp: go_simps fun_eq_iff split: if_splits)
qed auto

lemma run_deferred_parts:
  "length (pm_pds (run_deferred ds s)) = length (pm_pds s) \<and> pm_pool (run_deferred ds s) = pm_pool s \<and>
   pm_rs (run_deferred ds s) = pm_rs s \<and> pm_closed (run_deferred ds s) = pm_closed s @ rev ds \<and>
   (\<forall>i. pd_label (pm_pds (run_deferred ds s) ! i) = pd_label (pm_pds s ! i) \<and>
      pd_url (pm_pds (run_deferred ds s) ! i) = pd_url (pm_pds s ! i))"
proof -
  have step: "pd_label (xs[j := (xs ! j)\<lparr>pd_cancelled := True\<rparr>] ! i) = pd_label (xs ! i) \<and>
      pd_url (xs[j := (xs ! j)\<lparr>pd_cancelled := True\<rparr>] ! i) = pd_url (xs ! i)" for xs i j
    by (cases "j < length xs"; cases "i = j") (auto simp: list_update_beyond)
  have "length (pm_pds (foldl (\<lambda>s i. pd_close i s) s ds)) = length (pm_pds s) \<and>
     pm_pool (foldl (\<lambda>s i. pd_close i s) s ds) = pm_pool s \<and>
     pm_rs (foldl (\<lambda>s i. pd_close i s) s ds) = pm_rs s \<and> pm_closed (foldl (\<lambda>s i. pd_close i s) s ds) = pm_closed s @ ds \<and>
     (\<forall>i. pd_label (pm_pds (foldl (\<lambda>s i. pd_close i s) s ds) ! i) = pd_label (pm_pds s ! i) \<and>
      pd_url (pm_pds (foldl (\<lambda>s i. pd_close i s) s ds) ! i) = pd_url (pm_pds s ! i))" for ds
    by (induction ds arbitrary: s) (simp_all add: pd_close_def step)
  then show ?thesis unfolding run_deferred_def by blast
qed

text \<open>\<open>ordered ord\<close>: the runtime ranges over every entry of a map once.\<close>

definition ordered :: "(('k, 'v) gomap \<Rightarrow> ('k \<times> 'v) list) \<Rightarrow> bool" where
  "ordered ord \<longleftrightarrow> (\<forall>m. range_of m (ord m))"

lemma load_config_parts:
  assumes "pool_ok s" and "ordered ordp" and "ordered ordq"
    and "load_config ul grow us ordp ordq cfg s = Some (None, s')"
  obtains s1 where
    "grows s s1" "pool_ok s1" "pool_ok s'"
    "map_of (pm_pool s') = (\<lambda>k. if map_of (cf_proxies cfg) k = None then None else map_of (pm_pool s1) k)"
    "\<And>k. map_of (cf_proxies cfg) k = None \<Longrightarrow> map_of (pm_pool s1) k = map_of (pm_pool s) k"
    "\<And>k u. map_of (cf_proxies cfg) k = Some u \<Longrightarrow> \<exists>v i. u = Some v \<and> map_of (pm_pool s1) k = Some i \<and>
       us (pd_url (pm_pds s' ! i)) = us v \<and> (if current us s k v then map_of (pm_pool s) k = Some i else length (pm_pds s) \<le> i)"
    "pm_rs s' = Some (trie_of ul grow (map (label_rule (pm_pool s1) \<circ> fst) (ordp (cf_proxies cfg)) @ config_rules (pm_pool s1) (cf_rules cfg)))"
    "\<And>r. r \<in> set (cf_rules cfg) \<Longrightarrow> \<exists>q. r = Some q \<and> (\<forall>p \<in> set (cr_proxies q). map_of (pm_pool s1) p \<noteq> None)"
    "\<exists>cs. pm_closed s' = pm_closed s @ cs \<and>
      set cs = {j. \<exists>k. map_of (pm_pool s) k = Some j \<and> (case map_of (cf_proxies cfg) k of Some (Some u) \<Rightarrow> \<not> current us s k u | _ \<Rightarrow> True)}"
proof -
  from assms(4) obtain s1 rs1 ds1 r where l1: "load_proxies ul grow us (ordp (cf_proxies cfg)) (s, empty_trie, []) = Some (s1, rs1, ds1)"
    and l2: "load_rules ul grow (pm_pool s1) (cf_rules cfg) rs1 = Some r"
    and "(case r of Inl e \<Rightarrow> (Some e, run_deferred ds1 s1) | Inr rs \<Rightarrow>
      (case drop_removed (cf_proxies cfg) (ordq (pm_pool s1)) (s1\<lparr>pm_rs := Some rs\<rparr>, ds1) of (s, ds) \<Rightarrow> (None, run_deferred ds s))) = (None, s')"
    by (auto simp: load_config_def bind_eq_Some_conv Let_def)
  then obtain rs2 where r: "r = Inr rs2" by (cases r) auto
  note l = l1 l2 [unfolded r]
  define s2 where "s2 = s1\<lparr>pm_rs := Some rs2\<rparr>"
  obtain s3 ds3 where dr: "drop_removed (cf_proxies cfg) (ordq (pm_pool s1)) (s2, ds1) = (s3, ds3)" by fastforce
  have s': "s' = run_deferred ds3 s3"
    using assms(4) l dr by (simp add: load_config_def s2_def Let_def)
  have op: "range_of (cf_proxies cfg) (ordp (cf_proxies cfg))" and oq: "range_of (pm_pool s1) (ordq (pm_pool s1))"
    using assms(2,3) by (simp_all add: ordered_def)
  have dist: "distinct (map fst (ordp (cf_proxies cfg)))" using op by (simp add: range_of_def)
  note lp = load_proxies_parts [OF l(1) assms(1) dist]
  note lr = load_rules_parts [OF l(2)]
  note d = drop_removed_parts [OF dr] and rd = run_deferred_parts [of ds3 s3]
  have in_p: "(k, u) \<in> set (ordp (cf_proxies cfg)) \<longleftrightarrow> map_of (cf_proxies cfg) k = Some u" for k u
    using range_of_set [OF op] by auto
  have keys_p: "k \<in> set (map fst (ordp (cf_proxies cfg))) \<longleftrightarrow> map_of (cf_proxies cfg) k \<noteq> None" for k
    using op by (metis map_of_eq_None_iff range_of_def set_map)
  have in_q: "(k, i) \<in> set (ordq (pm_pool s1)) \<longleftrightarrow> map_of (pm_pool s1) k = Some i" for k i
    using range_of_set [OF oq] by auto
  have keys_q: "k \<in> set (map fst (ordq (pm_pool s1))) \<longleftrightarrow> map_of (pm_pool s1) k \<noteq> None" for k
    using oq by (metis map_of_eq_None_iff range_of_def set_map)
  have pds: "length (pm_pds s') = length (pm_pds s1)" "\<And>i. pd_label (pm_pds s' ! i) = pd_label (pm_pds s1 ! i)"
    "\<And>i. pd_url (pm_pds s' ! i) = pd_url (pm_pds s1 ! i)"
    using rd d by (simp_all add: s' s2_def)
  have pool: "map_of (pm_pool s') = (\<lambda>k. if map_of (cf_proxies cfg) k = None then None else map_of (pm_pool s1) k)"
    using rd d keys_q by (auto simp: s' s2_def fun_eq_iff)
  have others: "map_of (pm_pool s1) k = map_of (pm_pool s) k" if "map_of (cf_proxies cfg) k = None" for k
    using lp keys_p that by blast
  have closed: "\<exists>cs. pm_closed s' = pm_closed s @ cs \<and>
      set cs = {j. \<exists>k. map_of (pm_pool s) k = Some j \<and> (case map_of (cf_proxies cfg) k of Some (Some u) \<Rightarrow> \<not> current us s k u | _ \<Rightarrow> True)}"
  proof (intro exI conjI)
    show "pm_closed s' = pm_closed s @ rev ds3" using rd d lp by (simp add: s' s2_def grows_def)
    have "set (rev ds3) = {j. \<exists>k u. map_of (cf_proxies cfg) k = Some (Some u) \<and> map_of (pm_pool s) k = Some j \<and> \<not> current us s k u} \<union>
        {i. \<exists>k. map_of (pm_pool s) k = Some i \<and> map_of (cf_proxies cfg) k = None}"
    proof -
      have "set ds1 = {j. \<exists>k u. map_of (cf_proxies cfg) k = Some (Some u) \<and> map_of (pm_pool s) k = Some j \<and> \<not> current us s k u}"
        using lp by (simp add: in_p)
      moreover have "set ds3 = set ds1 \<union> {i. \<exists>k. map_of (pm_pool s1) k = Some i \<and> map_of (cf_proxies cfg) k = None}"
        using d by (simp add: in_q)
      moreover have "(map_of (pm_pool s1) k = Some i \<and> map_of (cf_proxies cfg) k = None) =
          (map_of (pm_pool s) k = Some i \<and> map_of (cf_proxies cfg) k = None)" for i k
        using others by auto
      ultimately show ?thesis by simp
    qed
    moreover have "(case map_of (cf_proxies cfg) k of Some (Some u) \<Rightarrow> \<not> current us s k u | _ \<Rightarrow> True) \<longleftrightarrow>
        map_of (cf_proxies cfg) k = None \<or> (\<exists>u. map_of (cf_proxies cfg) k = Some (Some u) \<and> \<not> current us s k u)" for k
    proof -
      have "map_of (cf_proxies cfg) k \<noteq> Some None" using lp in_p by blast
      then show ?thesis by (cases "map_of (cf_proxies cfg) k") (auto split: option.split)
    qed
    ultimately show "set (rev ds3) = {j. \<exists>k. map_of (pm_pool s) k = Some j \<and>
        (case map_of (cf_proxies cfg) k of Some (Some u) \<Rightarrow> \<not> current us s k u | _ \<Rightarrow> True)}"
      by (simp only:) blast
  qed
  show ?thesis
  proof (rule that)
    show "grows s s1" "pool_ok s1" using lp by blast+
    then show "pool_ok s'" using pool pds by (auto simp: pool_ok_def split: if_splits)
    fix k u
    assume "map_of (cf_proxies cfg) k = Some u"
    then have "(k, u) \<in> set (ordp (cf_proxies cfg))" by (simp add: in_p)
    then obtain v i where "u = Some v" "map_of (pm_pool s1) k = Some i" "us (pd_url (pm_pds s1 ! i)) = us v"
      "if current us s k v then map_of (pm_pool s) k = Some i else length (pm_pds s) \<le> i" using lp by blast
    then show "\<exists>v i. u = Some v \<and> map_of (pm_pool s1) k = Some i \<and> us (pd_url (pm_pds s' ! i)) = us v \<and>
        (if current us s k v then map_of (pm_pool s) k = Some i else length (pm_pds s) \<le> i)"
      using pds(3) by metis
  next
    show "pm_rs s' = Some (trie_of ul grow (map (label_rule (pm_pool s1) \<circ> fst) (ordp (cf_proxies cfg)) @ config_rules (pm_pool s1) (cf_rules cfg)))"
      using rd d lp lr by (simp add: s' s2_def trie_of_def add_rules_def)
  qed (use lr pool others closed in blast)+
qed

lemma load_config_failed:
  assumes "load_config ul grow us ordp ordq cfg s = Some (Some e, s')"
  obtains s1 rs1 ds1 where "load_proxies ul grow us (ordp (cf_proxies cfg)) (s, empty_trie, []) = Some (s1, rs1, ds1)"
    "s' = run_deferred ds1 s1"
proof -
  from assms obtain s1 rs1 ds1 r where l: "load_proxies ul grow us (ordp (cf_proxies cfg)) (s, empty_trie, []) = Some (s1, rs1, ds1)"
    and "(case r of Inl e \<Rightarrow> (Some e, run_deferred ds1 s1) | Inr rs \<Rightarrow>
      (case drop_removed (cf_proxies cfg) (ordq (pm_pool s1)) (s1\<lparr>pm_rs := Some rs\<rparr>, ds1) of (s, ds) \<Rightarrow> (None, run_deferred ds s))) = (Some e, s')"
    by (auto simp: load_config_def bind_eq_Some_conv Let_def)
  then have "s' = run_deferred ds1 s1" by (cases r) (auto split: prod.splits)
  with l show ?thesis by (rule that)
qed

section \<open>Properties\<close>

definition sample_config :: config where
  "sample_config = \<lparr>cf_path = [], cf_listen = [], cf_proxies = [(''a'', Some empty_url)], cf_rules = []\<rparr>"

lemma ordered_clearjunk: "ordered AList.clearjunk"
  by (simp add: ordered_def range_of_def distinct_clearjunk map_of_clearjunk)

lemma start_pool_ok: "pool_ok start_pacman"
  by (simp add: pool_ok_def start_pacman_def)

lemma sample_load:
  "\<exists>s'. load_config (\<lambda>x. x) (+) u_host AList.clearjunk AList.clearjunk sample_config start_pacman = Some (None, s')"
  by (simp add: load_config_def sample_config_def start_pacman_def Let_def case_prod_beta)

text \<open>C15: a configuration that loads makes the pool exactly the configured proxies: every configured proxy has a
  dialer of its label and URL, the same one as before when the URL did not change, and the dialers that were
  replaced or removed, and only those, are closed.\<close>

theorem load_config_pool:
  assumes "pool_ok s" and "ordered ordp" and "ordered ordq"
    and "load_config ul grow us ordp ordq cfg s = Some (None, s')"
  shows "pool_ok s' \<and> dom (map_of (pm_pool s')) = dom (map_of (cf_proxies cfg)) \<and>
    (\<forall>k u. map_of (cf_proxies cfg) k = Some (Some u) \<longrightarrow> (\<exists>i. map_of (pm_pool s') k = Some i \<and>
       us (pd_url (pm_pds s' ! i)) = us u \<and>
       (if current us s k u then map_of (pm_pool s) k = Some i else length (pm_pds s) \<le> i))) \<and>
    (\<exists>cs. pm_closed s' = pm_closed s @ cs \<and> set cs = {j. \<exists>k. map_of (pm_pool s) k = Some j \<and>
       (case map_of (cf_proxies cfg) k of Some (Some u) \<Rightarrow> \<not> current us s k u | _ \<Rightarrow> True)})"
proof (rule load_config_parts [OF assms])
  fix s1
  assume p: "pool_ok s'"
    "map_of (pm_pool s') = (\<lambda>k. if map_of (cf_proxies cfg) k = None then None else map_of (pm_pool s1) k)"
    and each: "\<And>k u. map_of (cf_proxies cfg) k = Some u \<Longrightarrow> \<exists>v i. u = Some v \<and> map_of (pm_pool s1) k = Some i \<and>
       us (pd_url (pm_pds s' ! i)) = us v \<and> (if current us s k v then map_of (pm_pool s) k = Some i else length (pm_pds s) \<le> i)"
    and cs: "\<exists>cs. pm_closed s' = pm_closed s @ cs \<and>
      set cs = {j. \<exists>k. map_of (pm_pool s) k = Some j \<and> (case map_of (cf_proxies cfg) k of Some (Some u) \<Rightarrow> \<not> current us s k u | _ \<Rightarrow> True)}"
  have "dom (map_of (pm_pool s')) = dom (map_of (cf_proxies cfg))"
    using p(2) each by (fastforce simp: dom_def split: if_splits)
  moreover have "\<exists>i. map_of (pm_pool s') k = Some i \<and> us (pd_url (pm_pds s' ! i)) = us u \<and>
       (if current us s k u then map_of (pm_pool s) k = Some i else length (pm_pds s) \<le> i)"
    if "map_of (cf_proxies cfg) k = Some (Some u)" for k u
    using each [OF that] p(2) that by auto
  ultimately show ?thesis using p(1) cs by blast
qed

lemma load_config_pool_witness:
  "\<exists>s'. load_config (\<lambda>x. x) (+) u_host AList.clearjunk AList.clearjunk sample_config start_pacman = Some (None, s') \<and>
    dom (map_of (pm_pool s')) = {''a''}"
proof -
  obtain s' where s': "load_config (\<lambda>x. x) (+) u_host AList.clearjunk AList.clearjunk sample_config start_pacman = Some (None, s')"
    using sample_load by blast
  from load_config_pool [OF start_pool_ok ordered_clearjunk ordered_clearjunk this] s' show ?thesis
    by (simp add: sample_config_def)
qed

text \<open>C14: the rules that a loaded configuration puts in force are the label rules of its proxies, then its own rules in
  order, each with the dialers its names stand for: a lookup gives what these rules say.\<close>

theorem load_config_routes:
  assumes "pool_ok s" and "ordered ordp" and "ordered ordq"
    and "load_config ul grow us ordp ordq cfg s = Some (None, s')"
  shows "\<exists>pool. (\<forall>k i. map_of (pm_pool s') k = Some i \<longrightarrow> map_of pool k = Some i) \<and>
    (\<forall>r \<in> set (cf_rules cfg). \<exists>q. r = Some q \<and> (\<forall>p \<in> set (cr_proxies q). map_of pool p \<noteq> None)) \<and>
    ruleset_match ul None (pm_rs s') host = Some (found None
      (rules_match ul (map (label_rule pool \<circ> fst) (ordp (cf_proxies cfg)) @ config_rules pool (cf_rules cfg)) host))"
proof (rule load_config_parts [OF assms])
  fix s1
  assume "map_of (pm_pool s') = (\<lambda>k. if map_of (cf_proxies cfg) k = None then None else map_of (pm_pool s1) k)"
    "pm_rs s' = Some (trie_of ul grow (map (label_rule (pm_pool s1) \<circ> fst) (ordp (cf_proxies cfg)) @ config_rules (pm_pool s1) (cf_rules cfg)))"
    "\<And>r. r \<in> set (cf_rules cfg) \<Longrightarrow> \<exists>q. r = Some q \<and> (\<forall>p \<in> set (cr_proxies q). map_of (pm_pool s1) p \<noteq> None)"
  then show ?thesis
    by (intro exI [of _ "pm_pool s1"]) (simp add: ruleset_match_def trie_of_match)
qed

lemma load_config_routes_witness:
  "\<exists>s' r. load_config (\<lambda>x. x) (+) u_host AList.clearjunk AList.clearjunk sample_config start_pacman = Some (None, s') \<and>
    ruleset_match (\<lambda>x. x) None (pm_rs s') ''h'' = Some r"
proof -
  obtain s' where s': "load_config (\<lambda>x. x) (+) u_host AList.clearjunk AList.clearjunk sample_config start_pacman = Some (None, s')"
    using sample_load by blast
  from load_config_routes [OF start_pool_ok ordered_clearjunk ordered_clearjunk this, of "''h''"] s' show ?thesis by blast
qed

text \<open>a reload accepts a rule that names a proxy which the same reload removes: loaded from scratch, the
  configuration is refused with \<open>proxy not found\<close>; reloaded, it succeeds, and the rule dials the closed dialer.\<close>

theorem reload_accepts_removed_proxy:
  assumes "map_of (pm_pool s) p = Some i" and "cf_proxies cfg = []" and "cf_rules cfg = [Some \<lparr>cr_hosts = [h], cr_proxies = [p]\<rparr>]"
    and "ordered ordp" and "ordered ordq"
  shows "(\<exists>s'. load_config ul grow us ordp ordq cfg start_pacman = Some (Some (ErrText (''proxy not found: '' @ p)), s')) \<and>
    (\<exists>s'. load_config ul grow us ordp ordq cfg s = Some (None, s') \<and> map_of (pm_pool s') p = None \<and> i \<in> set (pm_closed s') \<and>
       pm_rs s' = Some (trie_of ul grow [(h, Some (ToLazy i))]))"
proof -
  have op: "ordp (cf_proxies cfg) = []"
    using assms(2,4) by (simp add: ordered_def range_of_def) (metis map_of_eq_empty_iff)
  obtain s3 ds3 where dr: "drop_removed (cf_proxies cfg) (ordq (pm_pool s)) (s\<lparr>pm_rs := Some (trie_of ul grow [(h, Some (ToLazy i))])\<rparr>, []) = (s3, ds3)"
    by fastforce
  have q: "(p, i) \<in> set (ordq (pm_pool s))"
    using assms(1,5) range_of_set [of "pm_pool s" "ordq (pm_pool s)"] by (auto simp: ordered_def)
  have "load_config ul grow us ordp ordq cfg s = Some (None, run_deferred ds3 s3)"
    using op assms(1,3) dr by (simp add: load_config_def rule_target_def trie_of_def)
  moreover have "map_of (pm_pool s3) p = None" "i \<in> set ds3" "pm_rs s3 = Some (trie_of ul grow [(h, Some (ToLazy i))])"
    using drop_removed_parts [OF dr] q assms(2) by (auto simp: rev_image_eqI)
  ultimately show ?thesis
    using op assms(3) run_deferred_parts [of ds3 s3]
    by (auto simp: load_config_def start_pacman_def run_deferred_def)
qed

definition sample_pacman :: pacman where
  "sample_pacman = start_pacman\<lparr>pm_pds := [new_pooled_dialer ''p'' empty_url], pm_pool := [(''p'', 0)]\<rparr>"

lemma reload_accepts_removed_proxy_witness:
  "\<exists>s'. load_config (\<lambda>x. x) (+) u_host AList.clearjunk AList.clearjunk
      (sample_config\<lparr>cf_proxies := [], cf_rules := [Some \<lparr>cr_hosts = [''h''], cr_proxies = [''p'']\<rparr>]\<rparr>) sample_pacman = Some (None, s') \<and>
    0 \<in> set (pm_closed s')"
proof -
  let ?cfg = "sample_config\<lparr>cf_proxies := [], cf_rules := [Some \<lparr>cr_hosts = [''h''], cr_proxies = [''p'']\<rparr>]\<rparr>"
  have a: "map_of (pm_pool sample_pacman) ''p'' = Some 0" "cf_proxies ?cfg = []"
    "cf_rules ?cfg = [Some \<lparr>cr_hosts = [''h''], cr_proxies = [''p'']\<rparr>]"
    by (simp_all add: sample_pacman_def)
  from reload_accepts_removed_proxy [OF a ordered_clearjunk ordered_clearjunk] show ?thesis by blast
qed

text \<open>C26: a reload that fails leaves the rules in force but not the dialers: no label leaves the pool, yet proxies whose
  URL changed are replaced in it and the dialers that the old rules still use are closed.\<close>

theorem failed_reload_closes_dialers_in_use:
  assumes "pool_ok s" and "ordered ordp" and "load_config ul grow us ordp ordq cfg s = Some (Some e, s')"
  shows "pm_rs s' = pm_rs s \<and> dom (map_of (pm_pool s)) \<subseteq> dom (map_of (pm_pool s')) \<and>
    (\<forall>k u j. map_of (cf_proxies cfg) k = Some (Some u) \<longrightarrow> map_of (pm_pool s) k = Some j \<longrightarrow> \<not> current us s k u \<longrightarrow>
       j \<in> set (pm_closed s') \<and> map_of (pm_pool s') k \<noteq> Some j)"
proof -
  from assms(3) obtain s1 rs1 ds1 where l: "load_proxies ul grow us (ordp (cf_proxies cfg)) (s, empty_trie, []) = Some (s1, rs1, ds1)"
    and s': "s' = run_deferred ds1 s1"
    by (rule load_config_failed)
  have op: "range_of (cf_proxies cfg) (ordp (cf_proxies cfg))" using assms(2) by (simp add: ordered_def)
  have "distinct (map fst (ordp (cf_proxies cfg)))" using op by (simp add: range_of_def)
  note lp = load_proxies_parts [OF l assms(1) this] and rd = run_deferred_parts [of ds1 s1]
  have in_p: "(k, u) \<in> set (ordp (cf_proxies cfg)) \<longleftrightarrow> map_of (cf_proxies cfg) k = Some u" for k u
    using range_of_set [OF op] by auto
  have "map_of (pm_pool s') k \<noteq> None" if "map_of (pm_pool s) k \<noteq> None" for k
  proof (cases "k \<in> set (map fst (ordp (cf_proxies cfg)))")
    case True
    then obtain u where "(k, u) \<in> set (ordp (cf_proxies cfg))" by auto
    then show ?thesis using lp rd s' by fastforce
  next
    case False
    then show ?thesis using lp rd s' that by simp
  qed
  moreover have "j \<in> set (pm_closed s') \<and> map_of (pm_pool s') k \<noteq> Some j"
    if c: "map_of (cf_proxies cfg) k = Some (Some u)" "map_of (pm_pool s) k = Some j" "\<not> current us s k u" for k u j
  proof -
    have k: "(k, Some u) \<in> set (ordp (cf_proxies cfg))" using c(1) in_p by simp
    then obtain i where "map_of (pm_pool s1) k = Some i" "length (pm_pds s) \<le> i" using lp c(3) by fastforce
    moreover have "j < length (pm_pds s)" using pool_okD [OF assms(1) c(2)] by simp
    moreover have "j \<in> set ds1" using lp k c by blast
    ultimately show ?thesis using rd s' by auto
  qed
  ultimately show ?thesis using lp rd s' by (auto simp: grows_def dom_def)
qed

lemma failed_reload_closes_dialers_in_use_witness:
  "\<exists>e s'. load_config (\<lambda>x. x) (+) u_host AList.clearjunk AList.clearjunk
      (sample_config\<lparr>cf_proxies := [(''p'', Some (empty_url\<lparr>u_host := ''b''\<rparr>))], cf_rules := [Some \<lparr>cr_hosts = [''h''], cr_proxies = [''q'']\<rparr>]\<rparr>)
      sample_pacman = Some (Some e, s') \<and> 0 \<in> set (pm_closed s')"
proof -
  let ?cfg = "sample_config\<lparr>cf_proxies := [(''p'', Some (empty_url\<lparr>u_host := ''b''\<rparr>))], cf_rules := [Some \<lparr>cr_hosts = [''h''], cr_proxies = [''q'']\<rparr>]\<rparr>"
  have ok: "pool_ok sample_pacman" by (simp add: pool_ok_def sample_pacman_def start_pacman_def)
  have n: "\<not> current u_host sample_pacman ''p'' (empty_url\<lparr>u_host := ''b''\<rparr>)"
    by (simp add: current_def sample_pacman_def empty_url_def)
  obtain e s' where l: "load_config (\<lambda>x. x) (+) u_host AList.clearjunk AList.clearjunk ?cfg sample_pacman = Some (Some e, s')"
    by (simp add: load_config_def sample_pacman_def start_pacman_def empty_url_def Let_def)
  have "map_of (cf_proxies ?cfg) ''p'' = Some (Some (empty_url\<lparr>u_host := ''b''\<rparr>))" "map_of (pm_pool sample_pacman) ''p'' = Some 0"
    by (simp_all add: sample_pacman_def)
  with failed_reload_closes_dialers_in_use [OF ok ordered_clearjunk l] n l show ?thesis by blast
qed

text \<open>the goroutine that tracks a pooled dialer ends exactly when it wakes up to a changed state after the
  pooled dialer was closed: closing an offline dialer, whose state no longer changes, leaves it waiting.\<close>

theorem track_ends_iff:
  "fst (track banner err_text prev s ws) \<longleftrightarrow>
     (\<exists>k < length ws. snd (ws ! k) \<and> lz_state (fst (ws ! k)) \<noteq> (if k = 0 then prev else lz_state (fst (ws ! (k - 1)))))"
proof (induction ws arbitrary: prev s)
  case (Cons w ws)
  obtain d c where w: "w = (d, c)" by fastforce
  have shift: "(\<exists>k < length (w # ws). snd ((w # ws) ! k) \<and>
        lz_state (fst ((w # ws) ! k)) \<noteq> (if k = 0 then prev else lz_state (fst ((w # ws) ! (k - 1))))) \<longleftrightarrow>
      (c \<and> lz_state d \<noteq> prev) \<or>
      (\<exists>k < length ws. snd (ws ! k) \<and> lz_state (fst (ws ! k)) \<noteq> (if k = 0 then lz_state d else lz_state (fst (ws ! (k - 1)))))"
    by (simp add: w Ex_less_Suc2 nth_Cons' cong: conj_cong)
  show ?case
    unfolding shift using Cons.IH by (simp add: w subscribe_wake_def Let_def)
qed simp

end
