(* ===== verification/PoolLocks.thy ===== *)
theory PoolLocks
  imports Prelude
begin

text \<open>
  The locks of the application and of one lazy dialer: \<open>LoadConfig\<close> and \<open>UpdateMenu\<close> of \<open>internal/app/app.go\<close>,
  \<open>Track\<close> of \<open>pool.go\<close>, and \<open>Subscribe\<close>, \<open>Close\<close> and \<open>init\<close> of \<open>pkg/dialer/lazy.go\<close>, reduced to the order in
  which they take the application's mutex and the dialer's \<open>RWMutex\<close>. A reader waits while a writer
  waits, as \<open>sync.RWMutex\<close> documents.
\<close>

section \<open>A mutex and a read-write mutex\<close>

record locks =
  lk_mu :: "nat option"
  lk_readers :: "nat list"
  lk_writer :: "nat option"
  lk_waiting :: "nat list"

datatype lock_instr = MuLock | MuUnlock | DRLock | DRUnlock | DLock | DUnlock

text \<open>
  One attempt of thread \<open>i\<close>: \<open>None\<close> when it blocks, else the locks and whether the instruction is done. A
  writer first announces itself, then takes the lock when the readers are gone.
\<close>

fun lock_instr_exec :: "nat \<Rightarrow> lock_instr \<Rightarrow> locks \<Rightarrow> (locks \<times> bool) option" where
  "lock_instr_exec i MuLock l = (if lk_mu l = None then Some (l\<lparr>lk_mu := Some i\<rparr>, True) else None)"
| "lock_instr_exec i MuUnlock l = Some (l\<lparr>lk_mu := None\<rparr>, True)"
| "lock_instr_exec i DRLock l = (if lk_writer l = None \<and> lk_waiting l = []
     then Some (l\<lparr>lk_readers := i # lk_readers l\<rparr>, True) else None)"
| "lock_instr_exec i DRUnlock l = Some (l\<lparr>lk_readers := remove1 i (lk_readers l)\<rparr>, True)"
| "lock_instr_exec i DLock l =
     (if i \<notin> set (lk_waiting l) then Some (l\<lparr>lk_waiting := lk_waiting l @ [i]\<rparr>, False)
      else if lk_readers l = [] \<and> lk_writer l = None
        then Some (l\<lparr>lk_waiting := remove1 i (lk_waiting l), lk_writer := Some i\<rparr>, True)
      else None)"
| "lock_instr_exec i DUnlock l = Some (l\<lparr>lk_writer := None\<rparr>, True)"

section \<open>The threads\<close>

text \<open>\<open>LoadConfig\<close> holds the application's mutex while a deferred \<open>pd.Close\<close> calls \<open>Lazy.Close\<close>.\<close>

definition load_config_locks :: "lock_instr list" where
  "load_config_locks = [MuLock, DRLock, DRUnlock, MuUnlock]"

text \<open>
  \<open>Track\<close>: \<open>cond.Wait\<close> returns with the dialer's read lock, under which \<open>Subscribe\<close> yields; the loop body
  calls \<open>UpdateMenu\<close>; the next wait releases the read lock.
\<close>

definition track_locks :: "lock_instr list" where
  "track_locks = [DRLock, MuLock, MuUnlock, DRUnlock]"

text \<open>\<open>init\<close> takes the write lock when the new dialer is there or has failed.\<close>

definition init_locks :: "lock_instr list" where
  "init_locks = [DLock, DUnlock]"

type_synonym lock_sys = "locks \<times> lock_instr list list"

definition lock_start :: "lock_instr list list \<Rightarrow> lock_sys" where
  "lock_start ps = (\<lparr>lk_mu = None, lk_readers = [], lk_writer = None, lk_waiting = []\<rparr>, ps)"

definition lock_exec :: "nat \<Rightarrow> lock_sys \<Rightarrow> lock_sys option" where
  "lock_exec i s =
     (if i < length (snd s)
      then (case snd s ! i of
          [] \<Rightarrow> None
        | c # cs \<Rightarrow> map_option (\<lambda>(l, fin). (l, if fin then (snd s)[i := cs] else snd s)) (lock_instr_exec i c (fst s)))
      else None)"

fun lock_run :: "nat list \<Rightarrow> lock_sys \<Rightarrow> lock_sys option" where
  "lock_run [] s = Some s"
| "lock_run (i # is) s = Option.bind (lock_exec i s) (lock_run is)"

interpretation lock_runs: runs lock_exec lock_run
  by unfold_locales simp_all

definition finished :: "lock_sys \<Rightarrow> bool" where
  "finished s \<longleftrightarrow> list_all (\<lambda>p. p = []) (snd s)"

definition stuck :: "lock_sys \<Rightarrow> bool" where
  "stuck s \<longleftrightarrow> \<not> finished s \<and> list_all (\<lambda>i. lock_exec i s = None) [0..<length (snd s)]"

text \<open>The runs as an inductive relation; its rules are those of \<open>lock_run\<close>.\<close>

inductive lock_reach :: "lock_sys \<Rightarrow> lock_sys \<Rightarrow> bool" for s0 where
  reach_start: "lock_reach s0 s0"
| reach_step: "lock_reach s0 s \<Longrightarrow> lock_exec i s = Some s' \<Longrightarrow> lock_reach s0 s'"

inductive_cases lock_reachE: "lock_reach s0 s"

lemma lock_reach_run: "lock_run is s = Some s' \<Longrightarrow> lock_reach s0 s \<Longrightarrow> lock_reach s0 s'"
  by (induction "is" arbitrary: s) (auto simp: bind_eq_Some_conv intro: reach_step)

text \<open>A list of states that every step stays in holds every reachable state.\<close>

definition closed_under :: "nat \<Rightarrow> lock_sys list \<Rightarrow> bool" where
  "closed_under n L \<longleftrightarrow> list_all (\<lambda>s. length (snd s) = n \<and>
     list_all (\<lambda>i. case lock_exec i s of None \<Rightarrow> True | Some s' \<Rightarrow> List.member L s') [0..<n]) L"

lemma closed_under_reach:
  assumes "lock_reach s0 s" and "closed_under n L" and "s0 \<in> set L"
  shows "s \<in> set L"
  using assms(1)
proof induction
  case (reach_step s i s')
  then have "i < length (snd s)" by (auto simp: lock_exec_def split: if_splits)
  then show ?case using reach_step assms(2)
    by (force simp: closed_under_def list_all_iff)
qed (use assms(3) in simp)

fun explore :: "nat \<Rightarrow> lock_sys list \<Rightarrow> lock_sys list" where
  "explore 0 L = L"
| "explore (Suc n) L = explore n (foldl (\<lambda>L s'. List.insert s' L) L
     (concat (map (\<lambda>s. concat (map (\<lambda>i. case lock_exec i s of None \<Rightarrow> [] | Some s' \<Rightarrow> [s']) [0..<length (snd s)])) L)))"

section \<open>Properties\<close>


end
