(* ===== verification/Pac.thy ===== *)
theory Pac
  imports RuleTrie
begin

text \<open>
  The proxy auto-configuration script of \<open>pkg/httpproxy/pac.go\<close>: the text that \<open>ServeHTTP\<close> writes, the
  JavaScript string literals in it, and what a browser that runs the script decides, compared with what
  the rule set decides.
\<close>

section \<open>JSON strings\<close>

text \<open>The width of the UTF-8 sequence a string of bytes starts with, if it is a valid one beyond ASCII.\<close>

definition byte_in :: "nat \<Rightarrow> nat \<Rightarrow> char \<Rightarrow> bool" where
  "byte_in lo hi c \<longleftrightarrow> lo \<le> byte_of c \<and> byte_of c \<le> hi"

fun utf8_width :: "string \<Rightarrow> nat option" where
  "utf8_width (a # b # s) =
     (let n = (byte_of a :: nat); tail = list_all (byte_in 128 191) in
      if 194 \<le> n \<and> n \<le> 223 then (if byte_in 128 191 b then Some 2 else None)
      else if 224 \<le> n \<and> n \<le> 239 then
        (if byte_in (if n = 224 then 160 else 128) (if n = 237 then 159 else 191) b \<and> length (take 1 s) = 1 \<and> tail (take 1 s)
         then Some 3 else None)
      else if 240 \<le> n \<and> n \<le> 244 then
        (if byte_in (if n = 240 then 144 else 128) (if n = 244 then 143 else 191) b \<and> length (take 2 s) = 2 \<and> tail (take 2 s)
         then Some 4 else None)
      else None)"
| "utf8_width _ = None"

lemma utf8_width_pos: "utf8_width s = Some n \<Longrightarrow> 2 \<le> n \<and> n \<le> length s"
  by (induction s rule: utf8_width.induct) (auto simp: Let_def split: if_splits)

text \<open>\<open>json.Marshal\<close> of a string, with its HTML escaping; an invalid byte becomes the replacement character.\<close>

definition json_hex :: "nat \<Rightarrow> char" where
  "json_hex n = ''0123456789abcdef'' ! n"

definition escape_ascii :: "char \<Rightarrow> string" where
  "escape_ascii c =
     (let n = (byte_of c :: nat); bs = CHR 0x5C in
      if n = 0x22 \<or> n = 0x5C then [bs, c]
      else if n = 8 then [bs, CHR ''b''] else if n = 12 then [bs, CHR ''f''] else if n = 10 then [bs, CHR ''n'']
      else if n = 13 then [bs, CHR ''r''] else if n = 9 then [bs, CHR ''t'']
      else if n < 32 \<or> n = 0x3C \<or> n = 0x3E \<or> n = 0x26 then [bs] @ ''u00'' @ [json_hex (n div 16), json_hex (n mod 16)]
      else [c])"

definition escape_rune :: "string \<Rightarrow> string" where
  "escape_rune r =
     (if r = [CHR 0xE2, CHR 0x80, CHR 0xA8] then [CHR 0x5C] @ ''u2028''
      else if r = [CHR 0xE2, CHR 0x80, CHR 0xA9] then [CHR 0x5C] @ ''u2029'' else r)"

function json_escape :: "string \<Rightarrow> string" where
  "json_escape [] = []"
| "json_escape (c # s) =
     (if (byte_of c :: nat) < 128 then escape_ascii c @ json_escape s
      else (case utf8_width (c # s) of
          None \<Rightarrow> [CHR 0x5C] @ ''ufffd'' @ json_escape s
        | Some n \<Rightarrow> escape_rune (take n (c # s)) @ json_escape (drop n (c # s))))"
  by pat_completeness auto
termination
  by (relation "measure length") (auto dest: utf8_width_pos)

declare json_escape.simps [simp del]

definition js_string :: "string \<Rightarrow> string" where
  "js_string s = [CHR 0x22] @ json_escape s @ [CHR 0x22]"

text \<open>
  How JavaScript reads the rest of a string literal after the opening quote: the value and what follows the
  closing quote. Four hex digits are a code unit, here in UTF-8; a line end inside the literal is an error.
\<close>

definition utf8_encode :: "nat \<Rightarrow> string" where
  "utf8_encode n =
     (if n < 128 then [char_of n]
      else if n < 2048 then [char_of (192 + n div 64), char_of (128 + n mod 64)]
      else [char_of (224 + n div 4096), char_of (128 + n div 64 mod 64), char_of (128 + n mod 64)])"

fun hex4 :: "string \<Rightarrow> (nat \<times> string) option" where
  "hex4 (a # b # c # d # s) =
     (case (hex_val a, hex_val b, hex_val c, hex_val d) of
        (Some w, Some x, Some y, Some z) \<Rightarrow> Some (((w * 16 + x) * 16 + y) * 16 + z, s)
      | _ \<Rightarrow> None)"
| "hex4 _ = None"

lemma hex4_shorter: "hex4 s = Some (n, r) \<Longrightarrow> length r < length s"
  by (induction s rule: hex4.induct) (auto split: option.splits)

definition single_escape :: "char \<Rightarrow> string" where
  "single_escape c = (if c = CHR ''b'' then [CHR 0x08] else if c = CHR ''f'' then [CHR 0x0C] else if c = CHR ''n'' then [CHR 0x0A]
     else if c = CHR ''r'' then [CHR 0x0D] else if c = CHR ''t'' then [CHR 0x09] else [c])"

function js_read :: "string \<Rightarrow> (string \<times> string) option" where
  "js_read [] = None"
| "js_read (c # s) =
     (if c = CHR 0x22 then Some ([], s)
      else if c = CHR 0x0A \<or> c = CHR 0x0D then None
      else if c = CHR 0x5C then
        (case s of
           [] \<Rightarrow> None
         | e # t \<Rightarrow>
             if e = CHR ''u'' then (case hex4 t of
                 None \<Rightarrow> None
               | Some (n, t') \<Rightarrow> map_option (\<lambda>(v, r). (utf8_encode n @ v, r)) (js_read t'))
             else map_option (\<lambda>(v, r). (single_escape e @ v, r)) (js_read t))
      else map_option (\<lambda>(v, r). (c # v, r)) (js_read s))"
  by pat_completeness auto
termination
  by (relation "measure length") (auto dest: hex4_shorter)

declare js_read.simps [simp del]


section \<open>The script\<close>

definition line :: "string \<Rightarrow> string" where
  "line s = s @ [CHR 0x0A]"

definition tabs :: "nat \<Rightarrow> string" where
  "tabs n = replicate n (CHR 0x09)"

definition quoted_text :: "string \<Rightarrow> string" where
  "quoted_text s = [CHR 0x22] @ s @ [CHR 0x22]"

definition return_proxy :: "string \<Rightarrow> string" where
  "return_proxy rhost = line (tabs 2 @ ''return '' @ quoted_text (''PROXY '' @ rhost) @ '';'')"

text \<open>The loop over the hosts, with the text written so far and the checks collected so far.\<close>

fun pac_loop :: "string list \<Rightarrow> string \<times> string list \<Rightarrow> string \<times> string list" where
  "pac_loop [] st = st"
| "pac_loop (host # hosts) (w, checks) = pac_loop hosts
     (if has_prefix host ''*.'' then
        (let host = trim_prefix host ''*'' in
         (w, checks @ [''host.substring(host.length - '' @ nat_digits (length host) @ '') === '' @ js_string host]))
      else (case parse_cidr host of
          Inr (_, ipnet) \<Rightarrow> (w, checks @ [''isInNet(host, '' @ quoted_text (ip_string (net_ip ipnet)) @ '', '' @
            quoted_text (ip_string (net_mask ipnet)) @ '')''])
        | Inl _ \<Rightarrow> (w @ line (tabs 1 @ ''case '' @ js_string host @ '':''), checks)))"

definition pac_serve_http :: "string list \<Rightarrow> string \<Rightarrow> string" where
  "pac_serve_http hosts rhost =
     (let (w, checks) = pac_loop hosts
        (line ''function FindProxyForURL(url, host) {'' @ line (tabs 1 @ ''switch (host) {'') @ line (tabs 1 @ ''default:'') @
         line (tabs 2 @ ''break;''), [])
      in w @ return_proxy rhost @ line (tabs 1 @ ''}'') @
         line (tabs 1 @ ''if ('' @ join '' || '' checks @ '') {'') @ return_proxy rhost @ line (tabs 1 @ ''}'') @
         line (tabs 1 @ ''return '' @ quoted_text ''DIRECT'' @ '';'') @ line ''}'')"

section \<open>What the script decides\<close>

text \<open>
  An entry is a case of the switch or a check. \<open>in_net\<close> is the browser's \<open>isInNet\<close>. JavaScript's \<open>substring\<close>
  takes a negative start for 0, as subtraction on natural numbers does.
\<close>

datatype pac_entry = PacSuffix string | PacNet ipnet | PacCase string

definition pac_entry_of :: "string \<Rightarrow> pac_entry" where
  "pac_entry_of host = (if has_prefix host ''*.'' then PacSuffix (drop 1 host)
     else case parse_cidr host of Inr (_, n) \<Rightarrow> PacNet n | Inl _ \<Rightarrow> PacCase host)"

fun case_text :: "pac_entry \<Rightarrow> string" where
  "case_text (PacCase h) = line (tabs 1 @ ''case '' @ js_string h @ '':'')"
| "case_text _ = []"

fun check_text :: "pac_entry \<Rightarrow> string list" where
  "check_text (PacSuffix s) = [''host.substring(host.length - '' @ nat_digits (length s) @ '') === '' @ js_string s]"
| "check_text (PacNet n) = [''isInNet(host, '' @ quoted_text (ip_string (net_ip n)) @ '', '' @
     quoted_text (ip_string (net_mask n)) @ '')'']"
| "check_text (PacCase h) = []"

fun pac_holds :: "(ipnet \<Rightarrow> string \<Rightarrow> bool) \<Rightarrow> string \<Rightarrow> pac_entry \<Rightarrow> bool" where
  "pac_holds in_net h (PacSuffix s) = (drop (length h - length s) h = s)"
| "pac_holds in_net h (PacNet n) = in_net n h"
| "pac_holds in_net h (PacCase c) = (h = c)"

definition pac_proxied :: "(ipnet \<Rightarrow> string \<Rightarrow> bool) \<Rightarrow> string list \<Rightarrow> string \<Rightarrow> bool" where
  "pac_proxied in_net hosts h = list_ex (pac_holds in_net h) (map pac_entry_of hosts)"

lemma has_prefix_trim: "has_prefix h ''*.'' \<Longrightarrow> trim_prefix h ''*'' = drop 1 h"
  by (cases h) (auto simp: has_prefix_iff trim_prefix_def cut_prefix_def has_prefix_def)

lemma pac_loop_entries:
  "pac_loop hosts (w, checks) =
     (w @ concat (map (case_text \<circ> pac_entry_of) hosts), checks @ concat (map (check_text \<circ> pac_entry_of) hosts))"
  by (induction hosts arbitrary: w checks)
    (auto simp: pac_entry_of_def has_prefix_trim Let_def split: sum.split prod.split)

lemma pac_text:
  "pac_serve_http hosts rhost =
     line ''function FindProxyForURL(url, host) {'' @ line (tabs 1 @ ''switch (host) {'') @ line (tabs 1 @ ''default:'') @
     line (tabs 2 @ ''break;'') @ concat (map (case_text \<circ> pac_entry_of) hosts) @ return_proxy rhost @ line (tabs 1 @ ''}'') @
     line (tabs 1 @ ''if ('' @ join '' || '' (concat (map (check_text \<circ> pac_entry_of) hosts)) @ '') {'') @
     return_proxy rhost @ line (tabs 1 @ ''}'') @ line (tabs 1 @ ''return '' @ quoted_text ''DIRECT'' @ '';'') @ line ''}''"
  by (simp add: pac_serve_http_def pac_loop_entries)

text \<open>Without a wildcard and a network the condition is empty, which is not JavaScript: the browser rejects the script.\<close>

lemma pac_without_checks_broken:
  assumes "list_all (\<lambda>h. \<not> has_prefix h ''*.'' \<and> (\<exists>e. parse_cidr h = Inl e)) hosts"
  shows "\<exists>pre post. pac_serve_http hosts rhost = pre @ line (tabs 1 @ ''if () {'') @ post"
proof -
  have "concat (map (check_text \<circ> pac_entry_of) hosts) = []"
    using assms by (induction hosts) (auto simp: pac_entry_of_def)
  then show ?thesis unfolding pac_text by (metis append.assoc append_Cons append_Nil join.simps(1))
qed


section \<open>String literals read back\<close>

function utf8_valid :: "string \<Rightarrow> bool" where
  "utf8_valid [] = True"
| "utf8_valid (c # s) =
     (if (byte_of c :: nat) < 128 then utf8_valid s
      else (case utf8_width (c # s) of None \<Rightarrow> False | Some n \<Rightarrow> utf8_valid (drop n (c # s))))"
  by pat_completeness auto
termination
  by (relation "measure length") (auto dest: utf8_width_pos)

declare utf8_valid.simps [simp del]

lemma hex_val_json: "n < 16 \<Longrightarrow> hex_val (json_hex n) = Some n"
  by (simp add: less_Suc_eq numeral_eq_Suc) (auto simp: json_hex_def hex_val_def is_digit_def digit_val_def)

lemma js_read_plain:
  "c \<noteq> CHR 0x22 \<Longrightarrow> c \<noteq> CHR 0x0A \<Longrightarrow> c \<noteq> CHR 0x0D \<Longrightarrow> c \<noteq> CHR 0x5C \<Longrightarrow>
   js_read (c # s) = map_option (\<lambda>(v, r). (c # v, r)) (js_read s)"
  by (simp add: js_read.simps)

lemma js_read_unit:
  "a < 16 \<Longrightarrow> b < 16 \<Longrightarrow> c < 16 \<Longrightarrow> d < 16 \<Longrightarrow>
   js_read ([CHR 0x5C] @ [CHR ''u'', json_hex a, json_hex b, json_hex c, json_hex d] @ s) =
     map_option (\<lambda>(v, r). (utf8_encode (((a * 16 + b) * 16 + c) * 16 + d) @ v, r)) (js_read s)"
  by (simp add: js_read.simps hex_val_json)

lemma json_hex_digits [simp]: "json_hex 0 = CHR ''0''" "json_hex 2 = CHR ''2''" "json_hex 8 = CHR ''8''" "json_hex 9 = CHR ''9''"
  by (simp_all add: json_hex_def)

lemma char_eqI: "(byte_of c :: nat) = byte_of d \<Longrightarrow> c = d"
  by (metis char_of_char)

lemma js_read_ascii:
  assumes "(byte_of c :: nat) < 128"
  shows "js_read (escape_ascii c @ s) = map_option (\<lambda>(v, r). (c # v, r)) (js_read s)"
proof -
  let ?n = "byte_of c :: nat"
  consider "?n = 34 \<or> ?n = 92" | "?n \<in> {8, 12, 10, 13, 9}"
    | "?n < 32 \<or> ?n = 60 \<or> ?n = 62 \<or> ?n = 38" "?n \<notin> {8, 12, 10, 13, 9}"
    | "?n \<notin> {34, 92, 8, 12, 10, 13, 9, 60, 62, 38}" "32 \<le> ?n" by fastforce
  then show ?thesis
  proof cases
    case 3
    have "?n div 16 < 16" "?n mod 16 < 16" using assms by auto
    then have "js_read ([CHR 0x5C] @ [CHR ''u'', json_hex 0, json_hex 0, json_hex (?n div 16), json_hex (?n mod 16)] @ s) =
        map_option (\<lambda>(v, r). (utf8_encode (((0 * 16 + 0) * 16 + ?n div 16) * 16 + ?n mod 16) @ v, r)) (js_read s)"
      by (intro js_read_unit) simp_all
    moreover have "escape_ascii c = [CHR 0x5C] @ [CHR ''u'', json_hex 0, json_hex 0, json_hex (?n div 16), json_hex (?n mod 16)]"
      using 3 by (auto simp: escape_ascii_def Let_def)
    moreover have "utf8_encode ?n = [c]" using assms by (simp add: utf8_encode_def)
    ultimately show ?thesis by simp
  next
    case 4
    then have "escape_ascii c = [c]" by (auto simp: escape_ascii_def)
    moreover have "c \<noteq> CHR 0x22" "c \<noteq> CHR 0x0A" "c \<noteq> CHR 0x0D" "c \<noteq> CHR 0x5C" using 4 by auto
    ultimately show ?thesis by (simp add: js_read_plain)
  next
    case 2
    then have "c \<in> {CHR 0x08, CHR 0x0C, CHR 0x0A, CHR 0x0D, CHR 0x09}"
      using char_eqI [of c "CHR 0x08"] char_eqI [of c "CHR 0x0C"] char_eqI [of c "CHR 0x0A"] char_eqI [of c "CHR 0x0D"]
        char_eqI [of c "CHR 0x09"] by auto
    then show ?thesis by (auto simp: escape_ascii_def js_read.simps single_escape_def)
  next
    case 1
    then have "c \<in> {CHR 0x22, CHR 0x5C}" using char_eqI [of c "CHR 0x22"] char_eqI [of c "CHR 0x5C"] by auto
    then show ?thesis by (auto simp: escape_ascii_def js_read.simps single_escape_def Let_def)
  qed
qed

lemma js_read_high:
  "list_all (\<lambda>c. 128 \<le> (byte_of c :: nat)) r \<Longrightarrow> js_read (r @ s) = map_option (\<lambda>(v, t). (r @ v, t)) (js_read s)"
proof (induction r)
  case Nil
  then show ?case by (cases "js_read s") auto
next
  case (Cons c r)
  then have "c \<noteq> CHR 0x22" "c \<noteq> CHR 0x0A" "c \<noteq> CHR 0x0D" "c \<noteq> CHR 0x5C" by auto
  then show ?case using Cons by (cases "js_read s") (auto simp: js_read_plain)
qed

lemma utf8_width_high:
  assumes "utf8_width s = Some n"
  shows "list_all (\<lambda>c. 128 \<le> (byte_of c :: nat)) (take n s)"
  using assms by (induction s rule: utf8_width.induct)
    (auto simp: Let_def byte_in_def list_all_iff numeral_2_eq_2 numeral_3_eq_3 take_Suc_conv_app_nth split: if_splits)


lemma line_separator_bytes: "utf8_encode 0x2028 = [CHR 0xE2, CHR 0x80, CHR 0xA8]" "utf8_encode 0x2029 = [CHR 0xE2, CHR 0x80, CHR 0xA9]"
  by (auto simp: utf8_encode_def intro!: char_eqI)

lemma escape_rune_read:
  assumes "list_all (\<lambda>c. 128 \<le> (byte_of c :: nat)) r"
  shows "js_read (escape_rune r @ s) = map_option (\<lambda>(v, t). (r @ v, t)) (js_read s)"
  using js_read_high [OF assms, of s] js_read_unit [of 2 0 2 8 s] js_read_unit [of 2 0 2 9 s]
  by (simp add: escape_rune_def line_separator_bytes)

lemma json_escape_read:
  "utf8_valid s \<Longrightarrow> js_read (json_escape s @ [CHR 0x22] @ rest) = Some (s, rest)"
proof (induction s rule: json_escape.induct)
  case (2 c s)
  show ?case
  proof (cases "(byte_of c :: nat) < 128")
    case True
    then show ?thesis using 2 by (simp add: json_escape.simps utf8_valid.simps(2) js_read_ascii)
  next
    case False
    with 2(4) have "\<exists>n. utf8_width (c # s) = Some n \<and> utf8_valid (drop n (c # s))"
      by (simp add: utf8_valid.simps(2) split: option.splits)
    then obtain n where n: "utf8_width (c # s) = Some n" "utf8_valid (drop n (c # s))" by blast
    then have "js_read (json_escape (drop n (c # s)) @ [CHR 0x22] @ rest) = Some (drop n (c # s), rest)"
      using 2(3) [OF False n(1)] n(2) by blast
    then show ?thesis
      using False n escape_rune_read [OF utf8_width_high [OF n(1)]] by (simp add: json_escape.simps(2))
  qed
qed (simp add: json_escape.simps js_read.simps)

section \<open>Hosts of a rule set\<close>

text \<open>A host name in the form a browser hands over: lower-case letters, digits, hyphens, underscores and dots.\<close>

definition host_name :: "string \<Rightarrow> bool" where
  "host_name h \<longleftrightarrow> list_all (\<lambda>c. is_digit c \<or> 97 \<le> (byte_of c :: nat) \<and> byte_of c \<le> (122 :: nat) \<or> c \<in> set ''-_.'') h"

lemma host_name_canonical:
  assumes "host_name h"
  shows "canonocalize_host ul h = h"
proof -
  have "list_all (\<lambda>c. 33 \<le> (byte_of c :: nat) \<and> byte_of c < (128 :: nat)) h" "map lower_char h = h"
    using assms by (auto simp: host_name_def list_all_iff is_digit_def lower_char_def intro!: map_idI)
  then show ?thesis by (simp add: canonocalize_graphic)
qed

lemma host_name_chars: "host_name h \<Longrightarrow> CHR ''/'' \<notin> set h \<and> CHR ''<'' \<notin> set h"
  by (auto simp: host_name_def list_all_iff is_digit_def)

lemma set_join: "set (join sep xs) \<subseteq> set sep \<union> \<Union> (set ` set xs)"
  by (induction sep xs rule: join.induct) auto

lemma digit_not_star: "d < 16 \<Longrightarrow> hex_digit d \<noteq> CHR ''*''"
  by (auto simp: hex_digit_def dest: arg_cong [where f = "byte_of :: char \<Rightarrow> nat"])

lemma hex_digits_not_star: "CHR ''*'' \<notin> set (hex_digits n)"
proof (induction n rule: hex_digits.induct)
  case (1 n)
  then show ?case using digit_not_star [of n] digit_not_star [of "n mod 16"]
    by (subst hex_digits.simps) auto
qed

lemma nat_digits_not_star: "CHR ''*'' \<notin> set (nat_digits n)"
  using nat_digits_all_digits [of n] by (auto simp: list_all_iff is_digit_def)

lemma join_not_star: "CHR ''*'' \<notin> set sep \<Longrightarrow> \<forall>x \<in> set xs. CHR ''*'' \<notin> set x \<Longrightarrow> CHR ''*'' \<notin> set (join sep xs)"
  using set_join [of sep xs] by auto

lemma hex_string_not_star: "CHR ''*'' \<notin> set (hex_string b)"
proof -
  have "CHR ''*'' \<noteq> hex_digit (unat x div 16)" "CHR ''*'' \<noteq> hex_digit (unat x mod 16)" for x :: byte
    using unsigned_less [of x, where 'a = nat] digit_not_star [of "unat x div 16", THEN not_sym]
      digit_not_star [of "unat x mod 16", THEN not_sym] by (simp_all add: less_mult_imp_div_less)
  then show ?thesis by (auto simp: hex_string_def)
qed

lemma ip_string_not_star: "CHR ''*'' \<notin> set (ip_string ip)"
proof -
  have "CHR ''*'' \<notin> set (ipv4_string b)" for b
    unfolding ipv4_string_def by (rule join_not_star) (auto simp: nat_digits_not_star)
  moreover have "CHR ''*'' \<notin> set (ipv6_string b)" for b
  proof -
    have "CHR ''*'' \<notin> set (join '':'' (map hex_digits gs))" for gs
      by (rule join_not_star) (auto simp: hex_digits_not_star)
    then show ?thesis by (simp add: ipv6_string_def Let_def split: option.split)
  qed
  moreover note hex_string_not_star
  ultimately show ?thesis by (auto simp: ip_string_def split: option.split)
qed

lemma ipnet_string_not_star: "CHR ''*'' \<notin> set (ipnet_string n)"
proof -
  have "CHR ''*'' \<notin> set (mask_string m)" for m
    using hex_string_not_star by (simp add: mask_string_def)
  then show ?thesis using ip_string_not_star nat_digits_not_star
    by (auto simp: ipnet_string_def split: option.split prod.split)
qed

lemma ipnet_string_not_name: "host_name h \<Longrightarrow> ipnet_string n \<noteq> h"
  using host_name_chars [of h] by (auto simp: ipnet_string_def split: option.splits prod.splits)


text \<open>A zone covers a name when the name is the zone with labels before it.\<close>


lemma join_append: "xs \<noteq> [] \<Longrightarrow> ys \<noteq> [] \<Longrightarrow> join sep (xs @ ys) = join sep xs @ sep @ join sep ys"
proof (induction xs)
  case (Cons x xs)
  then show ?case by (cases "xs = []") (simp_all add: join_Cons)
qed simp

lemma suffix_lookup_iff: "suffix_lookup m ls \<noteq> None \<longleftrightarrow> (\<exists>i < length ls. join ''.'' (drop i ls) \<in> dom m)"
proof (induction ls)
  case (Cons l ls)
  then show ?case by (auto simp: less_Suc_eq_0_disj split: option.splits)
qed simp

lemma under_zone_iff:
  "suffix_lookup m (tl (split_host h)) \<noteq> None \<longleftrightarrow> (\<exists>k \<in> dom m. \<exists>p. h = p @ ''.'' @ k)"
proof
  assume "suffix_lookup m (tl (split_host h)) \<noteq> None"
  then obtain i where i: "i < length (tl (split_host h))" "join ''.'' (drop i (tl (split_host h))) \<in> dom m"
    unfolding suffix_lookup_iff by blast
  let ?k = "join ''.'' (drop (Suc i) (split_host h))"
  have "h = join ''.'' (take (Suc i) (split_host h)) @ ''.'' @ ?k"
  proof -
    have "join ''.'' (take (Suc i) (split_host h) @ drop (Suc i) (split_host h)) =
        join ''.'' (take (Suc i) (split_host h)) @ ''.'' @ ?k"
      using i(1) by (intro join_append) (simp_all add: split_host_def)
    then show ?thesis by (simp add: split_host_join)
  qed
  then show "\<exists>k \<in> dom m. \<exists>p. h = p @ ''.'' @ k" using i(2) by (auto simp: drop_Suc)
next
  assume "\<exists>k \<in> dom m. \<exists>p. h = p @ ''.'' @ k"
  then obtain k p where k: "k \<in> dom m" and h: "h = p @ ''.'' @ k" by blast
  have s: "split_host h = split_host p @ split_host k" unfolding h split_host_def by (rule split_on_at)
  have ne: "split_host p \<noteq> []" "split_host k \<noteq> []" by (simp_all add: split_host_def)
  have t: "tl (split_host h) = tl (split_host p) @ split_host k" using s ne by simp
  have "length (tl (split_host p)) < length (tl (split_host h)) \<and>
      join ''.'' (drop (length (tl (split_host p))) (tl (split_host h))) \<in> dom m"
    unfolding t using ne k by (simp add: split_host_join)
  then show "suffix_lookup m (tl (split_host h)) \<noteq> None" unfolding suffix_lookup_iff by blast
qed

lemma pac_suffix_iff: "drop (length h - length s) h = s \<longleftrightarrow> (\<exists>p. h = p @ s)"
  by (metis append_eq_conv_conj append_take_drop_id length_append add_diff_cancel_right')


section \<open>Properties\<close>

text \<open>C31: whatever host the script names, its string literal ends where it should and JavaScript reads back the host:
  no rule can break out of its literal. \<close>

theorem js_string_read_back:
  assumes "utf8_valid s"
  shows "\<exists>body. js_string s = CHR 0x22 # body \<and> js_read (body @ rest) = Some (s, rest)"
  using json_escape_read [OF assms] by (simp add: js_string_def)

lemma js_string_read_back_witness:
  "\<exists>body. js_string [CHR ''a'', CHR 0x22, CHR 0xC3, CHR 0xA9] = CHR 0x22 # body \<and>
     js_read (body @ '';'') = Some ([CHR ''a'', CHR 0x22, CHR 0xC3, CHR 0xA9], '';'')"
  by (rule js_string_read_back) (simp add: utf8_valid.simps byte_in_def)



definition sample_rules :: "(string \<times> nat) list" where
  "sample_rules = [(''a.b'', 1), (''*.c.d'', 2)]"


end
