(* ===== verification/HttpProxy.thy ===== *)
theory HttpProxy
  imports Pac Mux AppConfig
begin

text \<open>
  The HTTP proxy of \<open>pkg/httpproxy/server.go\<close> and the handler that \<open>internal/app/proxy.go\<close> gives it:
  CONNECT requests become tunnels, requests for an absolute URL are forwarded, the rest goes to the
  handler. The dialer, the hijacked connection and \<open>http.Client\<close> are parameters.
\<close>

section \<open>Responses\<close>

text \<open>
  \<open>http.ResponseWriter\<close>: the header map, the status with the headers as they were when it was sent, the
  body. The first \<open>WriteHeader\<close> counts; a write without one sends 200.
\<close>

type_synonym header = "(string, string list) gomap"

record response_writer =
  rw_header :: header
  rw_sent :: "(nat \<times> header) option"
  rw_body :: string

definition new_writer :: response_writer where
  "new_writer = \<lparr>rw_header = [], rw_sent = None, rw_body = []\<rparr>"

definition write_header :: "nat \<Rightarrow> response_writer \<Rightarrow> response_writer" where
  "write_header code w = (if rw_sent w = None then w\<lparr>rw_sent := Some (code, rw_header w)\<rparr> else w)"

definition write_body :: "string \<Rightarrow> response_writer \<Rightarrow> response_writer" where
  "write_body s w = (write_header 200 w)\<lparr>rw_body := rw_body w @ s\<rparr>"

text \<open>\<open>Header.Set\<close> and \<open>Header.Add\<close> of a key in canonical form.\<close>

definition header_set :: "string \<Rightarrow> string \<Rightarrow> response_writer \<Rightarrow> response_writer" where
  "header_set k v w = w\<lparr>rw_header := AList.update k [v] (rw_header w)\<rparr>"

definition header_add :: "string \<Rightarrow> string \<Rightarrow> response_writer \<Rightarrow> response_writer" where
  "header_add k v w = w\<lparr>rw_header :=
     AList.update k ((case map_of (rw_header w) k of None \<Rightarrow> [] | Some vs \<Rightarrow> vs) @ [v]) (rw_header w)\<rparr>"

definition http_error :: "string \<Rightarrow> nat \<Rightarrow> response_writer \<Rightarrow> response_writer" where
  "http_error text code w =
     (let w = w\<lparr>rw_header := AList.delete ''Content-Length'' (rw_header w)\<rparr>;
          w = header_set ''Content-Type'' ''text/plain; charset=utf-8'' w;
          w = header_set ''X-Content-Type-Options'' ''nosniff'' w
      in write_body (line text) (write_header code w))"

section \<open>Tunnels\<close>

text \<open>
  What a tunnel does outside the response: dial, take over the client's connection, write to it raw, join
  the two, and its deferred closes and cancel.
\<close>

datatype 'c tunnel_event =
    Dial string string
  | Hijack
  | WriteRaw string
  | JoinWith 'c
  | JoinClosedDest 'c
  | JoinClosedClient
  | CloseDest 'c
  | CloseClient
  | CancelCtx

text \<open>
  The answers of the surroundings, in the order in which they are asked for. The two goroutines of \<open>netutil.Join\<close> close what they copied
  to after they have reported, first the one or the other, at any time from the start of the join on: \<open>te_sched\<close> says when.
\<close>

record 'c tunnel_env =
  te_hijacker :: bool
  te_dial :: "string \<Rightarrow> string \<Rightarrow> 'c option \<times> goerr option"
  te_hijack :: "goerr option"
  te_write :: "goerr option"
  te_sched :: "bool list"
  te_dest_first :: bool

definition join_closes :: "'c tunnel_env \<Rightarrow> 'c \<Rightarrow> 'c tunnel_event list" where
  "join_closes E dest = (if te_dest_first E then [JoinClosedDest dest, JoinClosedClient] else [JoinClosedClient, JoinClosedDest dest])"

definition status_text :: "nat \<Rightarrow> string" where
  "status_text n = (if n = 500 then ''Internal Server Error'' else if n = 503 then ''Service Unavailable'' else [])"

text \<open>A connection that is nil without an error makes the deferred \<open>Close\<close> panic: \<open>None\<close>.\<close>

definition tunnel ::
  "'c tunnel_env \<Rightarrow> string \<Rightarrow> response_writer \<Rightarrow> (goerr option \<times> response_writer \<times> 'c tunnel_event list) option" where
  "tunnel E host w =
     (let t = on_return CancelCtx ([], []) in
      if \<not> te_hijacker E then
        Some (Some (ErrText ''hijacking of connection not supported''), http_error (status_text 500) 500 w, returned t)
      else
        (let t = emit [Dial ''tcp'' host] t in
         case te_dial E ''tcp'' host of
           (_, Some e) \<Rightarrow> Some (Some (ErrWrap (''failed to connect to upstream '' @ host @ '': '') e),
               http_error (status_text 503) 503 w, returned t)
         | (None, None) \<Rightarrow> None
         | (Some dest, None) \<Rightarrow>
             let t = on_return (CloseDest dest) t in
             (case te_hijack E of
                Some e \<Rightarrow> Some (Some (ErrWrap ''failed to hijack the connection: '' e), http_error (status_text 500) 500 w, returned t)
              | None \<Rightarrow>
                  let t = on_return CloseClient (emit [Hijack] t);
                      t = emit [WriteRaw (''HTTP/1.1 200 Connection Established'' @ [CHR 0x0D, CHR 0x0A, CHR 0x0D, CHR 0x0A])] t
                  in (case te_write E of
                        Some e \<Rightarrow> Some (Some (ErrWrap ''failed to write CONNECT response: '' e), w, returned t)
                      | None \<Rightarrow>
                          let t = emit [JoinWith dest] t
                          in Some (None, w, fst t @ interleave (te_sched E) (join_closes E dest) (rev (snd t)))))))"

section \<open>Forwarded requests\<close>

record upstream_response =
  us_status :: nat
  us_header :: header
  us_body :: string

record request =
  rq_method :: string
  rq_uri :: string
  rq_url :: url
  rq_host :: string
  rq_header :: header
  rq_body :: string

datatype forward_event = CloseBody | CancelForward

text \<open>
  \<open>new_request\<close> is \<open>http.NewRequestWithContext\<close>, \<open>do\<close> is \<open>Client.Do\<close>; \<open>hs\<close> is the order in which the runtime
  ranges over the response's headers; \<open>canon\<close> is \<open>CanonicalMIMEHeaderKey\<close>, \<open>copied\<close> the part of the body that
  \<open>io.Copy\<close> moved before an error.
\<close>

definition forward ::
  "(string \<Rightarrow> string) \<Rightarrow> (goerr \<Rightarrow> string) \<Rightarrow> (string \<Rightarrow> string \<Rightarrow> string \<Rightarrow> 'q res) \<Rightarrow> ('q \<Rightarrow> header \<Rightarrow> upstream_response res) \<Rightarrow>
   (header \<Rightarrow> (string \<times> string list) list) \<Rightarrow> (string \<Rightarrow> string) \<Rightarrow> request \<Rightarrow> response_writer \<Rightarrow>
   goerr option \<times> response_writer \<times> forward_event list" where
  "forward canon err_text new_request do ord copied r w =
     (let t = on_return CancelForward ([], []) in
      case new_request (rq_method r) (rq_uri r) (rq_body r) of
        Inl e \<Rightarrow> (Some e, http_error (err_text e) 400 w, returned t)
      | Inr q \<Rightarrow>
          (case do q (rq_header r) of
             Inl e \<Rightarrow> (Some e, http_error (err_text e) 502 w, returned t)
           | Inr resp \<Rightarrow>
               let t = on_return CloseBody t;
                   w = foldl (\<lambda>w (k, vv). foldl (\<lambda>w v. header_add (canon k) v w) w vv) w (ord (us_header resp));
                   w = write_header (us_status resp) w;
                   w = write_body (copied (us_body resp)) w
               in (None, w, returned t)))"

section \<open>Dispatch\<close>

text \<open>What \<open>ServeHTTP\<close> did with a request; \<open>handler\<close> is nil when the server has none.\<close>

definition is_abs :: "url \<Rightarrow> bool" where
  "is_abs u \<longleftrightarrow> u_scheme u \<noteq> []"

datatype 'c served =
    Tunnelled "goerr option \<times> response_writer \<times> 'c tunnel_event list"
  | Forwarded "goerr option \<times> response_writer \<times> forward_event list"
  | Handled response_writer

definition serve_http ::
  "(string \<Rightarrow> string) \<Rightarrow> 'c tunnel_env \<Rightarrow> (request \<Rightarrow> response_writer \<Rightarrow> goerr option \<times> response_writer \<times> forward_event list) \<Rightarrow>
   (request \<Rightarrow> response_writer \<Rightarrow> response_writer) option \<Rightarrow> request \<Rightarrow> response_writer \<Rightarrow> 'c served option" where
  "serve_http uu E fwd handler r w =
     (if to_upper uu (rq_method r) = ''CONNECT'' then map_option Tunnelled (tunnel E (rq_host r) w)
      else if is_abs (rq_url r) then Some (Forwarded (fwd r w))
      else (case handler of
          Some h \<Rightarrow> Some (Handled (h r w))
        | None \<Rightarrow> Some (Handled (http_error ''400 Bad Request'' 400 w))))"

text \<open>\<open>Serve\<close> gives the client a transport over the dialer unless it has one.\<close>

definition ensure_transport :: "'d \<Rightarrow> 'd option \<Rightarrow> 'd" where
  "ensure_transport dialer transport = (case transport of None \<Rightarrow> dialer | Some t \<Rightarrow> t)"

text \<open>
  The handler of the application, for clean paths: the script under its path, the profiler under its prefix
  (\<open>pprof\<close>, and a redirect for the prefix without its slash), and 404 for the rest, as \<open>http.ServeMux\<close> does.
\<close>

definition pac_handler :: "string list \<Rightarrow> request \<Rightarrow> response_writer \<Rightarrow> response_writer" where
  "pac_handler hosts r w =
     write_body (pac_serve_http hosts (rq_host r)) (header_set ''Content-Type'' ''application/x-ns-proxy-autoconfig'' w)"

definition app_handler ::
  "string list \<Rightarrow> (request \<Rightarrow> response_writer \<Rightarrow> response_writer) \<Rightarrow> (request \<Rightarrow> response_writer \<Rightarrow> response_writer) \<Rightarrow>
   request \<Rightarrow> response_writer \<Rightarrow> response_writer" where
  "app_handler hosts pprof redirect r w =
     (if u_path (rq_url r) = ''/proxy.pac'' then pac_handler hosts r w
      else if has_prefix (u_path (rq_url r)) ''/debug/pprof/'' then pprof r w
      else if u_path (rq_url r) = ''/debug/pprof'' then redirect r w
      else http_error ''404 page not found'' 404 w)"


section \<open>Headers relayed\<close>

lemma header_add_rest [simp]:
  "rw_sent (header_add k v w) = rw_sent w" "rw_body (header_add k v w) = rw_body w"
  by (simp_all add: header_add_def)

lemma header_add_all:
  "map_of (rw_header (foldl (\<lambda>w v. header_add k v w) w vv)) =
     (if vv = [] then map_of (rw_header w)
      else (map_of (rw_header w))(k \<mapsto> (case map_of (rw_header w) k of None \<Rightarrow> [] | Some vs \<Rightarrow> vs) @ vv))"
  "rw_sent (foldl (\<lambda>w v. header_add k v w) w vv) = rw_sent w"
  "rw_body (foldl (\<lambda>w v. header_add k v w) w vv) = rw_body w"
  by (induction vv arbitrary: w) (auto simp: header_add_def go_simps)

lemma headers_copied:
  assumes "distinct (map fst hs)" and "\<forall>kv \<in> set hs. snd kv \<noteq> [] \<and> map_of (rw_header w) (fst kv) = None"
  shows "map_of (rw_header (foldl (\<lambda>w (k, vv). foldl (\<lambda>w v. header_add k v w) w vv) w hs)) = map_of (rw_header w) ++ map_of hs"
    and "rw_sent (foldl (\<lambda>w (k, vv). foldl (\<lambda>w v. header_add k v w) w vv) w hs) = rw_sent w"
    and "rw_body (foldl (\<lambda>w (k, vv). foldl (\<lambda>w v. header_add k v w) w vv) w hs) = rw_body w"
proof -
  have "map_of (rw_header (foldl (\<lambda>w (k, vv). foldl (\<lambda>w v. header_add k v w) w vv) w hs)) = map_of (rw_header w) ++ map_of hs \<and>
      rw_sent (foldl (\<lambda>w (k, vv). foldl (\<lambda>w v. header_add k v w) w vv) w hs) = rw_sent w \<and>
      rw_body (foldl (\<lambda>w (k, vv). foldl (\<lambda>w v. header_add k v w) w vv) w hs) = rw_body w"
    using assms
  proof (induction hs arbitrary: w)
    case (Cons h hs)
    obtain k vv where h: "h = (k, vv)" by fastforce
    let ?w = "foldl (\<lambda>w v. header_add k v w) w vv"
    have m: "map_of (rw_header ?w) = (map_of (rw_header w))(k \<mapsto> vv)" using Cons.prems(2) by (simp add: h header_add_all)
    have k: "map_of hs k = None" using Cons.prems(1) by (simp add: h map_of_eq_None_iff)
    have "snd kv \<noteq> [] \<and> map_of (rw_header ?w) (fst kv) = None" if i: "kv \<in> set hs" for kv
    proof -
      have "fst kv \<noteq> k" using Cons.prems(1) i by (auto simp: h)
      then show ?thesis using Cons.prems(2) i by (simp add: h m)
    qed
    moreover have "vv \<noteq> []" "map_of (rw_header w) k = None" using Cons.prems(2) by (simp_all add: h)
    ultimately show ?case using Cons.IH [of ?w] Cons.prems(1)
      by (auto simp: h header_add_all m fun_eq_iff map_add_def k split: option.split)
  qed simp
  then show "map_of (rw_header (foldl (\<lambda>w (k, vv). foldl (\<lambda>w v. header_add k v w) w vv) w hs)) = map_of (rw_header w) ++ map_of hs"
    and "rw_sent (foldl (\<lambda>w (k, vv). foldl (\<lambda>w v. header_add k v w) w vv) w hs) = rw_sent w"
    and "rw_body (foldl (\<lambda>w (k, vv). foldl (\<lambda>w v. header_add k v w) w vv) w hs) = rw_body w" by blast+
qed

section \<open>Properties\<close>


definition sample_tunnel :: "nat tunnel_env" where
  "sample_tunnel = \<lparr>te_hijacker = True, te_dial = (\<lambda>_ _. (Some 7, None)), te_hijack = None, te_write = None,
     te_sched = [False, True, False], te_dest_first = True\<rparr>"


text \<open>C24: an answered upstream request is relayed: the client gets the upstream's status, all its headers with all
  their values in order, and the body that could be read; the upstream body is closed and then the request cancelled. \<close>

theorem forward_relays:
  assumes "new_request (rq_method r) (rq_uri r) (rq_body r) = Inr q" and "do q (rq_header r) = Inr resp"
    and "range_of (us_header resp) (ord (us_header resp))"
    and "\<forall>(k, vv) \<in> set (us_header resp). canon k = k \<and> vv \<noteq> []"
  shows "\<exists>h. forward canon err_text new_request do ord copied r new_writer =
      (None, \<lparr>rw_header = h, rw_sent = Some (us_status resp, h), rw_body = copied (us_body resp)\<rparr>, [CloseBody, CancelForward]) \<and>
    map_of h = map_of (us_header resp)"
proof -
  let ?hs = "ord (us_header resp)"
  have sub: "set ?hs \<subseteq> set (us_header resp)" using range_of_set [OF assms(3)] by (auto dest: map_of_SomeD)
  have d: "distinct (map fst ?hs)" using assms(3) by (simp add: range_of_def)
  have k: "canon (fst kv) = fst kv \<and> snd kv \<noteq> []" if "kv \<in> set ?hs" for kv using assms(4) sub that by (cases kv) auto
  then have ne: "\<forall>kv \<in> set ?hs. snd kv \<noteq> [] \<and> map_of (rw_header new_writer) (fst kv) = None"
    by (simp add: new_writer_def)
  define w where "w = foldl (\<lambda>w (k, vv). foldl (\<lambda>w v. header_add k v w) w vv) new_writer ?hs"
  have e: "foldl (\<lambda>w (k, vv). foldl (\<lambda>w v. header_add (canon k) v w) w vv) new_writer ?hs = w"
    unfolding w_def using k by (intro foldl_cong) (simp_all add: case_prod_beta')
  have "map_of (rw_header w) = map_of (us_header resp)" "rw_sent w = None" "rw_body w = []"
    using headers_copied [OF d ne] assms(3) by (simp_all add: w_def range_of_def new_writer_def)
  then show ?thesis
    using assms(1,2) e by (cases w) (simp add: forward_def write_header_def write_body_def Let_def)
qed

definition sample_request :: request where
  "sample_request = \<lparr>rq_method = ''GET'', rq_uri = ''http://h/'', rq_url = empty_url\<lparr>u_scheme := ''http''\<rparr>, rq_host = ''h'', rq_header = [], rq_body = []\<rparr>"

lemma forward_relays_witness:
  "\<exists>h. forward id (\<lambda>_. []) (\<lambda>m u b. Inr u)
       (\<lambda>q hd. Inr \<lparr>us_status = 404, us_header = [(''Vary'', [''a'', ''b''])], us_body = ''no''\<rparr>) id id sample_request new_writer =
      (None, \<lparr>rw_header = h, rw_sent = Some (404, h), rw_body = ''no''\<rparr>, [CloseBody, CancelForward]) \<and>
     map_of h = map_of [(''Vary'', [''a'', ''b''])]"
  using forward_relays [of "\<lambda>m u b. Inr u" sample_request "''http://h/''"
      "\<lambda>q hd. Inr \<lparr>us_status = 404, us_header = [(''Vary'', [''a'', ''b''])], us_body = ''no''\<rparr>" _ id id "\<lambda>_. []" id]
  by (simp add: sample_request_def range_of_def)

text \<open>the proxy's own pages: a request for \<open>/proxy.pac\<close> that is neither a CONNECT nor for an absolute URL is answered
  with the script over the current rules, addressed to the host the request came to, and status 200. \<close>

theorem serves_pac_script:
  assumes "to_upper uu (rq_method r) \<noteq> ''CONNECT''" and "u_scheme (rq_url r) = []" and "u_path (rq_url r) = ''/proxy.pac''"
  shows "serve_http uu E fwd (Some (app_handler hosts pprof redirect)) r new_writer =
    Some (Handled \<lparr>rw_header = [(''Content-Type'', [''application/x-ns-proxy-autoconfig''])],
      rw_sent = Some (200, [(''Content-Type'', [''application/x-ns-proxy-autoconfig''])]),
      rw_body = pac_serve_http hosts (rq_host r)\<rparr>)"
  using assms by (simp add: serve_http_def is_abs_def app_handler_def pac_handler_def write_body_def write_header_def
      header_set_def new_writer_def)

lemma serves_pac_script_witness:
  "serve_http id sample_tunnel (\<lambda>r w. (None, w, [])) (Some (app_handler [''a.b''] (\<lambda>r w. w) (\<lambda>r w. w)))
     \<lparr>rq_method = ''GET'', rq_uri = ''/proxy.pac'', rq_url = empty_url\<lparr>u_path := ''/proxy.pac''\<rparr>, rq_host = ''h'', rq_header = [], rq_body = []\<rparr>
     new_writer =
   Some (Handled \<lparr>rw_header = [(''Content-Type'', [''application/x-ns-proxy-autoconfig''])],
      rw_sent = Some (200, [(''Content-Type'', [''application/x-ns-proxy-autoconfig''])]),
      rw_body = pac_serve_http [''a.b''] ''h''\<rparr>)"
  by (subst serves_pac_script) (simp_all add: empty_url_def to_upper_def ascii_string_def upper_char_def)

end
