(* ===== verification/SshProxy.thy ===== *)
theory SshProxy
  imports Dialers AppConfig
begin

text \<open>
  The SSH side: the server of \<open>pkg/sshproxy/server.go\<close> with the host key that \<open>internal/app/proxy.go\<close> gives
  it, and the SSH client dialer of \<open>pkg/dialer/ssh.go\<close>. The SSH protocol (\<open>golang.org/x/crypto/ssh\<close>) is a
  parameter.
\<close>

section \<open>The host key\<close>

text \<open>\<open>'k\<close> is \<open>ssh.Signer\<close>, \<open>'p\<close> a generated RSA key, \<open>'b\<close> a PEM block.\<close>

record ('k, 'p, 'b, 'w) ssh_keys =
  sk_parse :: "string \<Rightarrow> 'k res"
  sk_generate :: "'w \<Rightarrow> 'p res \<times> 'w"
  sk_signer :: "'p \<Rightarrow> 'k res"
  sk_marshal :: "'p \<Rightarrow> 'b res"
  sk_pem :: "'b \<Rightarrow> string res"

definition load_or_generate_host_key ::
  "'w fs \<Rightarrow> ('k, 'p, 'b, 'w) ssh_keys \<Rightarrow> (goerr \<Rightarrow> string) \<Rightarrow> string \<Rightarrow> 'w \<Rightarrow> 'k res \<times> 'w" where
  "load_or_generate_host_key F K err_text path w =
     (if fs_stat F path w = None then
        (case fs_read_all F path w of
           Inl e \<Rightarrow> (Inl (ErrText (''failed to read host key: '' @ err_text e)), w)
         | Inr bytes \<Rightarrow> (case sk_parse K bytes of
             Inl e \<Rightarrow> (Inl (ErrText (''failed to parse host key: '' @ err_text e)), w)
           | Inr signer \<Rightarrow> (Inr signer, w)))
      else
        (case sk_generate K w of
           (Inl e, w) \<Rightarrow> (Inl (ErrWrap ''failed to generate RSA key: '' e), w)
         | (Inr private, w) \<Rightarrow> (case sk_signer K private of
             Inl e \<Rightarrow> (Inl (ErrWrap ''failed to create signer from private key: '' e), w)
           | Inr signer \<Rightarrow> (case sk_marshal K private of
               Inl e \<Rightarrow> (Inl (ErrWrap ''failed to marshal private key: '' e), w)
             | Inr block \<Rightarrow> (case sk_pem K block of
                 Inl e \<Rightarrow> (Inl (ErrText (''failed to encode PEM block: '' @ err_text e)), w)
               | Inr pem \<Rightarrow> (case fs_write_file F path pem 384 w of
                   (Some e, w) \<Rightarrow> (Inl (ErrText (''failed to save host key: '' @ err_text e)), w)
                 | (None, w) \<Rightarrow> (Inr signer, w)))))))"

text \<open>The application's host key, nil when any step fails; 448 is 0o700.\<close>

definition app_host_key ::
  "'w fs \<Rightarrow> ('k, 'p, 'b, 'w) ssh_keys \<Rightarrow> (goerr \<Rightarrow> string) \<Rightarrow> 'w \<Rightarrow> 'k option \<times> 'w" where
  "app_host_key F K err_text w =
     (case fs_home F w of
        Inl e \<Rightarrow> (None, w)
      | Inr home \<Rightarrow>
          let key_path = path_join [home, ''.local'', ''state'', ''pacman'', ''ssh_host_key''] in
          (case fs_mkdir_all F (path_dir key_path) 448 w of
             (Some e, w) \<Rightarrow> (None, w)
           | (None, w) \<Rightarrow> (case load_or_generate_host_key F K err_text key_path w of
               (Inl e, w) \<Rightarrow> (None, w)
             | (Inr s, w) \<Rightarrow> (Some s, w))))"

section \<open>The server\<close>

record 'k ssh_config =
  sc_no_client_auth :: bool
  sc_host_keys :: "'k option list"

record 'k ssh_server =
  ss_config :: "'k ssh_config option"
  ss_host_key :: "'k option"

text \<open>The accept loop: the connections that handlers are started for, until an accept fails.\<close>

fun accept_loop :: "'c res list \<Rightarrow> 'c list \<times> goerr option" where
  "accept_loop [] = ([], None)"
| "accept_loop (Inl e # rs) = ([], Some e)"
| "accept_loop (Inr c # rs) = (let (cs, e) = accept_loop rs in (c # cs, e))"

definition ssh_serve ::
  "(goerr \<Rightarrow> string) \<Rightarrow> 'k ssh_server \<Rightarrow> 'c res list \<Rightarrow> 'k ssh_server \<times> 'c list \<times> goerr option" where
  "ssh_serve err_text s accepts =
     (let s = (if ss_config s = None
          then s\<lparr>ss_config := Some \<lparr>sc_no_client_auth = True, sc_host_keys = [ss_host_key s]\<rparr>\<rparr> else s);
          (cs, e) = accept_loop accepts
      in (s, cs, map_option (\<lambda>e. ErrText (''failed to accept connection: '' @ err_text e)) e))"

datatype 'n conn_event = CloseRaw | DiscardGlobal | RejectChannel 'n string | StartChannel 'n | CloseSession

text \<open>One connection: \<open>handshake\<close> is the error of \<open>ssh.NewServerConn\<close>; \<open>quote\<close> is \<open>%q\<close>.\<close>

definition handle_conn ::
  "(string \<Rightarrow> string) \<Rightarrow> goerr option \<Rightarrow> ('n \<times> string) list \<Rightarrow> 'n conn_event list" where
  "handle_conn quote handshake chans =
     (case handshake of
        Some e \<Rightarrow> [CloseRaw]
      | None \<Rightarrow> DiscardGlobal # map (\<lambda>(c, ty). if ty \<noteq> ''direct-tcpip''
            then RejectChannel c (''unsupported channel type '' @ quote ty) else StartChannel c) chans @ [CloseSession])"

section \<open>A forwarded channel\<close>

record direct_tcpip =
  dp_host :: string
  dp_port :: "32 word"
  dp_originator :: string
  dp_originator_port :: "32 word"

definition target_addr :: "direct_tcpip \<Rightarrow> string" where
  "target_addr p = dp_host p @ '':'' @ nat_digits (unat (dp_port p))"

datatype 'c channel_event =
    RejectCh string
  | AcceptCh
  | DialCh string string
  | DiscardCh
  | JoinCh 'c
  | JoinClosedCh
  | JoinClosedConn 'c
  | CloseCh
  | CloseConn 'c
  | CancelCh

text \<open>
  \<open>unmarshal\<close> is \<open>ssh.Unmarshal\<close> of the payload, \<open>accept\<close> the error of \<open>Accept\<close>. A nil connection without an error
  makes the deferred \<open>Close\<close> panic: \<open>None\<close>. The goroutines of \<open>netutil.Join\<close> report before they close what they copied to, so
  their closes, first the one or the other, come at any time after the start of the join: \<open>sched\<close> says when.
\<close>

definition handle_direct_tcpip ::
  "(string \<Rightarrow> direct_tcpip res) \<Rightarrow> (goerr \<Rightarrow> string) \<Rightarrow> goerr option \<Rightarrow> (string \<Rightarrow> string \<Rightarrow> 'c option \<times> goerr option) \<Rightarrow>
   bool list \<Rightarrow> bool \<Rightarrow> string \<Rightarrow> 'c channel_event list option" where
  "handle_direct_tcpip unmarshal err_text accept dial sched conn_first extra =
     (case unmarshal extra of
        Inl e \<Rightarrow> Some [RejectCh (err_text e)]
      | Inr payload \<Rightarrow>
          (case accept of
             Some e \<Rightarrow> Some []
           | None \<Rightarrow>
               let t = on_return CancelCh (on_return CloseCh ([AcceptCh], []));
                   addr = target_addr payload;
                   t = emit [DialCh ''tcp'' addr] t
               in (case dial ''tcp'' addr of
                     (_, Some e) \<Rightarrow> Some (returned t)
                   | (None, None) \<Rightarrow> None
                   | (Some c, None) \<Rightarrow>
                       let t = emit [DiscardCh, JoinCh c] (on_return (CloseConn c) t)
                       in Some (fst t @ interleave sched
                         (if conn_first then [JoinClosedConn c, JoinClosedCh] else [JoinClosedCh, JoinClosedConn c]) (rev (snd t))))))"

section \<open>The SSH client dialer\<close>

text \<open>\<open>URL.Hostname\<close> and \<open>URL.Port\<close>.\<close>

definition valid_optional_port :: "string \<Rightarrow> bool" where
  "valid_optional_port p \<longleftrightarrow> p = [] \<or> hd p = CHR '':'' \<and> list_all is_digit (tl p)"

definition url_split_host_port :: "string \<Rightarrow> string \<times> string" where
  "url_split_host_port hp =
     (let (host, port) = (case last_index_of CHR '':'' hp of
            Some i \<Rightarrow> if valid_optional_port (drop i hp) then (take i hp, drop (i + 1) hp) else (hp, [])
          | None \<Rightarrow> (hp, []));
          host = (if has_prefix host ''['' \<and> snd (cut_suffix host '']'') then take (length host - 2) (drop 1 host) else host)
      in (host, port))"

datatype 'k auth_method = PasswordAuth string | KeyAuth 'k

record 'k client_config =
  cc_user :: string
  cc_auth :: "'k auth_method list"

datatype ('c, 'k) ssh_event =
    DialFwd string string
  | Handshake 'c string "'k client_config"
  | CloseSsh 'c
  | CancelSsh
  | AwaitEnd

definition ssh_addr :: "url \<Rightarrow> string" where
  "ssh_addr u = (let (host, port) = url_split_host_port (u_host u);
      port = (if port = [] then ''22'' else port) in join_host_port host port)"

text \<open>The authentication methods of a URL, or the error of the identity file.\<close>

definition ssh_auth :: "(string \<Rightarrow> string res) \<Rightarrow> (string \<Rightarrow> 'k res) \<Rightarrow> url \<Rightarrow> 'k auth_method list res" where
  "ssh_auth read_file parse_key u =
     (let auth = (case u_user u of Some (_, Some pw) \<Rightarrow> [PasswordAuth pw] | _ \<Rightarrow> []);
          filename = values_get ''identity'' (parse_query (u_raw_query u))
      in if filename = [] then Inr auth
         else (case read_file filename of
             Inl e \<Rightarrow> Inl (ErrWrap ''failed to read IdentityFile: '' e)
           | Inr d \<Rightarrow> (case parse_key d of
               Inl e \<Rightarrow> Inl (ErrWrap ''failed to parse IdentityFile: '' e)
             | Inr k \<Rightarrow> Inr (auth @ [KeyAuth k]))))"

text \<open>
  \<open>dial\<close> is \<open>dialContext(ctx, fwd, _, _)\<close>, \<open>new_client_conn\<close> is \<open>ssh.NewClientConn\<close>; on success a goroutine cancels
  the context when the connection ends (\<open>AwaitEnd\<close>).
\<close>

definition ssh_dialer ::
  "(string \<Rightarrow> string res) \<Rightarrow> (string \<Rightarrow> 'k res) \<Rightarrow> (string \<Rightarrow> string \<Rightarrow> 'c option \<times> goerr option) \<Rightarrow>
   ('c option \<Rightarrow> string \<Rightarrow> 'k client_config \<Rightarrow> 'd res) \<Rightarrow> url \<Rightarrow> 'd res \<times> ('c option, 'k) ssh_event list" where
  "ssh_dialer read_file parse_key dial new_client_conn u =
     (let addr = ssh_addr u in
      case ssh_auth read_file parse_key u of
        Inl e \<Rightarrow> (Inl e, [])
      | Inr auth \<Rightarrow>
          let config = \<lparr>cc_user = (case u_user u of Some (n, _) \<Rightarrow> n | None \<Rightarrow> []), cc_auth = auth\<rparr> in
          (case dial ''tcp'' addr of
             (_, Some e) \<Rightarrow> (Inl e, [DialFwd ''tcp'' addr, CancelSsh])
           | (c, None) \<Rightarrow> (case new_client_conn c addr config of
               Inl e \<Rightarrow> (Inl e, [DialFwd ''tcp'' addr, Handshake c addr config, CloseSsh c, CancelSsh])
             | Inr d \<Rightarrow> (Inr d, [DialFwd ''tcp'' addr, Handshake c addr config, AwaitEnd]))))"


section \<open>Addresses\<close>

lemma url_split_join:
  assumes "host_port_ok (h, p)" and "list_all is_digit p"
  shows "url_split_host_port (join_host_port h p) = (h, p)"
proof (cases "CHR '':'' \<in> set h")
  case True
  have "last_index_of CHR '':'' ((''['' @ h @ '']'') @ CHR '':'' # p) = Some (length (''['' @ h @ '']''))"
    using assms(1) by (intro last_index_of_append) (simp add: host_port_ok_def)
  then show ?thesis using True assms(2)
    by (simp add: url_split_host_port_def join_host_port_def valid_optional_port_def cut_suffix_def has_prefix_def)
next
  case False
  have "last_index_of CHR '':'' (h @ CHR '':'' # p) = Some (length h)"
    using assms(1) by (intro last_index_of_append) (simp add: host_port_ok_def)
  moreover have "\<not> has_prefix h ''[''" using assms(1) by (cases h) (auto simp: host_port_ok_def has_prefix_def)
  ultimately show ?thesis using False assms(2)
    by (simp add: url_split_host_port_def join_host_port_def valid_optional_port_def)
qed

lemma nat_digits_port: "host_port_ok (h, nat_digits n) \<longleftrightarrow> CHR ''['' \<notin> set h \<and> CHR '']'' \<notin> set h"
  using nat_digits_all_digits [of n] by (auto simp: host_port_ok_def list_all_iff is_digit_def)

section \<open>Properties\<close>

text \<open>C39: the address an SSH channel dials is its host and port for a host name or IPv4 address; for an IPv6 address it has no
  brackets, so no dialer can split it and \<open>ByHost\<close> refuses every such channel.\<close>

theorem ssh_target_ipv6_refused:
  assumes "CHR ''['' \<notin> set (dp_host p)" and "CHR '']'' \<notin> set (dp_host p)"
  shows "split_host_port (target_addr p) =
      (if CHR '':'' \<in> set (dp_host p) then Inl (ErrAddr ''too many colons in address'' (target_addr p))
       else Inr (dp_host p, nat_digits (unat (dp_port p)))) \<and>
    (CHR '':'' \<in> set (dp_host p) \<longrightarrow>
      by_host_dial_context ul lookup direct d ctx ''tcp'' (target_addr p) w =
        Some ((None, Some (ErrAddr ''too many colons in address'' (target_addr p))), w))"
proof -
  let ?h = "dp_host p" and ?port = "nat_digits (unat (dp_port p))"
  have ok: "host_port_ok (?h, ?port)" using assms by (simp add: nat_digits_port)
  have li: "last_index_of CHR '':'' (?h @ CHR '':'' # ?port) = Some (length ?h)"
    using ok by (intro last_index_of_append) (simp add: host_port_ok_def)
  have nb: "(?h @ CHR '':'' # ?port) ! 0 \<noteq> CHR ''[''" using assms(1) by (cases ?h) auto
  have "split_host_port (target_addr p) = Inl (ErrAddr ''too many colons in address'' (target_addr p))" if "CHR '':'' \<in> set ?h"
    using li nb that by (simp add: split_host_port_def target_addr_def)
  moreover have "split_host_port (target_addr p) = Inr (?h, ?port)" if "CHR '':'' \<notin> set ?h"
    using split_join_host_port [OF ok] that by (simp add: join_host_port_def target_addr_def)
  ultimately show ?thesis by (auto simp: by_host_dial_context_def)
qed

lemma ssh_target_ipv6_refused_witness:
  "split_host_port (target_addr \<lparr>dp_host = ''::1'', dp_port = 80, dp_originator = [], dp_originator_port = 0\<rparr>) =
     Inl (ErrAddr ''too many colons in address'' ''::1:80'')"
proof -
  have a: "target_addr \<lparr>dp_host = ''::1'', dp_port = 80, dp_originator = [], dp_originator_port = 0\<rparr> = ''::1:80''" by code_simp
  show ?thesis
    by (subst ssh_target_ipv6_refused [THEN conjunct1]) (simp_all add: a)
qed

text \<open>a forwarded channel that was accepted is closed, the connection dialled for it is closed before that, and the context is
  cancelled, whatever fails; a join closes both once more; nothing is accepted or dialled for a payload that cannot be read. \<close>

theorem direct_tcpip_balances:
  assumes "handle_direct_tcpip unmarshal err_text accept dial sched first extra = Some evs"
  shows "filter (\<lambda>e. e \<in> {CloseCh, CancelCh} \<union> range CloseConn) evs =
      (if AcceptCh \<in> set evs
       then (case dial ''tcp'' (target_addr (projr (unmarshal extra))) of (Some c, None) \<Rightarrow> [CloseConn c] | _ \<Rightarrow> []) @ [CancelCh, CloseCh]
       else []) \<and>
    (\<forall>c. length (filter (\<lambda>e. e = JoinClosedConn c) evs) = (if JoinCh c \<in> set evs then 1 else 0)) \<and>
    (AcceptCh \<in> set evs \<longleftrightarrow> accept = None \<and> \<not> isl (unmarshal extra))"
  using assms
  by (auto simp: handle_direct_tcpip_def Let_def interleave_count image_iff split: sum.splits option.splits prod.splits if_splits)

lemma direct_tcpip_balances_witness:
  "filter (\<lambda>e. e \<in> {CloseCh, CancelCh} \<union> range CloseConn)
     (the (handle_direct_tcpip (\<lambda>_. Inr \<lparr>dp_host = ''h'', dp_port = 22, dp_originator = [], dp_originator_port = 0\<rparr>) (\<lambda>_. []) None
        (\<lambda>_ _. (Some (3 :: nat), None)) [True, False] True [])) = [CloseConn 3, CancelCh, CloseCh]"
  using direct_tcpip_balances [of "\<lambda>_. Inr \<lparr>dp_host = ''h'', dp_port = 22, dp_originator = [], dp_originator_port = 0\<rparr>" "\<lambda>_. []" None
      "\<lambda>_ _. (Some (3 :: nat), None)" "[True, False]" True "[]"]
  by (simp add: handle_direct_tcpip_def)

text \<open>the SSH dialer connects to the URL's host at its port, 22 when it has none; a failure after that cancels the context, and
  a connection whose handshake failed is closed; a success cancels and closes nothing.\<close>

theorem ssh_dialer_outcome:
  assumes "host_port_ok (h, p)" and "list_all is_digit p" and "u_host u = join_host_port h p"
    and "ssh_dialer read_file parse_key dial new_client_conn u = (r, evs)"
  shows "(evs = [] \<and> ssh_auth read_file parse_key u = Inl (projl r)) \<or>
    (\<exists>addr es. evs = DialFwd ''tcp'' addr # es \<and> split_host_port addr = Inr (h, if p = [] then ''22'' else p) \<and>
      (isl r \<longleftrightarrow> CancelSsh \<in> set es) \<and>
      (\<forall>c. (CloseSsh c \<in> set es) \<longleftrightarrow> isl r \<and> (\<exists>cfg. Handshake c addr cfg \<in> set es)))"
proof -
  let ?p = "if p = [] then ''22'' else p"
  have "ssh_addr u = join_host_port h ?p"
    using url_split_join [OF assms(1,2)] by (simp add: ssh_addr_def assms(3))
  moreover have "host_port_ok (h, ?p)" using assms(1) by (simp add: host_port_ok_def)
  ultimately have a: "split_host_port (ssh_addr u) = Inr (h, ?p)" by (simp add: split_join_host_port)
  show ?thesis
  proof (cases "ssh_auth read_file parse_key u")
    case (Inl e)
    then show ?thesis using assms(4) by (auto simp: ssh_dialer_def)
  next
    case (Inr auth)
    obtain c e where d: "dial ''tcp'' (ssh_addr u) = (c, e)" by fastforce
    define cfg where "cfg = \<lparr>cc_user = (case u_user u of Some (n, _) \<Rightarrow> n | None \<Rightarrow> []), cc_auth = auth\<rparr>"
    obtain q where q: "new_client_conn c (ssh_addr u) cfg = q" by simp
    have "\<exists>es. evs = DialFwd ''tcp'' (ssh_addr u) # es \<and> (isl r \<longleftrightarrow> CancelSsh \<in> set es) \<and>
        (\<forall>c. (CloseSsh c \<in> set es) \<longleftrightarrow> isl r \<and> (\<exists>cfg. Handshake c (ssh_addr u) cfg \<in> set es))"
      using assms(4) Inr d by (cases e; cases q) (auto simp: ssh_dialer_def Let_def cfg_def [symmetric] q)
    then show ?thesis using a by blast
  qed
qed

definition sample_ssh_url :: url where
  "sample_ssh_url = empty_url\<lparr>u_scheme := ''ssh'', u_host := ''h:'', u_user := Some (''u'', Some ''p'')\<rparr>"

lemma ssh_dialer_outcome_witness:
  "ssh_dialer (\<lambda>_. Inl ErrEOF) (\<lambda>_. Inr ()) (\<lambda>_ _. (Some (5 :: nat), None)) (\<lambda>c a cfg. Inl ErrEOF :: nat res) sample_ssh_url =
     (Inl ErrEOF, [DialFwd ''tcp'' ''h:22'', Handshake (Some 5) ''h:22'' \<lparr>cc_user = ''u'', cc_auth = [PasswordAuth ''p'']\<rparr>, CloseSsh (Some 5), CancelSsh]) \<and>
   split_host_port ''h:22'' = Inr (''h'', ''22'')"
proof -
  have "ssh_addr sample_ssh_url = ''h:22''"
    using url_split_join [of "''h''" "[]"] by (simp add: ssh_addr_def sample_ssh_url_def host_port_ok_def join_host_port_def)
  then have e: "ssh_dialer (\<lambda>_. Inl ErrEOF) (\<lambda>_. Inr ()) (\<lambda>_ _. (Some (5 :: nat), None)) (\<lambda>c a cfg. Inl ErrEOF :: nat res) sample_ssh_url =
     (Inl ErrEOF, [DialFwd ''tcp'' ''h:22'', Handshake (Some 5) ''h:22'' \<lparr>cc_user = ''u'', cc_auth = [PasswordAuth ''p'']\<rparr>, CloseSsh (Some 5), CancelSsh])"
    by (simp add: ssh_dialer_def ssh_auth_def sample_ssh_url_def empty_url_def parse_query_empty values_get_def Let_def)
  from ssh_dialer_outcome [OF _ _ _ e, of "''h''" "[]"] e show ?thesis
    by (simp add: host_port_ok_def join_host_port_def sample_ssh_url_def)
qed

text \<open>a host key that was generated and saved is the one that the next start loads, when the file system keeps what was written
  and the key's PEM text can be parsed back.\<close>

theorem host_key_persists:
  assumes "load_or_generate_host_key F K err_text path w = (Inr k, w')" and "fs_stat F path w \<noteq> None"
    and "\<And>s w1 w2. fs_write_file F path s 384 w1 = (None, w2) \<Longrightarrow> fs_stat F path w2 = None \<and> fs_read_all F path w2 = Inr s"
    and "\<And>p b s. sk_marshal K p = Inr b \<Longrightarrow> sk_pem K b = Inr s \<Longrightarrow> sk_parse K s = sk_signer K p"
  shows "load_or_generate_host_key F K err_text path w' = (Inr k, w')"
proof -
  obtain p w1 b s where "sk_generate K w = (Inr p, w1)" "sk_signer K p = Inr k" "sk_marshal K p = Inr b" "sk_pem K b = Inr s"
      "fs_write_file F path s 384 w1 = (None, w')"
    using assms(1,2) by (auto simp: load_or_generate_host_key_def split: prod.splits sum.splits option.splits)
  then show ?thesis using assms(3) [of s w1 w'] assms(4) [of p b s] by (simp add: load_or_generate_host_key_def)
qed

definition sample_keys :: "(string, string, string, (string \<times> string) list) ssh_keys" where
  "sample_keys = \<lparr>sk_parse = Inr, sk_generate = (\<lambda>w. (Inr ''key'', w)), sk_signer = Inr, sk_marshal = Inr, sk_pem = Inr\<rparr>"


lemma host_key_persists_witness:
  "load_or_generate_host_key sample_fs sample_keys (\<lambda>_. []) ''k'' [(''k'', ''key'')] = (Inr ''key'', [(''k'', ''key'')])"
proof -
  have "load_or_generate_host_key sample_fs sample_keys (\<lambda>_. []) ''k'' [] = (Inr ''key'', [(''k'', ''key'')])"
    by (simp add: load_or_generate_host_key_def sample_fs_def sample_keys_def)
  from host_key_persists [OF this] show ?thesis
    by (auto simp: sample_fs_def sample_keys_def go_simps)
qed

text \<open>Without a home directory the server starts all the same, with a nil host key in its configuration.\<close>

lemma server_without_host_key:
  assumes "fs_home F w = Inl e"
  shows "ssh_serve err_text \<lparr>ss_config = None, ss_host_key = fst (app_host_key F K err_text w)\<rparr> [] =
    (\<lparr>ss_config = Some \<lparr>sc_no_client_auth = True, sc_host_keys = [None]\<rparr>, ss_host_key = None\<rparr>, [], None)"
  using assms by (simp add: ssh_serve_def app_host_key_def)

end
