(* ===== verification/NetStack.thy ===== *)
theory NetStack
  imports Dialers
begin

text \<open>
  The user-space network stack of \<open>pkg/stackutil\<close>: the dialer, the endpoint that moves packets between the stack's
  channel and a byte stream, the addresses of a tunnel and the construction of its dialer, the packet dumper. gVisor
  itself is a parameter.
\<close>

section \<open>Dialling\<close>

datatype net_proto = IPv4Proto | IPv6Proto | NoProto

definition ip_protocol_number :: "byte list \<Rightarrow> net_proto" where
  "ip_protocol_number ip = (if to4 ip \<noteq> None then IPv4Proto else if length ip = 16 then IPv6Proto else NoProto)"

text \<open>The transport and the version of a network name.\<close>

definition split_network :: "string \<Rightarrow> (string \<times> string) res" where
  "split_network network =
     (if network \<in> {''tcp'', ''udp'', ''tcp4'', ''udp4'', ''tcp6'', ''udp6''}
      then Inr (take 3 network, drop 3 network) else Inl (ErrText (''unknown network '' @ network)))"

text \<open>
  \<open>connect\<close> is \<open>gonet.DialContextTCP\<close> or \<open>gonet.DialUDP\<close> by the transport, to an address and a 16-bit port; \<open>quote\<close> is
  \<open>%q\<close>. The port is converted from \<open>int\<close> and keeps its low 16 bits.
\<close>

fun dial_ips ::
  "(string \<Rightarrow> byte list \<times> 16 word \<Rightarrow> net_proto \<Rightarrow> 'w \<Rightarrow> ('c option \<times> goerr option) \<times> 'w) \<Rightarrow> string \<Rightarrow> int \<Rightarrow> goerr list \<Rightarrow>
   byte list list \<Rightarrow> 'w \<Rightarrow> ('c option \<times> goerr option) \<times> 'w" where
  "dial_ips connect transport port errs [] w =
     ((None, if errs = [] then Some (ErrText ''no suitable IP addresses found'') else errors_join errs), w)"
| "dial_ips connect transport port errs (ip # ips) w =
     (let ((conn, err), w) = connect transport (ip, word_of_int port) (ip_protocol_number ip) w in
      case err of
        None \<Rightarrow> ((conn, None), w)
      | Some e \<Rightarrow> dial_ips connect transport port (errs @ [e]) ips w)"

definition stack_dial_context ::
  "(string \<Rightarrow> string) \<Rightarrow> ('x \<Rightarrow> string \<Rightarrow> string \<Rightarrow> 'w \<Rightarrow> byte list list res \<times> 'w) \<Rightarrow>
   ('x \<Rightarrow> string \<Rightarrow> byte list \<times> 16 word \<Rightarrow> net_proto \<Rightarrow> 'w \<Rightarrow> ('c option \<times> goerr option) \<times> 'w) \<Rightarrow>
   'x \<Rightarrow> string \<Rightarrow> string \<Rightarrow> 'w \<Rightarrow> ('c option \<times> goerr option) \<times> 'w" where
  "stack_dial_context quote lookup connect ctx network address w =
     (case split_network network of
        Inl e \<Rightarrow> ((None, Some e), w)
      | Inr (transport, version) \<Rightarrow>
          (case split_host_port address of
             Inl e \<Rightarrow> ((None, Some (ErrWrap (''invalid address '' @ quote address @ '': '') e)), w)
           | Inr (host, port_str) \<Rightarrow>
               (case atoi port_str of
                  Inl e \<Rightarrow> ((None, Some (ErrWrap (''invalid port '' @ quote port_str @ '': '') e)), w)
                | Inr port \<Rightarrow>
                    (case lookup ctx (''ip'' @ version) host w of
                       (Inl e, w) \<Rightarrow> ((None, Some (ErrWrap (''DNS lookup failed for '' @ quote host @ '': '') e)), w)
                     | (Inr ips, w) \<Rightarrow> dial_ips (connect ctx) transport port [] ips w))))"

text \<open>Asking the addresses in turn is a chain dial under a context that never ends; only the empty case differs.\<close>

lemma dial_ips_chain:
  "dial_ips connect transport port errs ips w =
     (let r = chain_loop (\<lambda>_ _. None) () transport [] errs
          (map (\<lambda>ip _ net _ w. connect net (ip, word_of_int port) (ip_protocol_number ip) w) ips) w
      in if errs = [] \<and> ips = [] then ((None, Some (ErrText ''no suitable IP addresses found'')), w) else r)"
proof (induction ips arbitrary: errs w)
  case (Cons ip ips)
  then show ?case by (auto simp: Let_def split: prod.split option.split)
qed simp

lemma dial_ips_cong:
  "(word_of_int i :: 16 word) = word_of_int j \<Longrightarrow> dial_ips c t i es ips w = dial_ips c t j es ips w"
  by (induction ips arbitrary: es w) (simp_all split: prod.split option.split)

section \<open>The packet endpoint\<close>

text \<open>A packet is a list of views and the offset at which its data starts.\<close>

type_synonym packet = "string list \<times> nat"

fun read_views :: "nat \<Rightarrow> string \<Rightarrow> string list \<Rightarrow> nat \<Rightarrow> string \<times> goerr option" where
  "read_views cap buf [] off = (buf, None)"
| "read_views cap buf (v # vs) off =
     (if length v \<le> off then read_views cap buf vs (off - length v)
      else (let s = drop off v in
        if cap < length buf + length s then (buf, Some ErrShortBuffer) else read_views cap (buf @ s) vs 0))"

text \<open>\<open>None\<close> is a closed channel.\<close>

definition read_packet_data :: "nat \<Rightarrow> packet option \<Rightarrow> string \<times> goerr option" where
  "read_packet_data cap pkt = (case pkt of None \<Rightarrow> ([], Some ErrEOF) | Some (vs, off) \<Rightarrow> read_views cap [] vs off)"

text \<open>\<open>WriteTo\<close> over the packets that the channel delivers before it is closed.\<close>

fun write_to ::
  "nat \<Rightarrow> (string \<Rightarrow> 'w \<Rightarrow> (nat \<times> goerr option) \<times> 'w) \<Rightarrow> packet list \<Rightarrow> nat \<Rightarrow> 'w \<Rightarrow> (nat \<times> goerr option) \<times> 'w" where
  "write_to mtu wr [] n w = ((n, None), w)"
| "write_to mtu wr (pkt # pkts) n w =
     (case read_packet_data mtu (Some pkt) of
        (_, Some e) \<Rightarrow> ((n, if e = ErrEOF then None else Some e), w)
      | (p, None) \<Rightarrow>
          (let ((count, err), w) = wr p w; n = n + count in
           case err of Some e \<Rightarrow> ((n, Some e), w) | None \<Rightarrow> write_to mtu wr pkts n w))"

text \<open>\<open>header.IPVersion\<close>, and what a write injects into the stack.\<close>

definition ip_version :: "string \<Rightarrow> int" where
  "ip_version p = (case p of [] \<Rightarrow> - 1 | c # _ \<Rightarrow> int (byte_of c div 16))"

definition write_packet_data :: "string \<Rightarrow> (nat \<times> goerr option) \<times> (net_proto \<times> string) list" where
  "write_packet_data p =
     (if p = [] then ((0, None), [])
      else if ip_version p = 4 then ((length p, None), [(IPv4Proto, p)])
      else if ip_version p = 6 then ((length p, None), [(IPv6Proto, p)])
      else ((0, None), []))"

text \<open>\<open>ReadFrom\<close> over the reader's answers; it goes on for ever when they never end in an error.\<close>

fun read_from :: "(string \<times> goerr option) list \<Rightarrow> nat \<Rightarrow> (nat \<times> goerr option option) \<times> (net_proto \<times> string) list" where
  "read_from [] n = ((n, None), [])"
| "read_from ((p, Some e) # rs) n = ((n + length p, Some (if e = ErrEOF then None else Some e)), [])"
| "read_from ((p, None) # rs) n =
     (let ((_, err), inj) = write_packet_data p; n = n + length p in
      case err of Some e \<Rightarrow> ((n, Some (Some e)), inj)
      | None \<Rightarrow> (let (r, inj') = read_from rs n in (r, inj @ inj')))"

section \<open>A tunnel's addresses\<close>

record net_options =
  no_addr :: string
  no_netmask :: string
  no_addr6 :: string
  no_netmask6 :: string
  no_dns :: "string list"
  no_domain :: string
  no_mtu :: "32 word"

record protocol_address =
  pa_protocol :: net_proto
  pa_address :: "byte list"
  pa_prefix :: nat

definition to4_of :: "string \<Rightarrow> byte list option" where
  "to4_of s = Option.bind (parse_ip s) to4"

text \<open>\<open>net.IPv4Mask(a, b, c, d).Size()\<close> of the four bytes is the mask's size.\<close>

definition ipv4_address :: "(string \<Rightarrow> string) \<Rightarrow> net_options \<Rightarrow> protocol_address list \<times> goerr list" where
  "ipv4_address quote opts =
     (if no_addr opts = [] then ([], [])
      else
        (let ip = to4_of (no_addr opts); msk = to4_of (no_netmask opts);
             errs = (if ip = None then [ErrText (''invalid IPv4 address: '' @ quote (no_addr opts))] else []) @
                    (if msk = None then [ErrText (''invalid IPv4 netmask: '' @ quote (no_netmask opts))] else [])
         in case (ip, msk) of
              (Some ip, Some msk) \<Rightarrow>
                (let (ones, bits) = mask_size msk in
                 if ones = 0 \<and> bits = 0
                 then ([], errs @ [ErrText (''non-contiguous or invalid IPv4 netmask: '' @ quote (no_netmask opts))])
                 else ([\<lparr>pa_protocol = IPv4Proto, pa_address = ip, pa_prefix = ones\<rparr>], errs))
            | _ \<Rightarrow> ([], errs)))"

definition ipv6_address :: "(string \<Rightarrow> string) \<Rightarrow> net_options \<Rightarrow> protocol_address list \<times> goerr list" where
  "ipv6_address quote opts =
     (if no_netmask6 opts = [] then ([], [])
      else (case parse_cidr (no_netmask6 opts) of
          Inl e \<Rightarrow> ([], [ErrWrap (''invalid IPv6 CIDR netmask: '' @ quote (no_netmask6 opts) @ '': '') e])
        | Inr (ip, net) \<Rightarrow>
            let ip' = to16 ip in
            ([\<lparr>pa_protocol = IPv6Proto, pa_address = (case ip' of Some x \<Rightarrow> x | None \<Rightarrow> []), pa_prefix = fst (mask_size (net_mask net))\<rparr>],
             if ip' = None then [ErrText (''invalid IPv6 address: '' @ quote (no_netmask6 opts))] else [])))"

definition protocol_addrs :: "(string \<Rightarrow> string) \<Rightarrow> net_options \<Rightarrow> protocol_address list \<times> goerr option" where
  "protocol_addrs quote opts =
     (let (a4, e4) = ipv4_address quote opts; (a6, e6) = ipv6_address quote opts in (a4 @ a6, errors_join (e4 @ e6)))"

text \<open>
  \<open>NewTunDialer\<close>: \<open>create\<close> is the error text of \<open>CreateNIC\<close>, \<open>add\<close> that of \<open>AddProtocolAddress\<close>. The result is the list
  of DNS servers of the new dialer; the events are what happened to the stack.
\<close>

datatype tun_event = CreateNic | AddAddress protocol_address | AddRoute net_proto | Cleanup | StartJoins nat

fun add_addresses :: "(protocol_address \<Rightarrow> string option) \<Rightarrow> protocol_address list \<Rightarrow> tun_event list \<Rightarrow> goerr option \<times> tun_event list" where
  "add_addresses add [] evs = (None, evs)"
| "add_addresses add (a # as) evs =
     (case add a of
        Some t \<Rightarrow> (Some (ErrText (''failed to add protocol address: '' @ t)), evs @ [AddAddress a, Cleanup])
      | None \<Rightarrow> add_addresses add as (evs @ [AddAddress a, AddRoute (pa_protocol a)]))"

definition new_tun_dialer ::
  "(string \<Rightarrow> string) \<Rightarrow> nat \<Rightarrow> string option \<Rightarrow> (protocol_address \<Rightarrow> string option) \<Rightarrow> net_options \<Rightarrow>
   string list res \<times> tun_event list" where
  "new_tun_dialer quote maxprocs create add opts =
     (let dns = map (\<lambda>a. join_host_port a ''53'') (no_dns opts) in
      case protocol_addrs quote opts of
        (_, Some e) \<Rightarrow> (Inl e, [])
      | (addrs, None) \<Rightarrow>
          (case create of
             Some t \<Rightarrow> (Inl (ErrText (''Failed to create nic: '' @ t)), [CreateNic, Cleanup])
           | None \<Rightarrow> (case add_addresses add addrs [CreateNic] of
               (Some e, evs) \<Rightarrow> (Inl e, evs)
             | (None, evs) \<Rightarrow> (Inr dns, evs @ [StartJoins maxprocs]))))"

section \<open>The packet dumper\<close>

text \<open>
  Both directions hand every packet to the dump function in a goroutine that holds a reference, then pass it on.
  The events of a packet \<open>p\<close>; \<open>dump\<close> tells whether there is a dump function.
\<close>

datatype 'p dump_event = IncRef 'p | DecRef 'p | Dump 'p string | Deliver 'p

definition dump_goroutine :: "'p \<Rightarrow> string \<Rightarrow> 'p dump_event list" where
  "dump_goroutine p chain = [Dump p chain, DecRef p]"

text \<open>What the caller does, and the goroutines it starts.\<close>

definition dle_attach :: "bool \<Rightarrow> 'd option \<Rightarrow> ('d \<times> bool) option" where
  "dle_attach dump d = map_option (\<lambda>d. (d, dump)) d"

definition dle_write_packets :: "bool \<Rightarrow> 'p list \<Rightarrow> 'p dump_event list \<times> 'p dump_event list list" where
  "dle_write_packets dump pkts =
     ((if dump then map IncRef pkts else []) @ map Deliver pkts, if dump then map (\<lambda>p. dump_goroutine p ''outbound'') pkts else [])"

definition deliver_packet :: "bool \<Rightarrow> string \<Rightarrow> 'p \<Rightarrow> 'p dump_event list \<times> 'p dump_event list list" where
  "deliver_packet dump chain p = ((if dump then [IncRef p] else []) @ [Deliver p], if dump then [dump_goroutine p chain] else [])"

definition deliver_network_packet :: "bool \<Rightarrow> 'p \<Rightarrow> 'p dump_event list \<times> 'p dump_event list list" where
  "deliver_network_packet dump p = deliver_packet dump ''inbound'' p"

definition deliver_link_packet :: "bool \<Rightarrow> 'p \<Rightarrow> 'p dump_event list \<times> 'p dump_event list list" where
  "deliver_link_packet dump p = deliver_packet dump ''inbound-link'' p"


section \<open>Lemmas\<close>

lemma read_views_fits:
  "length buf + length (drop off (concat vs)) \<le> cap \<Longrightarrow> read_views cap buf vs off = (buf @ drop off (concat vs), None)"
proof (induction vs arbitrary: buf off)
  case (Cons v vs)
  show ?case
  proof (cases "length v \<le> off")
    case True
    then show ?thesis using Cons.IH [of buf "off - length v"] Cons.prems by (simp add: drop_append)
  next
    case False
    then show ?thesis using Cons.IH [of "buf @ drop off v" 0] Cons.prems by (simp add: Let_def)
  qed
qed simp

lemma read_views_long:
  "length buf \<le> cap \<Longrightarrow> cap < length buf + length (drop off (concat vs)) \<Longrightarrow>
   snd (read_views cap buf vs off) = Some ErrShortBuffer \<and> prefix (fst (read_views cap buf vs off)) (buf @ drop off (concat vs))"
proof (induction vs arbitrary: buf off)
  case (Cons v vs)
  show ?case
  proof (cases "length v \<le> off")
    case True
    then have "length (drop (off - length v) (concat vs)) = length (drop off (concat (v # vs)))" by simp
    then show ?thesis using True Cons.IH [of buf "off - length v"] Cons.prems by simp
  next
    case False
    then show ?thesis using Cons.IH [of "buf @ drop off v" 0] Cons.prems by (auto simp: Let_def)
  qed
qed simp

text \<open>The data of a packet.\<close>

definition packet_data :: "packet \<Rightarrow> string" where
  "packet_data pkt = drop (snd pkt) (concat (fst pkt))"

lemma read_packet_fits:
  "length (packet_data pkt) \<le> cap \<Longrightarrow> read_packet_data cap (Some pkt) = (packet_data pkt, None)"
  using read_views_fits [of "[]" "snd pkt" "fst pkt" cap] by (cases pkt) (simp add: read_packet_data_def packet_data_def)

lemma read_packet_long:
  "cap < length (packet_data pkt) \<Longrightarrow> snd (read_packet_data cap (Some pkt)) = Some ErrShortBuffer"
  using read_views_long [of "[]" cap "snd pkt" "fst pkt"] by (cases pkt) (simp add: read_packet_data_def packet_data_def)

definition write_log :: "string \<Rightarrow> string list \<Rightarrow> (nat \<times> goerr option) \<times> string list" where
  "write_log p log = ((length p, None), log @ [p])"

lemma write_to_fits:
  "\<forall>q \<in> set pkts. length (packet_data q) \<le> mtu \<Longrightarrow>
   write_to mtu write_log (pkts @ rest) n log =
     write_to mtu write_log rest (n + sum_list (map (length \<circ> packet_data) pkts)) (log @ map packet_data pkts)"
  by (induction pkts arbitrary: n log) (simp_all add: read_packet_fits write_log_def add.assoc)

lemma add_addresses_outcome:
  "add_addresses add as evs =
     (case find (\<lambda>a. add a \<noteq> None) as of
        None \<Rightarrow> (None, evs @ concat (map (\<lambda>a. [AddAddress a, AddRoute (pa_protocol a)]) as))
      | Some a \<Rightarrow> (Some (ErrText (''failed to add protocol address: '' @ the (add a))),
          evs @ concat (map (\<lambda>a. [AddAddress a, AddRoute (pa_protocol a)]) (takeWhile (\<lambda>a. add a = None) as)) @ [AddAddress a, Cleanup]))"
  by (induction as arbitrary: evs) (auto split: option.split)

section \<open>Properties\<close>

text \<open>the stack's dialer keeps only the low 16 bits of a port, so an address with a port out of range connects to
  another port instead of failing: \<open>host:65616\<close> reaches port 80.\<close>

theorem stack_dial_port_wraps:
  assumes "split_host_port a = Inr (h, p)" and "atoi p = Inr i"
    and "split_host_port b = Inr (h, q)" and "atoi q = Inr j" and "i mod 65536 = j mod 65536"
  shows "stack_dial_context quote lookup connect ctx network a w = stack_dial_context quote lookup connect ctx network b w"
proof -
  have "(word_of_int i :: 16 word) = word_of_int j" using assms(5) by (simp add: word_of_int_eq_iff take_bit_eq_mod)
  then have d: "dial_ips (connect ctx) t i es ips v = dial_ips (connect ctx) t j es ips v" for t es ips v
    by (rule dial_ips_cong)
  show ?thesis unfolding stack_dial_context_def assms(1,3) by (simp add: assms(2,4) d split: sum.split prod.split)
qed

lemma stack_dial_port_wraps_witness:
  "stack_dial_context id (\<lambda>_ _ _ w. (Inr [[10, 0, 0, 1]], w)) (\<lambda>_ t (a, port) pr w. ((Some (unat port), None), w)) () ''tcp'' ''h:65616'' (0 :: nat) =
     ((Some 80, None), 0)"
proof -
  have a: "split_host_port ''h:65616'' = Inr (''h'', ''65616'')" "split_host_port ''h:80'' = Inr (''h'', ''80'')" by code_simp+
  have b: "atoi ''65616'' = Inr 65616" "atoi ''80'' = Inr 80"
    by (simp_all add: atoi_def parse_int_as_def split_sign_def parse_uint_def is_digit_def digits_val_def digit_val_def)
  have "stack_dial_context id (\<lambda>_ _ _ w. (Inr [[10, 0, 0, 1]], w)) (\<lambda>_ t (a, port) pr w. ((Some (unat port), None), w)) () ''tcp'' ''h:80'' (0 :: nat) =
     ((Some 80, None), 0)"
    by (simp add: stack_dial_context_def a b split_network_def)
  then show ?thesis by (subst stack_dial_port_wraps [OF a(1) b(1) a(2) b(2)]) simp_all
qed

text \<open>the endpoint writes every packet of the stack to the tunnel in one piece, in order, and counts its bytes, until the
  channel closes; the first packet longer than the MTU ends the copy with an error and loses everything after it.\<close>

theorem write_to_one_write_per_packet:
  assumes "\<forall>q \<in> set pkts. length (packet_data q) \<le> mtu" and "mtu < length (packet_data big)"
  shows "write_to mtu write_log pkts 0 [] = ((sum_list (map (length \<circ> packet_data) pkts), None), map packet_data pkts) \<and>
    write_to mtu write_log (pkts @ big # rest) 0 [] =
      ((sum_list (map (length \<circ> packet_data) pkts), Some ErrShortBuffer), map packet_data pkts)"
proof -
  obtain p where "read_packet_data mtu (Some big) = (p, Some ErrShortBuffer)"
    using read_packet_long [OF assms(2)] by (metis prod.collapse)
  then show ?thesis
    using write_to_fits [OF assms(1), of "[]" 0 "[]"] write_to_fits [OF assms(1), of "big # rest" 0 "[]"] by simp
qed

lemma write_to_one_write_per_packet_witness:
  "write_to 4 write_log [([''abc'', ''def''], 2), ([''0123456789''], 0)] 0 [] = ((4, Some ErrShortBuffer), [''cdef''])"
  using write_to_one_write_per_packet [of "[([''abc'', ''def''], 2)]" 4 "([''0123456789''], 0)" "[]"]
  by (simp add: packet_data_def)

text \<open>the dialer of a tunnel either starts its copy goroutines with a route for every address, or fails; once the stack has
  been touched a failure releases it, and a tunnel that fails starts nothing. \<close>

theorem tun_dialer_cleans_up:
  "case new_tun_dialer quote n create add opts of
     (Inl e, evs) \<Rightarrow> StartJoins n \<notin> set evs \<and> (evs = [] \<or> last evs = Cleanup \<and> Cleanup \<notin> set (butlast evs))
   | (Inr dns, evs) \<Rightarrow> dns = map (\<lambda>a. join_host_port a ''53'') (no_dns opts) \<and> Cleanup \<notin> set evs \<and> last evs = StartJoins n \<and>
       filter (\<lambda>e. \<exists>p. e = AddRoute p) evs = map (AddRoute \<circ> pa_protocol) (fst (protocol_addrs quote opts))"
proof -
  have f: "filter (\<lambda>e. \<exists>p. e = AddRoute p) (concat (map (\<lambda>a. [AddAddress a, AddRoute (pa_protocol a)]) as)) = map (AddRoute \<circ> pa_protocol) as" for as
    by (induction as) auto
  have g: "Cleanup \<notin> set (concat (map (\<lambda>a. [AddAddress a, AddRoute (pa_protocol a)]) as))" for as by auto
  obtain as e where pa: "protocol_addrs quote opts = (as, e)" by fastforce
  show ?thesis
    by (cases e; cases create) (auto simp: new_tun_dialer_def pa add_addresses_outcome f g butlast_append split: option.split)
qed

text \<open>an address and a dotted contiguous netmask become that address with the mask's length as its prefix.\<close>

theorem tunnel_prefix_of_netmask:
  assumes "length ip = 4" and "n \<le> 32" and "no_addr opts = ipv4_string ip" and "no_netmask opts = ipv4_string (cidr_mask 4 n)"
    and "no_netmask6 opts = []"
  shows "protocol_addrs quote opts = ([\<lparr>pa_protocol = IPv4Proto, pa_address = ip, pa_prefix = n\<rparr>], None)"
proof -
  have t: "to4_of (ipv4_string b) = Some b" if "length b = 4" for b
    using that by (simp add: to4_of_def parse_ip_ipv4_string to4_def nth_append)
  have ne: "ipv4_string ip \<noteq> []" using assms(1) find_dot_ipv4_string [of ip] by auto
  show ?thesis
    using assms ne by (simp add: protocol_addrs_def ipv4_address_def ipv6_address_def t mask_size_cidr_mask)
qed

lemma tunnel_prefix_of_netmask_witness:
  "protocol_addrs id \<lparr>no_addr = ipv4_string [10, 0, 0, 7], no_netmask = ipv4_string (cidr_mask 4 20), no_addr6 = [], no_netmask6 = [],
      no_dns = [], no_domain = [], no_mtu = 1400\<rparr> = ([\<lparr>pa_protocol = IPv4Proto, pa_address = [10, 0, 0, 7], pa_prefix = 20\<rparr>], None)"
  by (rule tunnel_prefix_of_netmask) simp_all

text \<open>Every reference the dumper takes is dropped by its goroutine, and every packet is passed on once.\<close>

lemma dumper_balanced:
  "filter (\<lambda>e. \<exists>p. e = IncRef p) (fst (dle_write_packets d pkts)) = map IncRef (if d then pkts else [])"
  "concat (map (filter (\<lambda>e. \<exists>p. e = DecRef p)) (snd (dle_write_packets d pkts))) = map DecRef (if d then pkts else [])"
  "filter (\<lambda>e. \<exists>p. e = Deliver p) (fst (dle_write_packets d pkts)) = map Deliver pkts"
  by (induction pkts) (auto simp: dle_write_packets_def dump_goroutine_def)

end
