(* ===== verification/OcDialer.thy ===== *)
theory OcDialer
  imports OcClient Hostscan NetStack Notify AppConfig
begin

text \<open>
  The openconnect dialer of \<open>pkg/dialer/oc/oc.go\<close>: its callbacks (progress, browser, authentication form, host scan), the
  options it connects with, and the dialer made of a connection and a network stack. The user is a parameter: what a
  notification or an alert was answered with.
\<close>

section \<open>Callbacks\<close>

datatype slog_level = LevelDebug | LevelInfo | LevelError

text \<open>The levels of \<open>openconnect.h\<close>: error 0, info 1, debug 2, trace 3.\<close>

definition progress_level :: "int \<Rightarrow> slog_level" where
  "progress_level l = (if l = 0 then LevelError else if l = 1 then LevelInfo else LevelDebug)"

text \<open>The categories that the application registers; \<open>custom_dismiss\<close> is the framework's option.\<close>

definition notification_categories :: "int \<Rightarrow> category list" where
  "notification_categories custom_dismiss =
     [\<lparr>cg_identifier = ''yubi-auth'',
       cg_actions = [TextAction \<lparr>ac_identifier = ''yubi-auth-token'', ac_title = ''Reply''\<rparr> ''Submit'' ''Enter YubiKey OTP''],
       cg_options = custom_dismiss\<rparr>,
      \<lparr>cg_identifier = ''external-browser-auth'',
       cg_actions = [PlainAction \<lparr>ac_identifier = ''external-browser-auth-open'', ac_title = ''Open''\<rparr>],
       cg_options = custom_dismiss\<rparr>]"

definition auth_notification :: "int \<Rightarrow> string \<Rightarrow> string \<Rightarrow> string \<Rightarrow> notification" where
  "auth_notification time_sensitive category label body =
     \<lparr>nt_category = category, nt_identifier = [], nt_title = label, nt_subtitle = ''Authentication Required'',
      nt_body = body, nt_presentation = 0, nt_interruption = time_sensitive\<rparr>"

text \<open>
  What the callbacks ask of the user. \<open>ui_notify\<close> is \<open>NotifyCtx\<close>, \<open>ui_alert\<close> is \<open>DisplayCtx\<close>, \<open>ui_open\<close> is \<open>xdg.Run\<close>;
  \<open>ui_dismiss\<close> and \<open>ui_default\<close> are the framework's action identifiers.
\<close>

record 'w ui =
  ui_notify :: "notification \<Rightarrow> 'w \<Rightarrow> (response \<times> goerr option) \<times> 'w"
  ui_alert :: "alert \<Rightarrow> 'w \<Rightarrow> (alert_response \<times> goerr option) \<times> 'w"
  ui_open :: "string \<Rightarrow> 'w \<Rightarrow> goerr option \<times> 'w"
  ui_dismiss :: string
  ui_default :: string
  ui_time_sensitive :: int

definition external_browser :: "'w ui \<Rightarrow> string \<Rightarrow> string \<Rightarrow> 'w \<Rightarrow> goerr option \<times> 'w" where
  "external_browser U label uri w =
     (case ui_notify U (auth_notification (ui_time_sensitive U) ''external-browser-auth'' label
             ''Click to complete authentication in browser'') w of
        ((_, Some e), w) \<Rightarrow> (Some e, w)
      | ((resp, None), w) \<Rightarrow>
          if re_action resp = ui_dismiss U then (Some (ErrText ''ExternalBrowser user cancelled''), w) else ui_open U uri w)"

definition otp_alert :: "string \<Rightarrow> alert" where
  "otp_alert label = \<lparr>at_message = ''YubiKey OTP Authentication Required'',
     at_informative = ''The proxy '' @ label @ '' requires YubiKey OTP'', at_buttons = [''Submit'', ''Cancel''], at_inputs = [''Enter YubiKey OTP'']\<rparr>"

text \<open>
  The one-time password: what is appended to the password, or the error. A response that is neither of the known actions
  appends nothing. \<open>None\<close> is the panic of an alert answered without an input.
\<close>

definition ask_otp :: "'w ui \<Rightarrow> string \<Rightarrow> 'w \<Rightarrow> (string res \<times> 'w) option" where
  "ask_otp U label w =
     (case ui_notify U (auth_notification (ui_time_sensitive U) ''yubi-auth'' label ''Enter YubiKey OTP'') w of
        ((_, Some e), w) \<Rightarrow> Some (Inl e, w)
      | ((resp, None), w) \<Rightarrow>
          if re_action resp = ui_dismiss U then Some (Inl (ErrText ''auth form user cancelled''), w)
          else if re_action resp = ui_default U then
            (case ui_alert U (otp_alert label) w of
               ((_, Some e), w) \<Rightarrow> Some (Inl e, w)
             | ((r, None), w) \<Rightarrow>
                 if ar_button r = 1 then Some (Inl (ErrText ''auth form user cancelled''), w)
                 else (case ar_inputs r of [] \<Rightarrow> None | i # _ \<Rightarrow> Some (Inr i, w)))
          else if re_action resp = ''yubi-auth-token'' then Some (Inr (re_text resp), w)
          else Some (Inr [], w))"

text \<open>The credentials of the URL: a URL without a user has neither name nor password.\<close>

definition url_credentials :: "url \<Rightarrow> credentials" where
  "url_credentials u = (case u_user u of
     None \<Rightarrow> \<lparr>cp_username = [], cp_password = []\<rparr>
   | Some (n, pw) \<Rightarrow> \<lparr>cp_username = n, cp_password = (case pw of Some p \<Rightarrow> p | None \<Rightarrow> [])\<rparr>)"

definition oc_process_form ::
  "(string \<Rightarrow> string) \<Rightarrow> (nat \<Rightarrow> string \<Rightarrow> 'w \<Rightarrow> int \<times> 'w) \<Rightarrow> 'w ui \<Rightarrow> url \<Rightarrow> string \<Rightarrow> auth_form \<Rightarrow> 'w \<Rightarrow> (goerr option \<times> 'w) option" where
  "oc_process_form ul setopt U u label form w =
     (if af_error form \<noteq> [] then Some (Some (ErrText (af_error form)), w)
      else
        (let cp = url_credentials u in
         case (if values_get ''token'' (parse_query (u_raw_query u)) = ''otp'' then ask_otp U label w else Some (Inr [], w)) of
           None \<Rightarrow> None
         | Some (Inl e, w) \<Rightarrow> Some (Some e, w)
         | Some (Inr otp, w) \<Rightarrow> Some (credentials_process_form ul setopt (cp\<lparr>cp_password := cp_password cp @ otp\<rparr>) form w)))"

section \<open>Connecting\<close>

text \<open>The label of the context, or the URL with its password hidden (\<open>redacted\<close>).\<close>

definition dialer_label :: "(url \<Rightarrow> string) \<Rightarrow> string option \<Rightarrow> url \<Rightarrow> string" where
  "dialer_label redacted ctx_label u = (case ctx_label of Some l \<Rightarrow> if l \<noteq> [] then l else redacted u | None \<Rightarrow> redacted u)"

definition dialer_log_level :: "(slog_level \<Rightarrow> bool) \<Rightarrow> int" where
  "dialer_log_level enabled =
     (if enabled LevelDebug then 3 else if enabled LevelInfo then 1 else if enabled LevelError then 0 else 0)"

definition csd_info_of :: "csd_args \<Rightarrow> csd_info" where
  "csd_info_of a = \<lparr>csd_hostname = ca_hostname a, csd_token = ca_token a, csd_ticket = ca_ticket a, csd_stub = ca_stub a, csd_sha256 = ca_sha256 a\<rparr>"

text \<open>
  The callbacks of a dialer; \<open>log\<close> is the logger, \<open>csd\<close> the host scan and \<open>form_result\<close> what a panic of the form callback
  becomes. Certificates are always accepted; only AnyConnect has a host scan.
\<close>

definition dialer_callbacks ::
  "(int \<Rightarrow> string \<Rightarrow> 'w \<Rightarrow> 'w) \<Rightarrow> 'w processor list \<Rightarrow> (csd_info \<Rightarrow> 'w \<Rightarrow> goerr option \<times> 'w) \<Rightarrow>
   (string \<Rightarrow> 'w \<Rightarrow> goerr option \<times> 'w) \<Rightarrow> url \<Rightarrow> 'w callbacks" where
  "dialer_callbacks progress forms csd browser u =
     \<lparr>cb_validate = Some (\<lambda>cert. True), cb_auth = Some (aggregate_process_form forms),
      cb_csd = (if u_scheme u = ''anyconnect'' then Some (\<lambda>a. csd (csd_info_of a)) else None),
      cb_progress = Some progress, cb_browser = Some browser, cb_reconnected = None\<rparr>"

definition dialer_options :: "(slog_level \<Rightarrow> bool) \<Rightarrow> 'w callbacks \<Rightarrow> url \<Rightarrow> 'w options" where
  "dialer_options enabled cbs u =
     \<lparr>op_user_agent = [], op_version = [], op_protocol = u_scheme u, op_server = u_host u @ u_path u, op_csd = [],
      op_log_level = dialer_log_level enabled, op_force_dpd = 5, op_insecure = True, op_callbacks = cbs\<rparr>"

definition net_options_of :: "ip_info \<Rightarrow> net_options" where
  "net_options_of ip = \<lparr>no_addr = ii_addr ip, no_netmask = ii_netmask ip, no_addr6 = ii_addr6 ip, no_netmask6 = ii_netmask6 ip,
     no_dns = ii_dns ip, no_domain = ii_domain ip, no_mtu = ii_mtu ip\<rparr>"

text \<open>
  \<open>WithConn\<close>: \<open>tun\<close> is \<open>NewTunDialer\<close> on the tunnel's descriptor. Its deferred close of the descriptor runs when anything
  after \<open>TunClient\<close> fails.
\<close>

definition with_conn ::
  "'w oc_api \<Rightarrow> 'w sock_api \<Rightarrow> (string \<Rightarrow> string) \<Rightarrow>
   (nat option \<Rightarrow> 'w \<Rightarrow> int \<times> c_ip_info \<times> (string option \<times> string option) list \<times> (string option \<times> string option) list) \<Rightarrow>
   (net_options \<Rightarrow> 'd res) \<Rightarrow> conn \<times> 'w ocst \<Rightarrow> ('d \<times> int) res \<times> (conn \<times> 'w ocst)" where
  "with_conn A S quote api_ip tun cs =
     (let close_rwc = (\<lambda>fd (c, s). (c, s\<lparr>oc_w := sp_close S fd (oc_w s)\<rparr>)) in
      case tun_client A S quote api_ip (cn_vpn (fst cs)) (snd cs) of
        (Inl e, s) \<Rightarrow> (Inl e, (fst cs, s))
      | (Inr (fd, ip), s) \<Rightarrow>
          (case tun (net_options_of ip) of
             Inl e \<Rightarrow> (Inl e, close_rwc fd (fst cs, s))
           | Inr d \<Rightarrow> (case conn_run A (fst cs, s) of
               (Some e, cs) \<Rightarrow> (Inl e, close_rwc fd cs)
             | (None, cs) \<Rightarrow> (Inr (d, fd), cs))))"

definition new_dialer ::
  "'w oc_api \<Rightarrow> int \<Rightarrow> (nat \<Rightarrow> 'w ocst \<Rightarrow> 32 word \<times> 'w ocst) \<Rightarrow> 'w sock_api \<Rightarrow> 'w pipe \<Rightarrow> cmd_bytes \<Rightarrow> (string \<Rightarrow> string) \<Rightarrow>
   (nat option \<Rightarrow> 'w \<Rightarrow> int \<times> c_ip_info \<times> (string option \<times> string option) list \<times> (string option \<times> string option) list) \<Rightarrow>
   (net_options \<Rightarrow> 'd res) \<Rightarrow> 'w options \<Rightarrow> 'w ocst \<Rightarrow> (('d \<times> int) \<times> conn) res \<times> 'w ocst" where
  "new_dialer A uid obtain_call S P B quote api_ip tun opts s =
     (case oc_connect A uid obtain_call opts s of
        (Inl e, s) \<Rightarrow> (Inl e, s)
      | (Inr c, s) \<Rightarrow> (case with_conn A S quote api_ip tun (c, s) of
          (Inl e, cs) \<Rightarrow> (let (_, (_, s)) = conn_close A P B cs in (Inl e, s))
        | (Inr d, (c, s)) \<Rightarrow> (Inr (d, c), s)))"

text \<open>The goroutine of \<open>WithConn\<close>: it waits for the connection's end, then closes the descriptor.\<close>

definition with_conn_wait :: "'w sock_api \<Rightarrow> int \<Rightarrow> conn \<times> 'w ocst \<Rightarrow> 'w ocst option" where
  "with_conn_wait S fd cs = map_option (\<lambda>_. (snd cs)\<lparr>oc_w := sp_close S fd (oc_w (snd cs))\<rparr>) (conn_wait (fst cs))"


section \<open>Sessions of a dialer\<close>

lemma same_sessions_refl [simp]: "same_sessions s s"
  by (simp add: same_sessions_def)

lemma same_sessions_w [simp]:
  "same_sessions s (t\<lparr>oc_w := w\<rparr>) = same_sessions s t" "same_sessions (s\<lparr>oc_w := w\<rparr>) t = same_sessions s t"
  by (simp_all add: same_sessions_def vpn_def)

lemma get_tun_fd_same: "same_sessions s (snd (snd (get_tun_fd A v s)))"
  by (simp add: get_tun_fd_def case_prod_beta Let_def)

lemma oc_call_same: "same_sessions s (snd (oc_call op f v s))"
  by (rule same_sessions_frame [OF oc_frame_call])

lemma tun_client_same: "same_sessions s (snd (tun_client A S quote api_ip v s))"
proof -
  obtain e1 s1 where 1: "tun_script A quote v [''builtin''] s = (e1, s1)" by fastforce
  have s1: "same_sessions s s1" using oc_call_same [of s] 1 unfolding tun_script_def setup_tun_script_def by (metis snd_conv)
  show ?thesis
  proof (cases e1)
    case None
    obtain r w where 2: "sp_pair S (oc_w s1) = (r, w)" by fastforce
    show ?thesis
    proof (cases r)
      case (Inr fds)
      obtain a b where fds: "fds = (a, b)" by fastforce
      let ?s2 = "s1\<lparr>oc_w := sp_setup S b (sp_setup S a w)\<rparr>"
      obtain old e3 s3 where 3: "get_tun_fd A v ?s2 = (old, e3, s3)" by (metis surj_pair)
      let ?s4 = "if e3 = None then s3\<lparr>oc_w := sp_close S old (oc_w s3)\<rparr> else s3"
      obtain e5 s5 where 5: "setup_tun_fd A v a ?s4 = (e5, s5)" by fastforce
      have "same_sessions ?s2 s3" using get_tun_fd_same [of ?s2 A v] 3 by simp
      then have s4: "same_sessions s ?s4" using s1 by (auto intro: same_sessions_trans)
      have "same_sessions ?s4 s5" using oc_call_same [of ?s4] 5 unfolding setup_tun_fd_def by (metis snd_conv)
      with s4 have "same_sessions s s5" by (rule same_sessions_trans)
      then show ?thesis using 1 None 2 Inr fds 3 5
        by (simp add: tun_client_def Let_def split: option.split sum.split)
    qed (use 1 None 2 s1 in \<open>simp add: tun_client_def\<close>)
  qed (use 1 s1 in \<open>simp add: tun_client_def\<close>)
qed

text \<open>
  A connection in the making: its session is live or has been freed by its own cancel, and the main loop does not run.
\<close>

definition owns :: "(nat \<rightharpoonup> nat) \<Rightarrow> nat \<Rightarrow> conn \<times> 'w ocst \<Rightarrow> bool" where
  "owns h p cs \<longleftrightarrow> vpn_inv (snd cs) \<and> cn_vpn (fst cs) < length (oc_vpns (snd cs)) \<and> h p = None \<and> \<not> cn_main_loop (fst cs) \<and>
     (case cn_cause (fst cs) of
        None \<Rightarrow> vi_ptr (vpn (cn_vpn (fst cs)) (snd cs)) = Some p \<and> map_of (oc_handles (snd cs)) = h(p \<mapsto> cn_vpn (fst cs))
      | Some _ \<Rightarrow> map_of (oc_handles (snd cs)) = h)"

lemma owns_same: "owns h p (c, s) \<Longrightarrow> same_sessions s s' \<Longrightarrow> owns h p (c\<lparr>cn_watching := b\<rparr>, s')"
  using same_sessions_inv [of s s'] by (auto simp: owns_def same_sessions_def split: option.splits)

lemma owns_cancel:
  assumes "owns h p cs"
  shows "owns h p (conn_cancel A e cs)" and "map_of (oc_handles (snd (conn_cancel A e cs))) = h" and "vpn_inv (snd (conn_cancel A e cs))"
proof -
  obtain c s where cs: "cs = (c, s)" by fastforce
  show "owns h p (conn_cancel A e cs)"
  proof (cases "cn_cause c")
    case None
    then have "vpn_inv (vpn_free A (cn_vpn c) s)" using assms vpn_free_inv [of s "cn_vpn c" A] by (simp add: owns_def cs)
    then show ?thesis using assms None
      by (auto simp: owns_def cs conn_cancel_def vpn_free_parts go_simps split: option.splits)
  qed (use assms in \<open>simp add: conn_cancel_def cs\<close>)
  then show "map_of (oc_handles (snd (conn_cancel A e cs))) = h" "vpn_inv (snd (conn_cancel A e cs))"
    by (auto simp: owns_def conn_cancel_def split: option.splits)
qed

lemma owns_close: "owns h p cs \<Longrightarrow> map_of (oc_handles (snd (snd (conn_close A P B cs)))) = h \<and> vpn_inv (snd (snd (conn_close A P B cs)))"
  using owns_cancel(2,3) [of h p cs A None] by (simp add: conn_close_def owns_def)

lemma with_conn_owns:
  assumes "owns h p cs" and "cn_cause (fst cs) = None"
  shows "case with_conn A S quote api_ip tun cs of
     (Inl e, cs') \<Rightarrow> owns h p cs'
   | (Inr d, (c', s')) \<Rightarrow> vpn_inv s' \<and> cn_vpn c' = cn_vpn (fst cs) \<and> cn_cause c' = None \<and> cn_main_loop c' \<and>
       map_of (oc_handles s') = h(p \<mapsto> cn_vpn c')"
proof -
  obtain c s where cs: "cs = (c, s)" by fastforce
  obtain r s1 where 1: "tun_client A S quote api_ip (cn_vpn c) s = (r, s1)" by fastforce
  have s1: "same_sessions s s1" using tun_client_same [of s A S quote api_ip "cn_vpn c"] 1 by simp
  have o1: "owns h p (c, s1\<lparr>oc_w := w\<rparr>)" for w
    using owns_same [of h p c s "s1\<lparr>oc_w := w\<rparr>" "cn_watching c"] assms s1 by (simp add: cs)
  show ?thesis
  proof (cases r)
    case (Inl e)
    then show ?thesis using 1 o1 [of "oc_w s1"] by (simp add: with_conn_def cs)
  next
    case (Inr fi)
    obtain fd ip where fi: "fi = (fd, ip)" by fastforce
    show ?thesis
    proof (cases "tun (net_options_of ip)")
      case (Inl e)
      then show ?thesis using 1 Inr fi o1 by (simp add: with_conn_def cs \<open>r = Inr fi\<close>)
    next
      case tun: (Inr d)
      obtain e2 s2 where 2: "main_loop A (cn_vpn c) s1 = (e2, s2)" by fastforce
      have "same_sessions s1 s2" using oc_call_same [of s1] 2 unfolding main_loop_def by (metis snd_conv)
      then have s2: "same_sessions s (s2\<lparr>oc_w := w\<rparr>)" for w using s1 by (auto intro: same_sessions_trans)
      have o2: "owns h p (c\<lparr>cn_watching := b\<rparr>, s2)" for b
        using owns_same [of h p c s s2 b] assms s2 [of "oc_w s2"] by (simp add: cs)
      show ?thesis
      proof (cases e2)
        case None
        then show ?thesis using 1 Inr fi tun 2 o2 [of True] assms(2)
          by (auto simp: with_conn_def cs conn_run_def conn_run_go_def conn_run_loop_def owns_def)
      next
        case (Some e)
        let ?c = "conn_cancel A (Some e) (c\<lparr>cn_watching := False\<rparr>, s2)"
        have "owns h p ?c" by (rule owns_cancel [OF o2])
        then have "owns h p (fst ?c, (snd ?c)\<lparr>oc_w := w\<rparr>)" for w
          using owns_same [of h p "fst ?c" "snd ?c" "(snd ?c)\<lparr>oc_w := w\<rparr>" "cn_watching (fst ?c)"] by simp
        then show ?thesis using 1 Inr fi tun 2 Some
          by (simp add: with_conn_def cs conn_run_def conn_run_go_def conn_run_loop_def case_prod_beta)
      qed
    qed
  qed
qed


section \<open>Properties\<close>

text \<open>\<open>NewDialer\<close> leaks no session: when connecting, the tunnel, the network stack or the main loop fails, the handle table
  is what it was before; when it succeeds there is one more handle, that of a running connection.\<close>

theorem new_dialer_no_leak:
  assumes "vpn_inv s" and "fresh_pointers A s" and "obtain_ok obtain_call"
  shows "case new_dialer A uid obtain_call S P B quote api_ip tun opts s of
     (Inl e, s') \<Rightarrow> vpn_inv s' \<and> map_of (oc_handles s') = map_of (oc_handles s)
   | (Inr (d, c), s') \<Rightarrow> vpn_inv s' \<and> cn_cause c = None \<and> cn_main_loop c \<and>
       (\<exists>p. map_of (oc_handles s) p = None \<and> map_of (oc_handles s') = (map_of (oc_handles s))(p \<mapsto> cn_vpn c))"
proof -
  obtain r s1 where 1: "oc_connect A uid obtain_call opts s = (r, s1)" by fastforce
  note cases = oc_connect_cases [OF assms, of uid opts, unfolded 1 fst_conv snd_conv]
  show ?thesis
  proof (cases r)
    case (Inl e)
    then show ?thesis using 1 cases by (simp add: new_dialer_def)
  next
    case (Inr c)
    with cases obtain p where p: "vpn_inv s1" "map_of (oc_handles s) p = None" "map_of (oc_handles s1) = (map_of (oc_handles s))(p \<mapsto> cn_vpn c)"
      by auto
    have fresh: "cn_cause c = None \<and> \<not> cn_main_loop c" using 1 Inr oc_connect_fresh by blast
    have "map_of (oc_handles s1) p = Some (cn_vpn c)" using p(3) by simp
    then have "cn_vpn c < length (oc_vpns s1) \<and> vi_ptr (vpn (cn_vpn c) s1) = Some p" using p(1) unfolding vpn_inv_def by blast
    then have owns: "owns (map_of (oc_handles s)) p (c, s1)" using p fresh by (simp add: owns_def)
    obtain q c' s' where w: "with_conn A S quote api_ip tun (c, s1) = (q, (c', s'))" by (metis surj_pair)
    show ?thesis
    proof (cases q)
      case (Inl e)
      then have "owns (map_of (oc_handles s)) p (c', s')" using with_conn_owns [OF owns, of A S quote api_ip tun] fresh w by simp
      from owns_close [OF this, of A P B] show ?thesis using 1 Inr w Inl by (simp add: new_dialer_def case_prod_beta)
    next
      case d: (Inr d)
      then show ?thesis using with_conn_owns [OF owns, of A S quote api_ip tun] fresh w 1 Inr p(2)
        by (auto simp: new_dialer_def)
    qed
  qed
qed

lemma new_dialer_no_leak_witness:
  "case new_dialer sample_api 0 (\<lambda>v s. (-13, s)) \<lparr>sp_pair = (\<lambda>w. (Inl ErrEOF, w)), sp_setup = (\<lambda>_ w. w), sp_close = (\<lambda>_ w. w)\<rparr>
     (\<lambda>_ _ w. (None, w)) \<lparr>oc_cmd_cancel = 0, oc_cmd_pause = 0, oc_cmd_detach = 0, oc_cmd_stats = 0\<rparr> id (\<lambda>_ _. undefined)
     (\<lambda>_. Inr ()) (sample_options\<lparr>op_protocol := ''gp''\<rparr>) sample_ocst of
     (Inl e, s') \<Rightarrow> vpn_inv s' \<and> map_of (oc_handles s') = map_of (oc_handles sample_ocst) | (Inr _, s') \<Rightarrow> vpn_inv s'"
  using new_dialer_no_leak [OF sample_inv(1) sample_inv(2) [of sample_api], of "\<lambda>v s. (-13, s)" 0
      "\<lparr>sp_pair = (\<lambda>w. (Inl ErrEOF, w)), sp_setup = (\<lambda>_ w. w), sp_close = (\<lambda>_ w. w)\<rparr>" "\<lambda>_ _ w. (None, w)"
      "\<lparr>oc_cmd_cancel = 0, oc_cmd_pause = 0, oc_cmd_detach = 0, oc_cmd_stats = 0\<rparr>" id "\<lambda>_ _. undefined" "\<lambda>_. Inr ()"
      "sample_options\<lparr>op_protocol := ''gp''\<rparr>"]
  by (auto simp: obtain_ok_def split: sum.splits prod.splits)

text \<open>whether the user is asked for a one-time password depends on the option \<open>token\<close> of the configured proxy being \<open>otp\<close>; for
  any other value, \<open>totp\<close> included, the form gets the configured user and password as they are, and nobody is asked. With
  \<open>otp\<close> an answer typed into the notification is appended to the password.\<close>

theorem otp_prompt_only_for_otp:
  assumes "url_unmarshal_json parse foldname (JObject kvs) empty_url = Inr u" and "af_error form = []"
  defines "p \<equiv> snd (json_parts foldname (JObject kvs))"
  shows "(map_of (pt_options p) ''token'' \<noteq> Some ''otp'' \<longrightarrow>
      oc_process_form ul setopt U u label form w =
        Some (set_all setopt (credential_values ul \<lparr>cp_username = pt_username p, cp_password = pt_password p\<rparr> (af_options form)) w)) \<and>
    (map_of (pt_options p) ''token'' = Some ''otp'' \<longrightarrow>
      (\<forall>r w'. ui_notify U (auth_notification (ui_time_sensitive U) ''yubi-auth'' label ''Enter YubiKey OTP'') w = ((r, None), w') \<longrightarrow>
        re_action r = ''yubi-auth-token'' \<longrightarrow> ui_dismiss U \<noteq> ''yubi-auth-token'' \<longrightarrow> ui_default U \<noteq> ''yubi-auth-token'' \<longrightarrow>
        oc_process_form ul setopt U u label form w =
          Some (set_all setopt (credential_values ul \<lparr>cp_username = pt_username p, cp_password = pt_password p @ re_text r\<rparr> (af_options form)) w')))"
proof -
  have t: "values_get ''token'' (parse_query (u_raw_query u)) = ''otp'' \<longleftrightarrow> map_of (pt_options p) ''token'' = Some ''otp''"
    using url_of_parts(3) [OF assms(1), of "''token''"] by (auto simp: p_def split: option.splits)
  have c: "url_credentials u = \<lparr>cp_username = pt_username p, cp_password = pt_password p\<rparr>"
    using url_of_parts(2) [OF assms(1)] by (auto simp: url_credentials_def p_def)
  show ?thesis
    using assms(2) by (auto simp: oc_process_form_def t c credentials_process_form_def credentials_loop_values ask_otp_def)
qed

definition totp_config :: "(string \<times> json) list" where
  "totp_config = [(''username'', JString ''u''), (''password'', JString ''p''), (''options'', JObject [(''token'', JString ''totp'')])]"

definition login_form :: auth_form where
  "login_form = \<lparr>af_banner = [], af_message = [], af_error = [], af_authgroup = None,
     af_options = [\<lparr>fo_handle = 1, fo_name = ''username'', fo_label = [], fo_type = form_option_text, fo_choices = []\<rparr>,
       \<lparr>fo_handle = 2, fo_name = ''password'', fo_label = [], fo_type = form_option_password, fo_choices = []\<rparr>]\<rparr>"


definition sample_ui :: "(nat \<times> string) list ui" where
  "sample_ui = \<lparr>ui_notify = (\<lambda>n w. ((zero_response, None), w)), ui_alert = (\<lambda>a w. ((\<lparr>ar_button = 1, ar_inputs = []\<rparr>, None), w)),
     ui_open = (\<lambda>u w. (None, w)), ui_dismiss = ''dismiss'', ui_default = ''default'', ui_time_sensitive = 2\<rparr>"

lemma otp_prompt_only_for_otp_witness:
  "\<exists>u. url_unmarshal_json (\<lambda>s. Inr empty_url) id (JObject totp_config) empty_url = Inr u \<and>
     oc_process_form id (\<lambda>h v w. (0, w @ [(h, v)])) sample_ui u ''vpn'' login_form [] = Some (None, [(1, ''u''), (2, ''p'')])"
proof -
  have parts: "json_parts id (JObject totp_config) =
      (None, no_parts\<lparr>pt_username := ''u'', pt_password := ''p'', pt_options := [(''token'', ''totp'')]\<rparr>)"
    by (simp add: totp_config_def json_parts_def parts_field_def json_options_def json_string_def first_err_def no_parts_def)
  then obtain u where u: "url_unmarshal_json (\<lambda>s. Inr empty_url) id (JObject totp_config) empty_url = Inr u"
    by (simp add: url_unmarshal_json_def json_string_def)
  have "oc_process_form id (\<lambda>h v w. (0, w @ [(h, v)])) sample_ui u ''vpn'' login_form [] =
      Some (set_all (\<lambda>h v w. (0, w @ [(h, v)])) (credential_values id \<lparr>cp_username = ''u'', cp_password = ''p''\<rparr> (af_options login_form)) [])"
    using otp_prompt_only_for_otp [OF u, of login_form id "\<lambda>h v w. (0, w @ [(h, v)])" sample_ui "''vpn''" "[]"] parts
    by (simp add: login_form_def)
  also have "\<dots> = Some (None, [(1, ''u''), (2, ''p'')])"
    by (simp add: login_form_def credential_values_def form_option_text_def form_option_password_def has_prefix_def to_lower_def
      ascii_string_def lower_char_def)
  finally show ?thesis using u by blast
qed

end
