(* ===== verification/Cmd.thy ===== *)
theory Cmd
  imports PacMan EnvDecode NetStack
begin

text \<open>
  The command line: \<open>main.go\<close> and \<open>cmd/\<close>. The option parser is third-party: \<open>parse_args\<close> only chooses its arguments
  and \<open>handle_command\<close> is the callback it is given. The lemmas: \<open>check\<close> answers as the running proxy routes.
\<close>

section \<open>Running a command\<close>

text \<open>A command returns an error or ends the process with a status.\<close>

datatype cmd_result = Returned "goerr option" | Exited nat

definition parse_args :: "(string list \<Rightarrow> 'r) \<Rightarrow> string list \<Rightarrow> 'r" where
  "parse_args parser args = parser (if args = [] then [''proxy''] else args)"

definition main_status :: "'a res \<Rightarrow> nat" where
  "main_status r = (case r of Inl e \<Rightarrow> 1 | Inr a \<Rightarrow> 0)"

text \<open>An empty \<open>--config\<close> is replaced by the default file, which is written when it is missing.\<close>

definition handle_command ::
  "'w fs \<Rightarrow> string \<Rightarrow> (string \<Rightarrow> string list \<Rightarrow> 'w \<Rightarrow> cmd_result \<times> 'w) \<Rightarrow> string \<Rightarrow> string list \<Rightarrow> 'w \<Rightarrow> cmd_result \<times> 'w" where
  "handle_command F default_config execute config_path args w =
     (if config_path = [] then
        (case ensure_default_config_file F default_config w of
           (Inl e, w) \<Rightarrow> (Returned (Some e), w)
         | (Inr path, w) \<Rightarrow> execute path args w)
      else execute config_path args w)"

section \<open>check\<close>

text \<open>A nil rule is a panic (\<open>None\<close>).\<close>

fun check_rules :: "(string \<Rightarrow> string) \<Rightarrow> (nat \<Rightarrow> nat \<Rightarrow> nat) \<Rightarrow> cfg_rule option list \<Rightarrow> unit trie \<Rightarrow> unit trie option" where
  "check_rules ul grow [] t = Some t"
| "check_rules ul grow (r # rls) t = (case r of
     None \<Rightarrow> None
   | Some r \<Rightarrow> check_rules ul grow rls (foldl (\<lambda>t h. trie_insert ul grow t h ()) t (cr_hosts r)))"

text \<open>The hosts in order, up to the first that matches; a failing lookup panics.\<close>

fun check_args :: "(string \<Rightarrow> string) \<Rightarrow> unit trie \<Rightarrow> string list \<Rightarrow> bool option" where
  "check_args ul t [] = Some False"
| "check_args ul t (h # hs) = (case trie_match ul () t h of
     None \<Rightarrow> None
   | Some (_, ok) \<Rightarrow> if ok then Some True else check_args ul t hs)"

definition check_execute ::
  "(string \<Rightarrow> string) \<Rightarrow> (nat \<Rightarrow> nat \<Rightarrow> nat) \<Rightarrow> config res \<Rightarrow> string list \<Rightarrow> cmd_result option" where
  "check_execute ul grow cfg args = (case cfg of
     Inl e \<Rightarrow> Some (Returned (Some e))
   | Inr rs \<Rightarrow> Option.bind (check_rules ul grow (cf_rules rs) empty_trie) (\<lambda>t.
       map_option (\<lambda>ok. if ok then Returned None else Exited 1) (check_args ul t args)))"

section \<open>version\<close>

text \<open>\<open>version\<close> is the text set at build time, \<open>dev\<close> otherwise; the first result is what is printed.\<close>

definition version_default :: string where
  "version_default = ''dev''"

definition version_execute :: "string option \<Rightarrow> string list \<Rightarrow> string \<times> cmd_result" where
  "version_execute version args = ((case version of Some v \<Rightarrow> v | None \<Rightarrow> version_default) @ [CHR 0x0A], Returned None)"

section \<open>proxy\<close>

definition proxy_listener :: "(string \<Rightarrow> 'l list res) \<Rightarrow> 'l res" where
  "proxy_listener activate = bind_res (activate ''Socket'')
     (\<lambda>ls. case ls of [] \<Rightarrow> Inl (ErrText ''no launchd sockets were passed'') | l # _ \<Rightarrow> Inr l)"

definition proxy_execute ::
  "(string \<Rightarrow> 'l list res) \<Rightarrow> (string \<Rightarrow> 'l option \<Rightarrow> goerr option) \<Rightarrow> string \<Rightarrow> bool \<Rightarrow> cmd_result" where
  "proxy_execute activate run path launchd =
     (if launchd then (case proxy_listener activate of
        Inl e \<Rightarrow> Returned (Some e)
      | Inr l \<Rightarrow> Returned (run path (Some l)))
      else Returned (run path None))"

text \<open>\<open>launch.ActivateSocket\<close>: \<open>sys\<close> is the call of the C library, \<open>file_listener\<close> is \<open>net.FileListener\<close>.\<close>

definition activate_socket :: "(string \<Rightarrow> int \<times> nat list) \<Rightarrow> (nat \<Rightarrow> 'l res) \<Rightarrow> string \<Rightarrow> 'l list res" where
  "activate_socket sys file_listener name =
     (let (result, fds) = sys name in
      if result \<noteq> 0 then Inl (ErrText (''error activating launch socket: '' @ name))
      else foldr (\<lambda>fd rest. case file_listener fd of
          Inl e \<Rightarrow> Inl (ErrText (''error activating launch socket: '' @ name @ '', fd: '' @ nat_digits fd))
        | Inr l \<Rightarrow> bind_res rest (\<lambda>ls. Inr (l # ls))) fds (Inr []))"

section \<open>tunsocks\<close>

text \<open>\<open>strings.Fields\<close>; \<open>cur\<close> is the field so far, reversed.\<close>

function fields_from :: "string \<Rightarrow> string \<Rightarrow> string list" where
  "fields_from cur s =
     (if s = [] then (if cur = [] then [] else [rev cur])
      else if lead_space s = 0 then fields_from (hd s # cur) (tl s)
      else (if cur = [] then [] else [rev cur]) @ fields_from [] (drop (lead_space s) s))"
  by pat_completeness auto
termination by (relation "measure (\<lambda>(cur, s). length s)") auto

declare fields_from.simps [simp del]

definition space_separated :: "string \<Rightarrow> string list" where
  "space_separated text = fields_from [] text"

text \<open>\<open>TunEnv\<close> and its zero value. There are no floats in it: their type is \<open>unit\<close>.\<close>

definition text_field :: "string \<Rightarrow> string \<Rightarrow> unit gotype \<Rightarrow> unit field \<times> unit goval" where
  "text_field name tag t = (\<lparr>fd_name = name, fd_settable = True, fd_tag = tag, fd_type = t\<rparr>, zero_val () t)"

definition tun_env :: "(unit field \<times> unit goval) list" where
  "tun_env =
     [text_field ''Fd'' ''VPNFD,required'' (TInt 64),
      text_field ''MTU'' ''INTERNAL_IP4_MTU,required'' (TUint 32),
      text_field ''IP'' ''INTERNAL_IP4_ADDRESS,required'' TString,
      text_field ''Netmask'' ''INTERNAL_IP4_NETMASK,required'' TString,
      text_field ''DNS'' ''INTERNAL_IP4_DNS,required'' (TText (\<lambda>s. Inr (VStrings (space_separated s))) (TOther ''slice'')),
      text_field ''Domain'' ''CISCO_DEF_DOMAIN'' TString]"

definition tun_options :: "(unit field \<times> unit goval) list \<Rightarrow> (int \<times> net_options) option" where
  "tun_options fs = (case map snd fs of
     [VInt fd, VUint mtu, VString ip, VString msk, dns, VString dm] \<Rightarrow>
       Some (fd, \<lparr>no_addr = ip, no_netmask = msk, no_addr6 = [], no_netmask6 = [],
         no_dns = (case dns of VStrings xs \<Rightarrow> xs | _ \<Rightarrow> []), no_domain = dm, no_mtu = of_nat mtu\<rparr>)
   | _ \<Rightarrow> None)"

text \<open>
  \<open>Execute\<close> up to the SOCKS server, which is third-party: the listener it serves and the DNS servers of its dialer.
  \<open>os.NewFile\<close> gives nil for a negative descriptor; \<open>tun\<close> is \<open>NewTunDialer\<close>. \<open>None\<close> would be a field that holds no
  value of its type: \<open>tunsocks_total\<close> shows that there is none.
\<close>

datatype tun_step = SetNonblock int | NewTun net_options | Listen string

definition tunsocks_execute ::
  "(string \<Rightarrow> string) \<Rightarrow> (net_options \<Rightarrow> string list res) \<Rightarrow> (string \<Rightarrow> 'l res) \<Rightarrow> string \<Rightarrow> string list \<Rightarrow>
   (('l \<times> string list) res \<times> tun_step list) option" where
  "tunsocks_execute gq tun listen addr environ =
     (case env_unmarshal (\<lambda>b s. Inl ErrEOF) () gq (Struct ''TunEnv'' tun_env) environ of
        (Some e, _) \<Rightarrow> Some (Inl (ErrWrap ''error parsing env: '' e), [])
      | (None, t) \<Rightarrow> map_option (\<lambda>(fd, opts).
          if fd < 0 then (Inl (ErrText (''Invalid file descriptor: '' @ format_int fd)), [SetNonblock fd])
          else (case tun opts of
              Inl e \<Rightarrow> (Inl e, [SetNonblock fd, NewTun opts])
            | Inr dns \<Rightarrow> (case listen addr of
                Inl e \<Rightarrow> (Inl e, [SetNonblock fd, NewTun opts, Listen addr])
              | Inr l \<Rightarrow> (Inr (l, dns), [SetNonblock fd, NewTun opts, Listen addr]))))
          (case t of Struct _ fs \<Rightarrow> tun_options fs | _ \<Rightarrow> None))"

section \<open>Rules under a change of values\<close>

text \<open>Whether and where a rule matches does not depend on the values of the rules.\<close>

lemma rules_values:
  "host_rules (map (apsnd f) rules) = map (apsnd f) (host_rules rules)"
  "zone_rules (map (apsnd f) rules) = map (apsnd f) (zone_rules rules)"
  "net_rules (map (apsnd f) rules) = map (apsnd f) (net_rules rules)"
  by (induction rules) (auto split: rule.split)

lemma rule_map_values: "rule_map ul (map (apsnd f) rules) k = map_option f (rule_map ul rules k)"
proof (induction rules rule: rev_induct)
  case (snoc r rules)
  obtain h v where "r = (h, v)" by fastforce
  then show ?case using snoc by simp
qed (simp add: rule_map_def)

lemma lpm_values: "lpm (map (apsnd f) rules) ip = map_option (apsnd f) (lpm rules ip)"
proof (induction rules rule: rev_induct)
  case (snoc r rules)
  then show ?case by (auto simp: lpm_snoc narrower_def split: option.split)
qed (simp add: lpm_def)

lemma suffix_lookup_values:
  "(\<And>k. m' k = map_option f (m k)) \<Longrightarrow> suffix_lookup m' ls = map_option f (suffix_lookup m ls)"
  by (induction ls) (auto split: option.split)

lemma zone_rules_match_values:
  "zone_rules_match ul (map (apsnd f) zs) h = map_option f (zone_rules_match ul zs h)"
proof -
  have "dom (rule_map ul (map (apsnd f) zs)) = dom (rule_map ul zs)" by (auto simp: rule_map_values dom_def)
  then show ?thesis
    using suffix_lookup_values [of "rule_map ul (map (apsnd f) zs)" f "rule_map ul zs"]
    by (auto simp: zone_rules_match_def lone_zone_def rule_map_values)
qed

lemma rules_match_values: "rules_match ul (map (apsnd f) rules) h = map_option f (rules_match ul rules h)"
  by (auto simp: rules_match_def rules_values rule_map_values lpm_values zone_rules_match_values option.map_comp comp_def
      split: option.split)

section \<open>Rules under another top-level label\<close>

text \<open>\<open>tld ul h\<close> is the last label of the name. Zones under another last label do not matter to a lookup.\<close>

definition tld :: "(string \<Rightarrow> string) \<Rightarrow> string \<Rightarrow> string" where
  "tld ul h = List.last (split_host (canonocalize_host ul h))"

lemma rule_map_split: "rule_map ul (xs @ ys) k = (case rule_map ul ys k of None \<Rightarrow> rule_map ul xs k | v \<Rightarrow> v)"
proof (induction ys rule: rev_induct)
  case (snoc y ys)
  obtain h v where "y = (h, v)" by fastforce
  then show ?case using snoc rule_map_snoc [of ul "xs @ ys" h v] by simp
qed (simp add: rule_map_def)

lemma rule_map_dom: "rule_map ul xs k = Some v \<Longrightarrow> \<exists>z \<in> set (map fst xs). canonocalize_host ul z = k"
proof (induction xs rule: rev_induct)
  case (snoc x xs)
  obtain h v where "x = (h, v)" by fastforce
  then show ?case using snoc by (auto split: if_splits)
qed (simp add: rule_map_def)

lemma split_host_nonempty [simp]: "split_host s \<noteq> []"
  by (simp add: split_host_def)

lemma suffix_last: "suffix xs ys \<Longrightarrow> xs \<noteq> [] \<Longrightarrow> List.last xs = List.last ys"
  by (auto simp: suffix_def)

lemma split_host_drop: "i < length (split_host h) \<Longrightarrow> split_host (join ''.'' (drop i (split_host h))) = drop i (split_host h)"
  unfolding split_host_def by (intro split_on_join) (auto dest: in_set_dropD split_on_labels)

lemma suffix_lookup_agree:
  "(\<And>i. i < length ls \<Longrightarrow> m (join ''.'' (drop i ls)) = m' (join ''.'' (drop i ls))) \<Longrightarrow> suffix_lookup m ls = suffix_lookup m' ls"
proof (induction ls)
  case (Cons l ls)
  have "suffix_lookup m ls = suffix_lookup m' ls"
  proof (rule Cons.IH)
    fix i assume "i < length ls"
    then show "m (join ''.'' (drop i ls)) = m' (join ''.'' (drop i ls))" using Cons.prems [of "Suc i"] by simp
  qed
  then show ?case using Cons.prems [of 0] by (simp split: option.split)
qed simp

text \<open>Zones that all end in a label other than the host's leave a lookup as it is.\<close>

lemma zone_rules_match_tld:
  assumes "\<forall>(z, v) \<in> set xs. tld ul z \<noteq> tld ul h"
  shows "rule_map ul (xs @ ys) (canonocalize_host ul h) = rule_map ul ys (canonocalize_host ul h)"
    and "zone_rules_match ul (xs @ ys) h = zone_rules_match ul ys h"
proof -
  let ?c = "canonocalize_host ul h" and ?m = "rule_map ul (xs @ ys)" and ?n = "rule_map ul ys"
  have none: "rule_map ul xs k = None" if "List.last (split_host k) = tld ul h" for k
    using assms that rule_map_dom [of ul xs k] by (cases "rule_map ul xs k") (auto simp: tld_def)
  have agree: "?m k = ?n k" if "List.last (split_host k) = tld ul h" for k
    using none [OF that] by (simp add: rule_map_split split: option.split)
  show c: "?m ?c = ?n ?c" by (rule agree) (simp add: tld_def)
  have below: "List.last (split_host k) = tld ul h" if "suffix (split_host ?c) (split_host k)" for k
    using suffix_last [OF that] by (simp add: tld_def)
  have "k \<in> dom ?m \<longleftrightarrow> k \<in> dom ?n" if "suffix (split_host ?c) (split_host k)" for k
    using agree [OF below [OF that]] by (simp add: domIff)
  then have "lone_zone ?m ?c = lone_zone ?n ?c"
    unfolding lone_zone_def by (metis suffix_order.refl)
  moreover have "suffix_lookup ?m (tl (split_host ?c)) = suffix_lookup ?n (tl (split_host ?c))"
  proof (intro suffix_lookup_agree agree)
    fix i assume i: "i < length (tl (split_host ?c))"
    then have "drop i (tl (split_host ?c)) = drop (Suc i) (split_host ?c)" by (simp add: drop_Suc)
    then show "List.last (split_host (join ''.'' (drop i (tl (split_host ?c))))) = tld ul h"
      using i split_host_drop [of "Suc i" ?c] by (simp add: tld_def)
  qed
  ultimately show "zone_rules_match ul (xs @ ys) h = zone_rules_match ul ys h"
    using c by (simp add: zone_rules_match_def)
qed

lemma apex_rules:
  "\<forall>(r, v) \<in> set xs. \<exists>z. rule_kind r = ZoneApex z \<and> P z \<Longrightarrow>
   (\<forall>(z, v) \<in> set (host_rules xs). P z) \<and> (\<forall>(z, v) \<in> set (zone_rules xs). P z) \<and> net_rules xs = []"
  by (induction xs) auto

lemma rules_match_tld:
  assumes "\<forall>(r, v) \<in> set xs. \<exists>z. rule_kind r = ZoneApex z \<and> tld ul z \<noteq> tld ul h"
  shows "rules_match ul (xs @ ys) h = rules_match ul ys h"
proof -
  have p: "\<forall>(z, v) \<in> set (host_rules xs). tld ul z \<noteq> tld ul h" "\<forall>(z, v) \<in> set (zone_rules xs). tld ul z \<noteq> tld ul h"
    "net_rules xs = []"
    using apex_rules [OF assms] by auto
  show ?thesis
    unfolding rules_match_def rules_append p(3)
    using zone_rules_match_tld(1) [OF p(1), of "host_rules ys"] zone_rules_match_tld(2) [OF p(2), of "zone_rules ys"]
    by (simp split: option.split)
qed

section \<open>The label rules\<close>

lemma parse_addr_dot: "parse_addr (CHR ''.'' # s) = None"
  by (simp add: parse_addr_def parse_ipv4_def is_digit_def)

lemma dot_rule: "rule_kind (CHR ''.'' # z) = ZoneApex z"
  by (auto simp: rule_kind_def parse_cidr_def parse_addr_dot has_prefix_def split: option.split)

definition graphic :: "string \<Rightarrow> bool" where
  "graphic s \<longleftrightarrow> list_all (\<lambda>c. 33 \<le> byte_of c \<and> byte_of c < 128) s"

lemma tld_label: "graphic k \<Longrightarrow> tld ul (k @ ''.pacman'') = ''pacman''"
proof -
  assume k: "graphic k"
  have "lower_char CHR ''.'' = CHR ''.''" by (simp add: lower_char_def)
  then have "canonocalize_host ul (k @ ''.pacman'') = map lower_char k @ [CHR ''.''] @ ''pacman''"
    using k by (subst canonocalize_graphic) (auto simp: graphic_def lower_char_def)
  then show ?thesis unfolding tld_def split_host_def by (simp only: split_on_at) (simp add: split_on_no_sep)
qed

section \<open>check and the running proxy\<close>

lemma check_rules_hosts:
  "\<forall>r \<in> set rls. r \<noteq> None \<Longrightarrow>
   check_rules ul grow rls t = Some (foldl (\<lambda>m (r, v). ruleset_add ul grow m r v) t (map (apsnd (\<lambda>_. ())) (config_rules pool rls)))"
proof (induction rls arbitrary: t)
  case (Cons r rls)
  then obtain q where q: "r = Some q" by auto
  have hosts: "foldl (\<lambda>t h. trie_insert ul grow t h ()) t hs =
      foldl (\<lambda>m (r, v). ruleset_add ul grow m r v) t (map (\<lambda>h. (h, ())) hs)" for t hs
    by (induction hs arbitrary: t) (simp_all add: ruleset_add_def)
  show ?case using Cons q by (simp add: config_rules_def hosts comp_def)
qed (simp add: config_rules_def)

lemma check_args_rules:
  "check_args ul (trie_of ul grow rules) hs = Some (\<exists>h \<in> set hs. rules_match ul rules h \<noteq> None)"
  by (induction hs) (auto simp: trie_of_match found_def split: option.split)

lemma check_execute_rules:
  assumes "\<forall>r \<in> set (cf_rules cfg). r \<noteq> None"
  shows "check_execute ul grow (Inr cfg) hs =
    Some (if \<exists>h \<in> set hs. rules_match ul (config_rules pool (cf_rules cfg)) h \<noteq> None then Returned None else Exited 1)"
proof -
  have "check_rules ul grow (cf_rules cfg) empty_trie =
      Some (trie_of ul grow (map (apsnd (\<lambda>_. ())) (config_rules pool (cf_rules cfg))))"
    unfolding check_rules_hosts [OF assms, of ul grow empty_trie pool] trie_of_def ..
  then show ?thesis by (simp add: check_execute_def check_args_rules rules_match_values)
qed

lemma label_rules_tld:
  assumes "\<forall>k \<in> set ks. graphic k" and "tld ul h \<noteq> ''pacman''"
  shows "rules_match ul (map (label_rule pool) ks @ ys) h = rules_match ul ys h"
proof (rule rules_match_tld)
  show "\<forall>(r, v) \<in> set (map (label_rule pool) ks). \<exists>z. rule_kind r = ZoneApex z \<and> tld ul z \<noteq> tld ul h"
    using assms by (auto simp: label_rule_def dot_rule tld_label)
qed

section \<open>tunsocks and its environment\<close>

lemma lead_space_graphic: "33 \<le> byte_of c \<Longrightarrow> byte_of c < 128 \<Longrightarrow> lead_space (c # s) = 0"
proof -
  assume c: "33 \<le> byte_of c" "byte_of c < 128"
  have "take (length r) (c # s) \<noteq> r" if "r \<in> set space_runes" for r
  proof
    assume r: "take (length r) (c # s) = r"
    have ne: "r \<noteq> []" and out: "\<forall>c \<in> set r. byte_of c < 33 \<or> 128 \<le> byte_of c"
      using space_runes_bytes that by (auto simp: list_all_iff)
    from ne r have "c \<in> set r" by (cases r) auto
    with out c show False by (meson leD)
  qed
  then show ?thesis by (auto simp: lead_space_def find_Some_iff split: option.split)
qed

lemma fields_from_word:
  "graphic w \<Longrightarrow> fields_from cur (w @ s) = fields_from (rev w @ cur) s"
proof (induction w arbitrary: cur)
  case (Cons c w)
  then have "lead_space (c # w @ s) = 0" by (simp add: lead_space_graphic graphic_def)
  then show ?case using Cons by (subst fields_from.simps) (simp add: graphic_def)
qed simp

lemma space_separated_join:
  "\<forall>w \<in> set ws. graphic w \<and> w \<noteq> [] \<Longrightarrow> space_separated (join '' '' ws) = ws"
proof (induction ws rule: induct_list012)
  case 1
  show ?case by (simp add: space_separated_def fields_from.simps)
next
  case (2 w)
  then show ?case using fields_from_word [of w "[]" "[]"] by (simp add: space_separated_def fields_from.simps [of _ "[]"])
next
  case (3 w v ws)
  have "lead_space ('' '' @ s) = 1" for s
  proof -
    have "CHR '' '' \<noteq> char_of (9 :: nat)" "CHR '' '' \<noteq> char_of (10 :: nat)" "CHR '' '' \<noteq> char_of (11 :: nat)"
      "CHR '' '' \<noteq> char_of (12 :: nat)" "CHR '' '' \<noteq> char_of (13 :: nat)" "CHR '' '' = char_of (32 :: nat)" by code_simp+
    then show ?thesis by (simp add: lead_space_def space_runes_def)
  qed
  then show ?case
    using 3 fields_from_word [of w "[]" "'' '' @ join '' '' (v # ws)"]
    by (simp add: space_separated_def fields_from.simps [of "rev w"])
qed

lemma tun_env_types: "\<forall>(fd, v) \<in> set tun_env. has_type (fd_type fd) v \<and> text_ok (fd_type fd)"
  by (simp add: tun_env_def text_field_def)

lemma tun_options_types:
  assumes "map fst fs = map fst tun_env" and "\<forall>(fd, v) \<in> set fs. has_type (fd_type fd) v"
  shows "tun_options fs \<noteq> None"
proof -
  have n: "length fs = 6" using arg_cong [OF assms(1), of length] by (simp add: tun_env_def)
  define a b c d e f where abc: "a = fs ! 0" "b = fs ! 1" "c = fs ! 2" "d = fs ! 3" "e = fs ! 4" "f = fs ! 5"
  have fs: "fs = [a, b, c, d, e, f]" using n by (intro nth_equalityI) (auto simp: abc less_Suc_eq eval_nat_numeral)
  then show ?thesis using assms
    by (cases a; cases b; cases c; cases d; cases e; cases f) (auto simp: tun_env_def text_field_def tun_options_def)
qed


section \<open>Properties\<close>



text \<open>\<open>tunsocks\<close> hands the tunnel the addresses, MTU and name servers of its environment, sets the descriptor non-blocking
  first and listens last.\<close>

theorem tunsocks_reads_env:
  assumes "map_of (new_decoder environ) ''VPNFD'' = Some (format_int fd)" and "0 \<le> fd" and "fd < 2 ^ 63"
    and "map_of (new_decoder environ) ''INTERNAL_IP4_MTU'' = Some (nat_digits mtu)" and "mtu < 2 ^ 32"
    and "map_of (new_decoder environ) ''INTERNAL_IP4_ADDRESS'' = Some ip"
    and "map_of (new_decoder environ) ''INTERNAL_IP4_NETMASK'' = Some msk"
    and "map_of (new_decoder environ) ''INTERNAL_IP4_DNS'' = Some (join '' '' servers)" and "\<forall>w \<in> set servers. graphic w \<and> w \<noteq> []"
    and "opts = \<lparr>no_addr = ip, no_netmask = msk, no_addr6 = [], no_netmask6 = [], no_dns = servers,
      no_domain = (case map_of (new_decoder environ) ''CISCO_DEF_DOMAIN'' of Some d \<Rightarrow> d | None \<Rightarrow> []), no_mtu = of_nat mtu\<rparr>"
    and "tun opts = Inr dns" and "listen addr = Inr l"
  shows "tunsocks_execute gq tun listen addr environ = Some (Inr (l, dns), [SetNonblock fd, NewTun opts, Listen addr])"
proof -
  have d: "parse_int 64 (format_int fd) = Inr fd" "parse_uint 32 (nat_digits mtu) = Inr mtu"
    using assms(2,3,5) by (simp_all add: parse_int_format_int parse_uint_nat_digits)
  have tags: "split_on CHR '','' ''VPNFD,required'' = [''VPNFD'', ''required'']"
    "split_on CHR '','' ''INTERNAL_IP4_MTU,required'' = [''INTERNAL_IP4_MTU'', ''required'']"
    "split_on CHR '','' ''INTERNAL_IP4_ADDRESS,required'' = [''INTERNAL_IP4_ADDRESS'', ''required'']"
    "split_on CHR '','' ''INTERNAL_IP4_NETMASK,required'' = [''INTERNAL_IP4_NETMASK'', ''required'']"
    "split_on CHR '','' ''INTERNAL_IP4_DNS,required'' = [''INTERNAL_IP4_DNS'', ''required'']"
    "split_on CHR '','' ''CISCO_DEF_DOMAIN'' = [''CISCO_DEF_DOMAIN'']" by simp_all
  have t: "tun \<lparr>no_addr = ip, no_netmask = msk, no_addr6 = [], no_netmask6 = [], no_dns = servers,
      no_domain = (case map_of (new_decoder environ) ''CISCO_DEF_DOMAIN'' of Some d \<Rightarrow> d | None \<Rightarrow> []), no_mtu = of_nat mtu\<rparr> = Inr dns"
    using assms(10,11) by simp
  show ?thesis
    using assms(2) t by (cases "map_of (new_decoder environ) ''CISCO_DEF_DOMAIN''")
      (simp_all add: tunsocks_execute_def env_unmarshal_def decoder_unmarshal_def tun_env_def text_field_def env_field_def
        unmarshal_field_def tags assms(1,4,6-8,10,12) d space_separated_join [OF assms(9)] tun_options_def del: split_on.simps)
qed

lemma tunsocks_reads_env_witness:
  "\<exists>opts. tunsocks_execute id (\<lambda>x. Inr (no_dns x)) (\<lambda>a. Inr a) ''127.0.0.1:8080''
      [''VPNFD=3'', ''INTERNAL_IP4_MTU=9'', ''INTERNAL_IP4_ADDRESS=10.0.0.2'', ''INTERNAL_IP4_NETMASK=255.0.0.0'', ''INTERNAL_IP4_DNS=10.0.0.1 10.0.0.9''] =
    Some (Inr (''127.0.0.1:8080'', [''10.0.0.1'', ''10.0.0.9'']), [SetNonblock 3, NewTun opts, Listen ''127.0.0.1:8080''])"
proof -
  let ?e = "[''VPNFD=3'', ''INTERNAL_IP4_MTU=9'', ''INTERNAL_IP4_ADDRESS=10.0.0.2'', ''INTERNAL_IP4_NETMASK=255.0.0.0'', ''INTERNAL_IP4_DNS=10.0.0.1 10.0.0.9'']"
  have digits: "digit_char 3 = CHR ''3''" "digit_char 9 = CHR ''9''" by code_simp+
  have e: "map_of (new_decoder ?e) ''VPNFD'' = Some (format_int 3)" "map_of (new_decoder ?e) ''INTERNAL_IP4_MTU'' = Some (nat_digits 9)"
    "map_of (new_decoder ?e) ''INTERNAL_IP4_ADDRESS'' = Some ''10.0.0.2''" "map_of (new_decoder ?e) ''INTERNAL_IP4_NETMASK'' = Some ''255.0.0.0''"
    "map_of (new_decoder ?e) ''INTERNAL_IP4_DNS'' = Some (join '' '' [''10.0.0.1'', ''10.0.0.9''])"
    by (simp_all add: new_decoder_def format_int_def nat_digits.simps digits)
  have w: "\<forall>w \<in> set [''10.0.0.1'', ''10.0.0.9'']. graphic w \<and> w \<noteq> []" by (simp add: graphic_def)
  show ?thesis
    by (rule exI, rule tunsocks_reads_env [OF e(1) _ _ e(2) _ e(3,4,5) w refl]) simp_all
qed

text \<open>\<open>tunsocks\<close> never finds a field that does not hold a value of its type, and touches nothing when a required
  variable is missing.\<close>

lemma tunsocks_total: "tunsocks_execute gq tun listen addr environ \<noteq> None"
proof -
  obtain err fs where r: "env_fields (\<lambda>b s. Inl ErrEOF) () gq (new_decoder environ) ''TunEnv'' tun_env = (err, fs)" by fastforce
  have "tun_options fs \<noteq> None"
    using env_fields_type [OF tun_env_types, of "\<lambda>b s. Inl ErrEOF" "()" gq "new_decoder environ" "''TunEnv''"] env_fields_shape [OF r] r
    by (intro tun_options_types) simp_all
  then obtain x where "tun_options fs = Some x" by blast
  then show ?thesis by (cases err) (simp_all add: tunsocks_execute_def env_unmarshal_def decoder_unmarshal_def r)
qed

end
