(* ===== verification/AppRun.thy ===== *)
theory AppRun
  imports PacMan Menu
begin

text \<open>
  The running application: \<open>Run\<close> and \<open>run\<close> of \<open>internal/app/app.go\<close>. It loads the configuration, serves, reloads it at
  every SIGHUP and shows the status menu. The lemmas: reloads neither lose nor close twice a pooled dialer,
  and what the status menu shows.
\<close>

section \<open>Serving and reloading\<close>

text \<open>\<open>cfgs\<close> are what \<open>ParseConfigFile\<close> returned at each SIGHUP; the result is the notifications and the application.\<close>

fun reloads ::
  "(config \<Rightarrow> pacman \<Rightarrow> (goerr option \<times> pacman) option) \<Rightarrow> (goerr \<Rightarrow> string) \<Rightarrow> config res list \<Rightarrow> pacman \<Rightarrow>
   ((string \<times> string \<times> string) list \<times> pacman) option" where
  "reloads load err_text [] s = Some ([], s)"
| "reloads load err_text (c # cs) s =
     Option.bind (reload_config load err_text c s) (\<lambda>(n, s).
       map_option (\<lambda>(ns, s). (n # ns, s)) (reloads load err_text cs s))"

text \<open>\<open>serve\<close> is the error of the server's \<open>Serve\<close> on the listener. The application is there once it was set up.\<close>

definition run ::
  "(config \<Rightarrow> pacman \<Rightarrow> (goerr option \<times> pacman) option) \<Rightarrow> (goerr \<Rightarrow> string) \<Rightarrow> (string \<Rightarrow> 'l res) \<Rightarrow> ('l \<Rightarrow> goerr option) \<Rightarrow>
   config res list \<Rightarrow> config res \<Rightarrow> 'l option \<Rightarrow>
   (goerr option \<times> (string \<times> string \<times> string) list \<times> pacman option) option" where
  "run load err_text listen serve hups cfg l =
     Option.bind (run_setup load listen cfg l) (\<lambda>r. case r of
         Inl e \<Rightarrow> Some (Some e, [], None)
       | Inr (l, s) \<Rightarrow> map_option (\<lambda>(ns, s). (serve l, ns, Some s)) (reloads load err_text hups s))"

text \<open>\<open>Run\<close> reports an error in a notification of subtitle and body and terminates the application.\<close>

datatype app_event = SetCategories | NotifyEnd string string | Terminate

definition run_app :: "(goerr \<Rightarrow> string) \<Rightarrow> goerr option \<Rightarrow> goerr option \<times> app_event list" where
  "run_app err_text err = (err, SetCategories # (case err of
      None \<Rightarrow> [Terminate]
    | Some e \<Rightarrow> [NotifyEnd ''Application Terminated'' (err_text e), Terminate, Terminate]))"

section \<open>The status menu\<close>

text \<open>The menu's items. Those of a \<open>DynamicItem\<close> are new objects at each opening, which numbers them.\<close>

datatype menu_id =
    AddressItem nat | NoProxiesItem nat | PoolItem nat | PoolChildItem nat | SettingsItem | EditItem | ReloadItem
  | HelpItem | UpdateItem nat | QuitItem

datatype app_action = OpenConfig | ReloadConfig | ShowHelp | CheckUpdates | QuitApp | PoolAction nat pool_action

definition text_info :: "'f \<Rightarrow> string \<Rightarrow> string \<Rightarrow> bool \<Rightarrow> 'f item_info" where
  "text_info w text badge clickable = \<lparr>mi_image = [], mi_text = text, mi_font_size = 0, mi_font_weight = w, mi_state = False,
     mi_subtitle = [], mi_badge = badge, mi_clickable = clickable\<rparr>"

definition pool_item :: "'f \<Rightarrow> (menu_id \<Rightarrow> nat) \<Rightarrow> nat \<Rightarrow> pooled \<Rightarrow> 'f itemer" where
  "pool_item w ids i pd = Item (ids (PoolItem i)) (text_info w (pd_text pd) (pd_badge pd) False)
     (if pd_submenu pd
      then Some (Item (ids (PoolChildItem i)) (text_info w (fst (pd_child pd)) [] (snd (pd_child pd) \<noteq> None)) None)
      else None)"

definition status_menu :: "'f \<Rightarrow> (menu_id \<Rightarrow> nat) \<Rightarrow> nat \<Rightarrow> string \<Rightarrow> pacman \<Rightarrow> bool \<Rightarrow> 'f itemer" where
  "status_menu w ids n addr s updates = Sections
     [Section ''Server Address'' (Dynamic (Some (Item (ids (AddressItem n)) (text_info w addr [] False) None))),
      Dynamic (Some
        (if pm_pool s = [] then Item (ids (NoProxiesItem n)) (text_info w ''No Proxies Configured'' [] False) None
         else Section ''Proxies'' (MenuItems (map (\<lambda>i. pool_item w ids i (pm_pds s ! i)) (pool_menu_items (pm_pool s)))))),
      Item (ids SettingsItem) (text_info w ''Settings'' [] False) (Some (MenuItems
        [Item (ids EditItem) (text_info w ''Edit'' [] True) None,
         Item (ids ReloadItem) (text_info w ''Reload'' [] True) None,
         Separator,
         Item (ids HelpItem) (text_info w ''Help'' [] True) None,
         Dynamic (if updates then Some (MenuItems
            [Separator, Item (ids (UpdateItem n)) (text_info w ''Check for Updates...'' [] True) None]) else None)])),
      Item (ids QuitItem) (text_info w ''Quit'' [] True) None]"

text \<open>The handlers of the items.\<close>

fun app_click :: "pacman \<Rightarrow> menu_id \<Rightarrow> app_action option" where
  "app_click s EditItem = Some OpenConfig"
| "app_click s ReloadItem = Some ReloadConfig"
| "app_click s HelpItem = Some ShowHelp"
| "app_click s (UpdateItem n) = Some CheckUpdates"
| "app_click s QuitItem = Some QuitApp"
| "app_click s (PoolChildItem i) = map_option (PoolAction i) (snd (pd_child (pm_pds s ! i)))"
| "app_click s _ = None"

text \<open>
  The update action: its key and its data, a nil pointer. The menu shown depends on whether the framework has the action;
  a click on the entry invokes it. \<open>sys\<close> is \<open>has_app_action\<close>, \<open>invoke\<close> is \<open>invoke_app_action\<close> of the framework.
\<close>

definition sparkle_action :: string where
  "sparkle_action = ''sparkle_check_updates''"

definition sparkle_data :: "nat option" where
  "sparkle_data = None"

definition shown_menu :: "'f \<Rightarrow> (menu_id \<Rightarrow> nat) \<Rightarrow> nat \<Rightarrow> string \<Rightarrow> pacman \<Rightarrow> (string \<Rightarrow> int) \<Rightarrow> 'f itemer" where
  "shown_menu w ids n addr s sys = status_menu w ids n addr s (has_action sys sparkle_action)"

definition check_updates :: "(string \<Rightarrow> nat option \<Rightarrow> 'w \<Rightarrow> 'w) \<Rightarrow> 'w \<Rightarrow> 'w" where
  "check_updates invoke w = invoke_action invoke sparkle_action sparkle_data w"

section \<open>What a menu shows\<close>

datatype shown = Entry string string "shown list" | Line | Heading string

fun shown_of :: "'f c_item \<Rightarrow> shown" where
  "shown_of (CRegular u info cs) = Entry (mi_text info) (mi_badge info) (map shown_of cs)"
| "shown_of CSeparator = Line"
| "shown_of (CHeader t) = Heading t"

fun view :: "'f itemer \<Rightarrow> shown list" where
  "view (Item i info sub) = [Entry (mi_text info) (mi_badge info) (case sub of None \<Rightarrow> [] | Some m \<Rightarrow> view m)]"
| "view Separator = [Line]"
| "view (SectionHeader t) = [Heading t]"
| "view (Section t c) = Heading t # view c"
| "view (Sections ss) = (case map view ss of [] \<Rightarrow> [] | v # vs \<Rightarrow> v @ concat (map ((#) Line) vs))"
| "view (MenuItems ms) = concat (map view ms)"
| "view (Dynamic m) = (case m of None \<Rightarrow> [] | Some m \<Rightarrow> view m)"

lemma item_build_view:
  "item_build live draws m q = Some r \<Longrightarrow> map shown_of (fst r) = view m"
  "to_menu_items live draws ms q = Some r \<Longrightarrow> map shown_of (fst r) = concat (map view ms)"
  "build_sections live draws ss q = Some r \<Longrightarrow> map shown_of (fst r) = view (Sections ss)"
proof (induction live draws m q and live draws ms q and live draws ss q arbitrary: r and r and r
    rule: item_build_to_menu_items_build_sections.induct)
  case (2 live draws i info sub q)
  then show ?case by (fastforce simp: bind_eq_Some_conv)
next
  case (11 live draws m ms q)
  then show ?case by (fastforce simp: bind_eq_Some_conv)
next
  case (14 live draws m m' ms q)
  then show ?case by (fastforce simp: bind_eq_Some_conv)
qed (auto split: option.splits)

section \<open>Every dialer is in the pool or closed\<close>

text \<open>\<open>ds\<close> are the dialers that are about to be closed.\<close>

definition pool_balanced :: "pacman \<Rightarrow> nat list \<Rightarrow> bool" where
  "pool_balanced s ds \<longleftrightarrow> pool_ok s \<and> distinct (pm_closed s @ ds) \<and>
     (\<forall>i. i < length (pm_pds s) \<longleftrightarrow> i \<in> set (pm_closed s @ ds) \<or> (\<exists>k. map_of (pm_pool s) k = Some i)) \<and>
     (\<forall>k i. map_of (pm_pool s) k = Some i \<longrightarrow> i \<notin> set (pm_closed s @ ds))"

lemma pool_balancedD:
  assumes "pool_balanced s ds"
  shows "pool_ok s" and "distinct (pm_closed s @ ds)"
    and "i < length (pm_pds s) \<longleftrightarrow> i \<in> set (pm_closed s @ ds) \<or> (\<exists>k. map_of (pm_pool s) k = Some i)"
    and "map_of (pm_pool s) k = Some i \<Longrightarrow> i \<notin> set (pm_closed s @ ds)"
    and "map_of (pm_pool s) k = Some i \<Longrightarrow> map_of (pm_pool s) k' = Some i \<Longrightarrow> k = k'"
  using assms by (simp_all add: pool_balanced_def) (metis pool_okD)

lemma balanced_add:
  assumes "pool_balanced s ds"
  shows "pool_balanced (s\<lparr>pm_pds := pm_pds s @ [new_pooled_dialer k u], pm_pool := AList.update k (length (pm_pds s)) (pm_pool s),
      pm_tracked := tr\<rparr>) (ds @ (case map_of (pm_pool s) k of None \<Rightarrow> [] | Some i \<Rightarrow> [i]))" (is "pool_balanced ?s ?ds")
proof -
  note b = pool_balancedD [OF assms]
  have pool: "map_of (pm_pool ?s) = (map_of (pm_pool s))(k \<mapsto> length (pm_pds s))" by (simp add: go_simps)
  have "pool_ok ?s"
    unfolding pool_ok_def pool using pool_okD [OF b(1)] by (auto simp: nth_append less_SucI split: if_splits)
  moreover have "distinct (pm_closed ?s @ ?ds)" using b(2,4) by (auto split: option.split)
  moreover have out: "length (pm_pds s) \<notin> set (pm_closed s @ ds)" using b(3) [of "length (pm_pds s)"] by auto
  moreover have "i < length (pm_pds ?s) \<longleftrightarrow> i \<in> set (pm_closed ?s @ ?ds) \<or> (\<exists>k'. map_of (pm_pool ?s) k' = Some i)" for i
  proof -
    define P where "P \<longleftrightarrow> (\<exists>k'. k' \<noteq> k \<and> map_of (pm_pool s) k' = Some i)"
    have new: "(\<exists>k'. map_of (pm_pool ?s) k' = Some i) \<longleftrightarrow> i = length (pm_pds s) \<or> P"
      unfolding pool P_def by (auto intro: exI [of _ k])
    have old: "(\<exists>k'. map_of (pm_pool s) k' = Some i) \<longleftrightarrow> map_of (pm_pool s) k = Some i \<or> P"
      unfolding P_def by metis
    have "i < length (pm_pds ?s) \<longleftrightarrow> i = length (pm_pds s) \<or> i < length (pm_pds s)" by auto
    then show ?thesis using b(3) [of i] unfolding new old by (cases "map_of (pm_pool s) k") auto
  qed
  moreover have "i \<notin> set (pm_closed ?s @ ?ds)" if "map_of (pm_pool ?s) k' = Some i" for k' i
  proof (cases "k' = k")
    case True
    then have "i = length (pm_pds s)" using that pool by simp
    moreover have "map_of (pm_pool s) k \<noteq> Some (length (pm_pds s))" using b(3) [of "length (pm_pds s)"] by auto
    ultimately show ?thesis using out by (auto split: option.split)
  next
    case False
    then have i: "map_of (pm_pool s) k' = Some i" using that pool by simp
    then have "map_of (pm_pool s) k \<noteq> Some i" using b(5) False by blast
    then show ?thesis using b(4) [OF i] by (auto split: option.split)
  qed
  ultimately show ?thesis unfolding pool_balanced_def by blast
qed

lemma load_proxies_balanced:
  "load_proxies ul grow us ps (s, rs, ds) = Some (s', rs', ds') \<Longrightarrow> pool_balanced s ds \<Longrightarrow> pool_balanced s' ds'"
proof (induction ps arbitrary: s rs ds)
  case (Cons ku ps)
  obtain k ou where ku: "ku = (k, ou)" by fastforce
  from Cons.prems(1) obtain u where u: "ou = Some u" by (cases ou) (simp_all add: ku)
  have add: "pool_balanced (s\<lparr>pm_pds := pm_pds s @ [new_pooled_dialer k u], pm_pool := AList.update k (length (pm_pds s)) (pm_pool s),
      pm_tracked := pm_tracked s @ [length (pm_pds s)]\<rparr>) (ds @ (case map_of (pm_pool s) k of None \<Rightarrow> [] | Some i \<Rightarrow> [i]))"
    by (rule balanced_add [OF Cons.prems(2)])
  show ?case
    using Cons.prems(1) add Cons.IH Cons.prems(2)
    by (cases "map_of (pm_pool s) k") (auto simp: ku u Let_def split: if_splits)
qed simp

lemma drop_removed_balanced:
  "drop_removed proxies q (s, ds) = (s', ds') \<Longrightarrow> pool_balanced s ds \<Longrightarrow> distinct (map fst q) \<Longrightarrow>
   \<forall>(k, i) \<in> set q. map_of (pm_pool s) k = Some i \<Longrightarrow> pool_balanced s' ds'"
proof (induction q arbitrary: s ds)
  case (Cons ki q)
  obtain k i where ki: "ki = (k, i)" by fastforce
  show ?case
  proof (cases "map_of proxies k = None")
    case True
    let ?s = "s\<lparr>pm_pool := AList.delete k (pm_pool s)\<rparr>"
    note b = pool_balancedD [OF Cons.prems(2)]
    have pool: "map_of (pm_pool ?s) = (map_of (pm_pool s))(k := None)" by (simp add: go_simps)
    have i: "map_of (pm_pool s) k = Some i" using Cons.prems(4) ki by simp
    have "pool_ok ?s" unfolding pool_ok_def pool using pool_okD [OF b(1)] by (auto split: if_splits)
    moreover have "distinct (pm_closed ?s @ (ds @ [i]))" using b(2) b(4) [OF i] by auto
    moreover have "j < length (pm_pds ?s) \<longleftrightarrow> j \<in> set (pm_closed ?s @ (ds @ [i])) \<or> (\<exists>k'. map_of (pm_pool ?s) k' = Some j)" for j
    proof -
      have "(\<exists>k'. map_of (pm_pool s) k' = Some j) \<longleftrightarrow> j = i \<or> (\<exists>k'. map_of (pm_pool ?s) k' = Some j)"
        unfolding pool using i by (cases "j = i") (auto, metis option.inject)
      then show ?thesis using b(3) [of j] by auto
    qed
    moreover have "j \<notin> set (pm_closed ?s @ (ds @ [i]))" if "map_of (pm_pool ?s) k' = Some j" for k' j
      using that b(4) [of k' j] b(5) [OF i] unfolding pool by (auto split: if_splits)
    ultimately have "pool_balanced ?s (ds @ [i])" unfolding pool_balanced_def by blast
    moreover have "\<forall>(k', j) \<in> set q. map_of (pm_pool ?s) k' = Some j"
      using Cons.prems(3,4) ki unfolding pool by (auto simp: rev_image_eqI)
    ultimately show ?thesis using Cons.IH [of ?s "ds @ [i]"] Cons.prems(1,3) True ki by simp
  qed (use Cons ki in auto)
qed simp

lemma balanced_rules: "pool_balanced (s\<lparr>pm_rs := r\<rparr>) ds = pool_balanced s ds"
proof -
  have eq: "pm_pool (s\<lparr>pm_rs := r\<rparr>) = pm_pool s" "pm_pds (s\<lparr>pm_rs := r\<rparr>) = pm_pds s" "pm_closed (s\<lparr>pm_rs := r\<rparr>) = pm_closed s"
    by simp_all
  show ?thesis unfolding pool_balanced_def pool_ok_def eq ..
qed

lemma run_deferred_balanced: "pool_balanced s ds \<Longrightarrow> pool_balanced (run_deferred ds s) []"
  using run_deferred_parts [of ds s] unfolding pool_balanced_def pool_ok_def by auto

lemma load_config_balanced:
  assumes "load_config ul grow us ordp ordq cfg s = Some (err, s')" and "pool_balanced s []" and "ordered ordq"
  shows "pool_balanced s' []"
proof -
  from assms(1) obtain s1 rs1 ds1 r where l: "load_proxies ul grow us (ordp (cf_proxies cfg)) (s, empty_trie, []) = Some (s1, rs1, ds1)"
    "load_rules ul grow (pm_pool s1) (cf_rules cfg) rs1 = Some r"
    by (auto simp: load_config_def bind_eq_Some_conv Let_def)
  note b = load_proxies_balanced [OF l(1) assms(2)]
  show ?thesis
  proof (cases r)
    case (Inl e)
    then show ?thesis using assms(1) l run_deferred_balanced [OF b] by (auto simp: load_config_def)
  next
    case (Inr rs)
    obtain s2 ds2 where d: "drop_removed (cf_proxies cfg) (ordq (pm_pool s1)) (s1\<lparr>pm_rs := Some rs\<rparr>, ds1) = (s2, ds2)" by fastforce
    have "range_of (pm_pool s1) (ordq (pm_pool s1))" using assms(3) by (simp add: ordered_def)
    then have q: "distinct (map fst (ordq (pm_pool s1)))" "\<forall>(k, i) \<in> set (ordq (pm_pool s1)). map_of (pm_pool s1) k = Some i"
      using range_of_set [of "pm_pool s1" "ordq (pm_pool s1)"] by (auto simp: range_of_def)
    have "pool_balanced (s1\<lparr>pm_rs := Some rs\<rparr>) ds1" using b by (simp only: balanced_rules)
    from drop_removed_balanced [OF d this] q have "pool_balanced s2 ds2" by simp
    then show ?thesis using assms(1) l Inr d run_deferred_balanced by (auto simp: load_config_def Let_def)
  qed
qed

lemma reloads_balanced:
  assumes "ordered ordq"
  shows "reloads (load_config ul grow us ordp ordq) err_text cs s = Some (ns, s') \<Longrightarrow> pool_balanced s [] \<Longrightarrow> pool_balanced s' []"
proof (induction cs arbitrary: s ns)
  case (Cons c cs)
  from Cons.prems(1) obtain n s1 ns1 where r: "reload_config (load_config ul grow us ordp ordq) err_text c s = Some (n, s1)"
    "reloads (load_config ul grow us ordp ordq) err_text cs s1 = Some (ns1, s')"
    by (auto simp: bind_eq_Some_conv)
  have "pool_balanced s1 []"
  proof (cases c)
    case (Inl e)
    then show ?thesis using r(1) Cons.prems(2) by (auto simp: reload_config_def)
  next
    case (Inr cfg)
    then obtain err where "load_config ul grow us ordp ordq cfg s = Some (err, s1)"
      using r(1) by (auto simp: reload_config_def split: option.splits)
    then show ?thesis using load_config_balanced Cons.prems(2) assms by blast
  qed
  then show ?case using Cons.IH r(2) by blast
qed simp

lemma count_list_once: "distinct xs \<Longrightarrow> count_list xs i = (if i \<in> set xs then 1 else 0)"
  by (induction xs) auto

section \<open>Nil pointers\<close>

lemma load_proxies_None: "load_proxies ul grow us ps (s, rs, ds) = None \<longleftrightarrow> None \<in> set (map snd ps)"
proof (induction ps arbitrary: s rs ds)
  case (Cons ku ps)
  obtain k ou where "ku = (k, ou)" by fastforce
  then show ?case using Cons by (cases ou) (auto simp: Let_def split: option.split)
qed simp

lemma load_rules_returns: "\<forall>r \<in> set rls. r \<noteq> None \<Longrightarrow> load_rules ul grow pool rls rs \<noteq> None"
  by (induction rls arbitrary: rs) (auto split: option.split sum.split)

section \<open>Properties\<close>

text \<open>C13: from the start through any sequence of reloads, failed ones included, every pooled dialer that was ever made is
  either in the pool, and then not closed, or closed exactly once.\<close>

theorem reloads_balance_pool:
  assumes "ordered ordq" and "run (load_config ul grow us ordp ordq) err_text listen serve hups cfg l = Some (err, ns, Some s)"
    and "i < length (pm_pds s)"
  shows "count_list (pm_closed s) i = (if \<exists>k. map_of (pm_pool s) k = Some i then 0 else 1)"
proof -
  obtain y where y: "run_setup (load_config ul grow us ordp ordq) listen cfg l = Some y"
    using assms(2) by (auto simp: run_def bind_eq_Some_conv)
  with assms(2) obtain l' s0 where "y = Inr (l', s0)" by (cases y) (auto simp: run_def)
  with assms(2) y have su: "run_setup (load_config ul grow us ordp ordq) listen cfg l = Some (Inr (l', s0))"
    and rel: "reloads (load_config ul grow us ordp ordq) err_text hups s0 = Some (ns, s)"
    by (auto simp: run_def)
  have start: "pool_balanced start_pacman []" by (simp add: pool_balanced_def pool_ok_def start_pacman_def)
  from su obtain c where "load_config ul grow us ordp ordq c start_pacman = Some (None, s0)"
    by (auto simp: run_setup_def start_pacman_def split: sum.splits option.splits if_splits)
  from load_config_balanced [OF this start assms(1)] have "pool_balanced s []"
    using reloads_balanced [OF assms(1) rel] by blast
  note b = pool_balancedD [OF this]
  have "count_list (pm_closed s) i = (if i \<in> set (pm_closed s) then 1 else 0)"
    using b(2) by (intro count_list_once) simp
  moreover have "i \<in> set (pm_closed s) \<longleftrightarrow> \<not> (\<exists>k. map_of (pm_pool s) k = Some i)" using b(3) [of i] b(4) assms(3) by auto
  ultimately show ?thesis by simp
qed

lemma reloads_balance_pool_witness:
  "\<exists>err ns s. run (load_config (\<lambda>x. x) (+) u_host AList.clearjunk AList.clearjunk) (\<lambda>e. []) (\<lambda>a. Inr a) (\<lambda>l. Some ErrEOF)
      [Inl ErrEOF] (Inr sample_config) (Some ''l'') = Some (err, ns, Some s) \<and>
    (0 < length (pm_pds s) \<longrightarrow> count_list (pm_closed s) 0 = (if \<exists>k. map_of (pm_pool s) k = Some 0 then 0 else 1))"
proof -
  obtain s where "load_config (\<lambda>x. x) (+) u_host AList.clearjunk AList.clearjunk sample_config start_pacman = Some (None, s)"
    using sample_load by blast
  then have "run (load_config (\<lambda>x. x) (+) u_host AList.clearjunk AList.clearjunk) (\<lambda>e. []) (\<lambda>a. Inr a) (\<lambda>l. Some ErrEOF)
      [Inl ErrEOF] (Inr sample_config) (Some ''l'') = Some (Some ErrEOF, [(''Config Reload Error'', [], [])], Some s)"
    by (simp add: run_def run_setup_def start_pacman_def reload_config_def)
  with reloads_balance_pool [OF ordered_clearjunk this] show ?thesis by blast
qed

definition sample_ids :: "menu_id \<Rightarrow> nat" where
  "sample_ids m = (case m of AddressItem n \<Rightarrow> 1 | NoProxiesItem n \<Rightarrow> 2 | SettingsItem \<Rightarrow> 3 | EditItem \<Rightarrow> 4 | ReloadItem \<Rightarrow> 5
     | HelpItem \<Rightarrow> 6 | UpdateItem n \<Rightarrow> 7 | QuitItem \<Rightarrow> 8 | PoolItem i \<Rightarrow> 9 + 2 * i | PoolChildItem i \<Rightarrow> 10 + 2 * i)"

text \<open>the status menu shows the server's address, the proxies by label with their state and action or a line that there
  are none, the settings with an update entry where the framework has one, and Quit.\<close>

theorem status_menu_shows:
  assumes "item_build live draws (status_menu w ids n addr s updates) q = Some (cs, q')"
  shows "map shown_of cs = [Heading ''Server Address'', Entry addr [] [], Line] @
    (if pm_pool s = [] then [Entry ''No Proxies Configured'' [] []]
     else Heading ''Proxies'' # map (\<lambda>i. Entry (pd_text (pm_pds s ! i)) (pd_badge (pm_pds s ! i))
       (if pd_submenu (pm_pds s ! i) then [Entry (fst (pd_child (pm_pds s ! i))) [] []] else [])) (pool_menu_items (pm_pool s))) @
    [Line, Entry ''Settings'' [] ([Entry ''Edit'' [] [], Entry ''Reload'' [] [], Line, Entry ''Help'' [] []] @
       (if updates then [Line, Entry ''Check for Updates...'' [] []] else [])), Line, Entry ''Quit'' [] []]"
proof -
  have pool: "view (pool_item w ids i pd) =
      [Entry (pd_text pd) (pd_badge pd) (if pd_submenu pd then [Entry (fst (pd_child pd)) [] []] else [])]" for i pd
    by (simp add: pool_item_def text_info_def)
  have one: "concat (map (\<lambda>x. [f x]) xs) = map f xs" for f :: "nat \<Rightarrow> shown" and xs by (induction xs) auto
  show ?thesis
    using item_build_view(1) [OF assms]
    by (simp add: status_menu_def text_info_def pool one comp_def split: if_splits)
qed

lemma status_menu_shows_witness:
  "\<exists>cs q'. item_build (\<lambda>_. True) (\<lambda>i. [[char_of i]]) (status_menu () sample_ids 0 ''a'' start_pacman False) empty_uniq = Some (cs, q') \<and>
    map shown_of cs = [Heading ''Server Address'', Entry ''a'' [] [], Line, Entry ''No Proxies Configured'' [] [], Line,
      Entry ''Settings'' [] [Entry ''Edit'' [] [], Entry ''Reload'' [] [], Line, Entry ''Help'' [] []], Line, Entry ''Quit'' [] []]"
proof -
  have "item_build (\<lambda>_. True) (\<lambda>i. [[char_of i]]) (status_menu () sample_ids 0 ''a'' start_pacman False) empty_uniq \<noteq> None" by code_simp
  then obtain cs q' where b: "item_build (\<lambda>_. True) (\<lambda>i. [[char_of i]]) (status_menu () sample_ids 0 ''a'' start_pacman False) empty_uniq = Some (cs, q')"
    by auto
  from status_menu_shows [OF b] b show ?thesis by (simp add: start_pacman_def)
qed

text \<open>LoadConfig panics on a proxy without a URL and returns when there is no nil proxy and no nil rule.\<close>

theorem load_config_nil_panics:
  assumes "ordered ordp"
  shows "(map_of (cf_proxies cfg) k = Some None \<longrightarrow> load_config ul grow us ordp ordq cfg s = None) \<and>
    (None \<notin> ran (map_of (cf_proxies cfg)) \<and> None \<notin> set (cf_rules cfg) \<longrightarrow> load_config ul grow us ordp ordq cfg s \<noteq> None)"
proof -
  have "set (ordp (cf_proxies cfg)) = {(k, v). map_of (cf_proxies cfg) k = Some v}"
    using assms range_of_set [of "cf_proxies cfg" "ordp (cf_proxies cfg)"] by (simp add: ordered_def)
  then have "None \<in> set (map snd (ordp (cf_proxies cfg))) \<longleftrightarrow> None \<in> ran (map_of (cf_proxies cfg))"
    by (force simp: ran_def)
  then have "load_proxies ul grow us (ordp (cf_proxies cfg)) (s, empty_trie, []) = None \<longleftrightarrow> None \<in> ran (map_of (cf_proxies cfg))"
    by (simp only: load_proxies_None)
  note lp = this
  show ?thesis
  proof (intro conjI impI)
    assume "map_of (cf_proxies cfg) k = Some None"
    then show "load_config ul grow us ordp ordq cfg s = None" using lp by (auto simp: load_config_def ran_def)
  next
    assume n: "None \<notin> ran (map_of (cf_proxies cfg)) \<and> None \<notin> set (cf_rules cfg)"
    then obtain s1 rs1 ds1 where p: "load_proxies ul grow us (ordp (cf_proxies cfg)) (s, empty_trie, []) = Some (s1, rs1, ds1)"
      using lp by (metis option.exhaust prod_cases3)
    have "load_rules ul grow (pm_pool s1) (cf_rules cfg) rs1 \<noteq> None" using n load_rules_returns by metis
    then show "load_config ul grow us ordp ordq cfg s \<noteq> None" by (auto simp: load_config_def p)
  qed
qed

lemma load_config_nil_panics_witness:
  "load_config (\<lambda>x. x) (+) u_host AList.clearjunk AList.clearjunk (sample_config\<lparr>cf_proxies := [(''x'', None)]\<rparr>) start_pacman = None"
  using load_config_nil_panics [OF ordered_clearjunk, of "sample_config\<lparr>cf_proxies := [(''x'', None)]\<rparr>" "''x''"
    "\<lambda>x. x" "(+)" u_host AList.clearjunk start_pacman] by simp

end
