(* ===== verification/Tools.thy ===== *)
theory Tools
  imports HttpProxy
begin

text \<open>
  The two small programs beside PACman, \<open>launch-socket-server\<close> and \<open>single-serve\<close>, and the helpers \<open>pkg/xdg\<close> and
  \<open>pkg/contextutil\<close>. The lemmas: a proxied connection ends with its first finished direction, and one standard
  input serves one connection.
\<close>

section \<open>launch-socket-server: start-up\<close>

definition getenv :: "(string \<Rightarrow> string) \<Rightarrow> string \<Rightarrow> string \<Rightarrow> string" where
  "getenv env key fallback = (let val = env key in if val \<noteq> [] then val else fallback)"

text \<open>\<open>listen\<close> gives the port of a TCP listener, \<open>None\<close> when its address is of another kind.\<close>

definition get_free_port :: "('ip \<Rightarrow> nat option res) \<Rightarrow> 'ip \<Rightarrow> nat res" where
  "get_free_port listen ip = bind_res (listen ip)
     (\<lambda>p. case p of None \<Rightarrow> Inl (ErrText ''listen address doesn't match requested address'') | Some port \<Rightarrow> Inr port)"

text \<open>
  Its own \<open>ActivateSocket\<close>: \<open>sys\<close> is the call of the C library, \<open>file_listener\<close> is \<open>net.FileListener\<close>. The error prints
  the method \<open>file.Fd\<close> instead of calling it; \<open>fd_text\<close> is what \<open>fmt\<close> makes of that.
\<close>

definition launch_activate_socket :: "(string \<Rightarrow> int \<times> nat list) \<Rightarrow> (nat \<Rightarrow> 'l res) \<Rightarrow> string \<Rightarrow> string \<Rightarrow> 'l list res" where
  "launch_activate_socket sys file_listener fd_text name =
     (let (result, fds) = sys name in
      if result \<noteq> 0 then Inl (ErrText (''couldn't activate launchd socket: '' @ name))
      else foldr (\<lambda>fd rest. case file_listener fd of
          Inl e \<Rightarrow> Inl (ErrText (''couldn't activate launchd socket: '' @ name @ '', fd: '' @ fd_text))
        | Inr l \<Rightarrow> bind_res rest (\<lambda>ls. Inr (l # ls))) fds (Inr []))"

datatype launch_event = SetEnv string string | StartCommand string "string list"

text \<open>
  \<open>main\<close> up to the loop that waits for the command. \<open>Inl\<close> is \<open>log.Fatalf\<close>. \<open>parse\<close> is \<open>netip.ParseAddrPort\<close>,
  \<open>show\<close> the text of the address, \<open>start\<close> starts the command.
\<close>

definition launch_main ::
  "(string \<Rightarrow> string) \<Rightarrow> (string \<Rightarrow> ('ip \<times> nat) res) \<Rightarrow> ('ip \<times> nat \<Rightarrow> string) \<Rightarrow> (string \<Rightarrow> 'l list res) \<Rightarrow> ('ip \<Rightarrow> nat res) \<Rightarrow>
   (string \<Rightarrow> string list \<Rightarrow> goerr option) \<Rightarrow> string list \<Rightarrow> (('ip \<times> nat) \<times> 'l list) res \<times> launch_event list" where
  "launch_main env parse show activate free_port start args =
     (if length args < 2 then (Inl (ErrText (''usage: '' @ concat (take 1 args) @ '' <program> [<arg> ...]'')), [])
      else (case parse (getenv env ''LAUNCH_CMD_ADDRESS'' ''127.0.0.1:0'') of
        Inl e \<Rightarrow> (Inl (ErrWrap ''invalid LAUNCH_CMD_ADDRESS: '' e), [])
      | Inr (ip, port) \<Rightarrow> (case activate (getenv env ''LAUNCH_DAEMON_SOCKET_NAME'' ''Socket'') of
          Inl e \<Rightarrow> (Inl (ErrWrap ''error activating launch socket: '' e), [])
        | Inr [] \<Rightarrow> (Inl (ErrText ''error activating launch socket: %!s(<nil>)''), [])
        | Inr ls \<Rightarrow> (case (if port = 0 then map_sum id Some (free_port ip) else Inr None) of
            Inl e \<Rightarrow> (Inl (ErrWrap ''error getting free port: '' e), [])
          | Inr new \<Rightarrow>
              (let dst = (ip, case new of None \<Rightarrow> port | Some p \<Rightarrow> p);
                   evs = (case new of None \<Rightarrow> [] | Some p \<Rightarrow> [SetEnv ''LAUNCH_CMD_ADDRESS'' (show dst)]) @ [StartCommand (args ! 1) (drop 2 args)]
               in case start (args ! 1) (drop 2 args) of
                 Some e \<Rightarrow> (Inl (ErrWrap ''error starting command: '' e), evs)
               | None \<Rightarrow> (Inr (dst, ls), evs))))))"

text \<open>
  \<open>Reachable\<close> on what a dial returned: its result and the connection it closes. The loop of \<open>main\<close> over the dials'
  results gives the number of two-second sleeps, \<open>None\<close> while no dial has succeeded.
\<close>

definition reachable :: "'c option \<times> goerr option \<Rightarrow> bool \<times> 'c option" where
  "reachable d = (snd d = None, fst d)"

fun wait_reachable :: "('c option \<times> goerr option) list \<Rightarrow> nat option" where
  "wait_reachable [] = None"
| "wait_reachable (d # ds) = (if fst (reachable d) then Some 0 else map_option Suc (wait_reachable ds))"

section \<open>launch-socket-server: a proxied connection\<close>

text \<open>
  A direction of the copy: the chunks its reader still yields, the error at their end (\<open>None\<close> is end of file) and
  the chunks written so far.
\<close>

record flow =
  fl_left :: "string list"
  fl_end :: "goerr option"
  fl_written :: "string list"

datatype direction = ToServer | ToClient

fun flow_of :: "direction \<Rightarrow> flow \<times> flow \<Rightarrow> flow" where
  "flow_of ToServer (a, b) = a"
| "flow_of ToClient (a, b) = b"

fun set_flow :: "direction \<Rightarrow> flow \<Rightarrow> flow \<times> flow \<Rightarrow> flow \<times> flow" where
  "set_flow ToServer f (a, b) = (f, b)"
| "set_flow ToClient f (a, b) = (a, f)"

text \<open>
  The two goroutines step in the order of a schedule; the first that finishes sends its result on \<open>done\<close>, and
  \<open>Handle\<close> returns. \<open>None\<close> is a \<open>Handle\<close> that is still waiting.
\<close>

fun run_pipes :: "direction list \<Rightarrow> flow \<times> flow \<Rightarrow> goerr option option \<times> (flow \<times> flow)" where
  "run_pipes [] fs = (None, fs)"
| "run_pipes (d # ds) fs = (let f = flow_of d fs in case fl_left f of
     [] \<Rightarrow> (Some (fl_end f), fs)
   | c # cs \<Rightarrow> run_pipes ds (set_flow d (f\<lparr>fl_left := cs, fl_written := fl_written f @ [c]\<rparr>) fs))"

datatype 'c handle_event = CloseIn | CloseOut 'c

definition proxy_handle ::
  "string \<Rightarrow> 'c res \<Rightarrow> direction list \<Rightarrow> flow \<times> flow \<Rightarrow> (goerr option \<times> (flow \<times> flow) \<times> 'c handle_event list) option" where
  "proxy_handle dst dial sched fs =
     (let t = on_return CloseIn ([], []) in
      case dial of
        Inl e \<Rightarrow> Some (Some (ErrWrap (''error connecting to dst '' @ CHR 0x27 # dst @ CHR 0x27 # '' : '') e), fs, returned t)
      | Inr out \<Rightarrow> (let t = on_return (CloseOut out) t in
          case run_pipes sched fs of
            (None, _) \<Rightarrow> None
          | (Some err, fs) \<Rightarrow> Some (err, fs, returned t)))"

text \<open>\<open>Serve\<close>: the connections it starts handlers for, and its error; \<open>None\<close> while it waits in \<open>Accept\<close>.\<close>

fun proxy_serve :: "'c res list \<Rightarrow> 'c list \<times> goerr option" where
  "proxy_serve [] = ([], None)"
| "proxy_serve (Inl e # rs) = ([], Some (ErrWrap ''error accepting connection: '' e))"
| "proxy_serve (Inr c # rs) = (let (cs, e) = proxy_serve rs in (c # cs, e))"

section \<open>single-serve\<close>

text \<open>The listener holds the one connection until it is accepted; \<open>Addr\<close> of a listener without it is a panic.\<close>

definition single_accept :: "'c option \<Rightarrow> 'c res \<times> 'c option" where
  "single_accept l = (case l of None \<Rightarrow> (Inl ErrNetClosed, None) | Some c \<Rightarrow> (Inr c, None))"

definition single_addr :: "('c \<Rightarrow> 'a) \<Rightarrow> 'c option \<Rightarrow> 'a option" where
  "single_addr remote l = map_option remote l"

text \<open>The accept loop of \<open>http.Server.Serve\<close> on it: the connections served and the error it returns.\<close>

function single_serve :: "'c option \<Rightarrow> 'c list \<times> goerr" where
  "single_serve l = (case single_accept l of
     (Inl e, _) \<Rightarrow> ([], e)
   | (Inr c, l) \<Rightarrow> (let (cs, e) = single_serve l in (c # cs, e)))"
  by pat_completeness auto
termination
  by (relation "measure (\<lambda>l. case l of None \<Rightarrow> 0 | Some c \<Rightarrow> 1)") (auto simp: single_accept_def split: option.splits)

declare single_serve.simps [simp del]

text \<open>The listener does not own its connection: closing it changes nothing.\<close>

definition single_close :: "'c option \<Rightarrow> goerr option \<times> 'c option" where
  "single_close l = (None, l)"

text \<open>
  The connection over the standard streams, whose reader and writer are those of \<open>os.Stdin\<close> and \<open>os.Stdout\<close>: it cannot be
  closed, knows no addresses and keeps no deadline.
\<close>

record 'w rw_conn =
  rw_reader :: "nat \<Rightarrow> 'w \<Rightarrow> (string \<times> goerr option) \<times> 'w"
  rw_writer :: "string \<Rightarrow> 'w \<Rightarrow> (nat \<times> goerr option) \<times> 'w"

definition stdio_conn ::
  "(nat \<Rightarrow> 'w \<Rightarrow> (string \<times> goerr option) \<times> 'w) \<Rightarrow> (string \<Rightarrow> 'w \<Rightarrow> (nat \<times> goerr option) \<times> 'w) \<Rightarrow> 'w rw_conn" where
  "stdio_conn stdin stdout = \<lparr>rw_reader = stdin, rw_writer = stdout\<rparr>"

definition rw_read :: "'w rw_conn \<Rightarrow> nat \<Rightarrow> 'w \<Rightarrow> (string \<times> goerr option) \<times> 'w" where
  "rw_read c n w = rw_reader c n w"

definition rw_write :: "'w rw_conn \<Rightarrow> string \<Rightarrow> 'w \<Rightarrow> (nat \<times> goerr option) \<times> 'w" where
  "rw_write c b w = rw_writer c b w"

definition rw_close :: "'w rw_conn \<Rightarrow> goerr option" where
  "rw_close c = None"

definition rw_local_addr :: "'w rw_conn \<Rightarrow> 'a option" where
  "rw_local_addr c = None"

definition rw_remote_addr :: "'w rw_conn \<Rightarrow> 'a option" where
  "rw_remote_addr c = None"

definition rw_set_deadline :: "'t \<Rightarrow> 'w rw_conn \<Rightarrow> goerr option" where
  "rw_set_deadline t c = None"

definition rw_set_read_deadline :: "'t \<Rightarrow> 'w rw_conn \<Rightarrow> goerr option" where
  "rw_set_read_deadline t c = None"

definition rw_set_write_deadline :: "'t \<Rightarrow> 'w rw_conn \<Rightarrow> goerr option" where
  "rw_set_write_deadline t c = None"

text \<open>\<open>Listener\<close>, and \<open>main\<close>: the usage, or what its server served and returned.\<close>

definition single_listener :: "'c \<Rightarrow> 'c option" where
  "single_listener c = Some c"

definition single_main :: "string list \<Rightarrow> 'c \<Rightarrow> ('c list \<times> goerr) res" where
  "single_main args c = (let n = length args in
     if n < 2 \<or> 3 < n then Inl (ErrText (''usage: '' @ concat (take 1 args) @ '' <file> [mime-type]''))
     else Inr (single_serve (single_listener c)))"

text \<open>
  The handler. \<open>stat\<close> gives the name and the time of the file; \<open>content\<close> is \<open>http.ServeContent\<close>. The second result
  tells whether an opened file was closed.
\<close>

definition single_handler ::
  "string list \<Rightarrow> (string \<Rightarrow> 'f res) \<Rightarrow> ('f \<Rightarrow> (string \<times> 't) res) \<Rightarrow> (goerr \<Rightarrow> string) \<Rightarrow>
   (string \<Rightarrow> 't \<Rightarrow> 'f \<Rightarrow> response_writer \<Rightarrow> response_writer) \<Rightarrow> string \<Rightarrow> response_writer \<Rightarrow> response_writer \<times> bool option" where
  "single_handler args open stat err_text content path w =
     (case open path of
        Inl e \<Rightarrow> (http_error (''Error opening file: '' @ err_text e) 500 w, None)
      | Inr file \<Rightarrow> (case stat file of
          Inl e \<Rightarrow> (http_error ''Error getting file info'' 500 w, Some True)
        | Inr (name, modtime) \<Rightarrow>
            let w = (if length args = 3 then header_set ''Content-Type'' (args ! 2) w else w)
            in (content name modtime file w, Some True)))"

section \<open>Opening files\<close>

text \<open>The command lines of \<open>open\<close> and \<open>openWith\<close> on macOS and Linux.\<close>

definition open_command :: "bool \<Rightarrow> string \<Rightarrow> string list" where
  "open_command darwin input = [if darwin then ''open'' else ''xdg-open'', input]"

definition open_with_command :: "bool \<Rightarrow> string \<Rightarrow> string \<Rightarrow> string list" where
  "open_with_command darwin input app = (if darwin then [''open'', ''-a'', app, input] else [app, input])"

text \<open>
  \<open>exec.Cmd\<close>: \<open>Wait\<close> fails when the command was not started or was waited for already. \<open>Start\<close> of this package starts
  the command after it has started the goroutine that waits: \<open>early\<close> tells whether that one comes first.
\<close>

record cmd =
  cm_started :: bool
  cm_waited :: bool

definition cmd_start :: "goerr option \<Rightarrow> cmd \<Rightarrow> goerr option \<times> cmd" where
  "cmd_start sys c = (if cm_started c then (Some (ErrText ''exec: already started''), c)
     else case sys of Some e \<Rightarrow> (Some e, c) | None \<Rightarrow> (None, c\<lparr>cm_started := True\<rparr>))"

definition cmd_wait :: "cmd \<Rightarrow> goerr option \<times> cmd" where
  "cmd_wait c = (if \<not> cm_started c then (Some (ErrText ''exec: not started''), c)
     else if cm_waited c then (Some (ErrText ''exec: Wait was already called''), c)
     else (None, c\<lparr>cm_waited := True\<rparr>))"

definition xdg_start :: "bool \<Rightarrow> goerr option \<Rightarrow> cmd \<Rightarrow> goerr option \<times> cmd" where
  "xdg_start early sys c =
     (if early then let (_, c) = cmd_wait c in cmd_start sys c
      else let (err, c) = cmd_start sys c; (_, c) = cmd_wait c in (err, c))"

definition new_cmd :: cmd where
  "new_cmd = \<lparr>cm_started = False, cm_waited = False\<rparr>"

text \<open>
  \<open>Run\<close> of \<open>exec.Cmd\<close> and the four functions of the package. \<open>sys\<close> is what the system says to the start of a
  command line, \<open>status\<close> what the command ends with.
\<close>

definition cmd_run :: "goerr option \<Rightarrow> goerr option \<Rightarrow> cmd \<Rightarrow> goerr option \<times> cmd" where
  "cmd_run sys status c = (case cmd_start sys c of
     (Some e, c) \<Rightarrow> (Some e, c)
   | (None, c) \<Rightarrow> (case cmd_wait c of (Some e, c) \<Rightarrow> (Some e, c) | (None, c) \<Rightarrow> (status, c)))"

definition xdg_run ::
  "bool \<Rightarrow> (string list \<Rightarrow> goerr option) \<Rightarrow> (string list \<Rightarrow> goerr option) \<Rightarrow> string \<Rightarrow> goerr option \<times> cmd" where
  "xdg_run darwin sys status input = (let c = open_command darwin input in cmd_run (sys c) (status c) new_cmd)"

definition xdg_run_with ::
  "bool \<Rightarrow> (string list \<Rightarrow> goerr option) \<Rightarrow> (string list \<Rightarrow> goerr option) \<Rightarrow> string \<Rightarrow> string \<Rightarrow> goerr option \<times> cmd" where
  "xdg_run_with darwin sys status input app = (let c = open_with_command darwin input app in cmd_run (sys c) (status c) new_cmd)"

definition xdg_start_with :: "bool \<Rightarrow> bool \<Rightarrow> (string list \<Rightarrow> goerr option) \<Rightarrow> string \<Rightarrow> string \<Rightarrow> goerr option \<times> cmd" where
  "xdg_start_with darwin early sys input app = xdg_start early (sys (open_with_command darwin input app)) new_cmd"

text \<open>\<open>Run\<close> reaps every command that it starts.\<close>

lemma cmd_run_reaps: "cmd_run sys status new_cmd = (e, c) \<Longrightarrow> cm_waited c = cm_started c \<and> e = (if cm_started c then status else sys)"
  by (auto simp: cmd_run_def cmd_start_def cmd_wait_def new_cmd_def split: option.splits)

section \<open>Merged contexts\<close>

text \<open>
  \<open>Merge\<close>: the causes with which the two contexts and the merged one have ended, and whether the goroutine still
  waits. When both have ended it takes either case; ending a context twice keeps the first cause.
\<close>

record merged =
  mg_base :: "goerr option"
  mg_other :: "goerr option"
  mg_ctx :: "goerr option"
  mg_waiting :: bool

datatype merge_step = BaseEnds goerr | OtherEnds goerr | SelectBase | SelectOther

definition end_with :: "goerr \<Rightarrow> goerr option \<Rightarrow> goerr option" where
  "end_with e c = (case c of None \<Rightarrow> Some e | Some e' \<Rightarrow> Some e')"

fun merge_exec :: "merge_step \<Rightarrow> merged \<Rightarrow> merged" where
  "merge_exec (BaseEnds e) m = m\<lparr>mg_base := end_with e (mg_base m),
     mg_ctx := (if mg_base m = None then end_with e (mg_ctx m) else mg_ctx m)\<rparr>"
| "merge_exec (OtherEnds e) m = m\<lparr>mg_other := end_with e (mg_other m)\<rparr>"
| "merge_exec SelectBase m = (if mg_waiting m \<and> mg_base m \<noteq> None then m\<lparr>mg_waiting := False\<rparr> else m)"
| "merge_exec SelectOther m = (case mg_other m of
     Some e \<Rightarrow> if mg_waiting m then m\<lparr>mg_ctx := end_with e (mg_ctx m), mg_waiting := False\<rparr> else m
   | None \<Rightarrow> m)"

definition merge :: merged where
  "merge = \<lparr>mg_base = None, mg_other = None, mg_ctx = None, mg_waiting = True\<rparr>"

text \<open>The merged context ends with the cause of one of the two, and has ended once the goroutine has.\<close>

lemma merge_causes:
  "m = foldl (\<lambda>m st. merge_exec st m) merge steps \<Longrightarrow>
   (mg_ctx m = None \<or> mg_ctx m = mg_base m \<or> mg_ctx m = mg_other m) \<and> (mg_base m \<noteq> None \<longrightarrow> mg_ctx m \<noteq> None) \<and>
   (\<not> mg_waiting m \<longrightarrow> mg_ctx m \<noteq> None)"
proof (induction steps arbitrary: m rule: rev_induct)
  case (snoc st steps)
  then show ?case by (cases st) (auto simp: end_with_def split: option.splits)
qed (simp add: merge_def)

section \<open>Lemmas\<close>

text \<open>Copying moves chunks from the reader to the writer, in order.\<close>

lemma run_pipes_order:
  "run_pipes sched fs = (r, fs') \<Longrightarrow> fl_written (flow_of d fs') @ fl_left (flow_of d fs') = fl_written (flow_of d fs) @ fl_left (flow_of d fs) \<and>
     fl_end (flow_of d fs') = fl_end (flow_of d fs)"
proof (induction sched arbitrary: fs)
  case (Cons x sched)
  obtain a b where "fs = (a, b)" by fastforce
  then show ?case using Cons by (cases x; cases d) (fastforce simp: Let_def split: list.splits)+
qed simp

lemma run_pipes_finished:
  "run_pipes sched fs = (Some e, fs') \<Longrightarrow> \<exists>d. fl_left (flow_of d fs') = [] \<and> e = fl_end (flow_of d fs')"
  by (induction sched arbitrary: fs) (auto simp: Let_def split: list.splits)

lemma run_pipes_ends:
  "length (fl_left (flow_of d fs)) < count_list sched d \<Longrightarrow> fst (run_pipes sched fs) \<noteq> None"
proof (induction sched arbitrary: fs)
  case (Cons x sched)
  obtain a b where "fs = (a, b)" by fastforce
  then show ?case using Cons.prems Cons.IH
    by (cases x; cases d) (auto simp: Let_def split: list.splits if_splits)
qed simp

lemma run_pipes_one_side:
  "run_pipes (replicate (length (fl_left a) + 1) ToServer @ rest) (a, b) =
     (Some (fl_end a), (a\<lparr>fl_left := [], fl_written := fl_written a @ fl_left a\<rparr>, b))"
proof (induction "fl_left a" arbitrary: a)
  case (Cons c cs)
  from Cons.hyps(2) [symmetric] Cons.hyps(1) [of "a\<lparr>fl_left := cs, fl_written := fl_written a @ [c]\<rparr>"] show ?case
    by simp
qed (simp add: Let_def)

text \<open>A goroutine that waits before the command is started never reaps it.\<close>

lemma xdg_start_early:
  "xdg_start early None \<lparr>cm_started = False, cm_waited = False\<rparr> = (None, \<lparr>cm_started = True, cm_waited = \<not> early\<rparr>)"
  by (simp add: xdg_start_def cmd_start_def cmd_wait_def)

lemma launch_main_parts:
  assumes "launch_main env parse show activate free_port start args = (Inr (dst, ls), evs)"
  shows "ls \<noteq> [] \<and> activate (getenv env ''LAUNCH_DAEMON_SOCKET_NAME'' ''Socket'') = Inr ls \<and>
    (\<exists>ip port. parse (getenv env ''LAUNCH_CMD_ADDRESS'' ''127.0.0.1:0'') = Inr (ip, port) \<and> fst dst = ip \<and>
      (if port = 0 then free_port ip = Inr (snd dst) \<and> evs = [SetEnv ''LAUNCH_CMD_ADDRESS'' (show dst), StartCommand (args ! 1) (drop 2 args)]
       else snd dst = port \<and> evs = [StartCommand (args ! 1) (drop 2 args)])) \<and>
    start (args ! 1) (drop 2 args) = None"
proof -
  let ?p = "parse (getenv env ''LAUNCH_CMD_ADDRESS'' ''127.0.0.1:0'')" and ?a = "activate (getenv env ''LAUNCH_DAEMON_SOCKET_NAME'' ''Socket'')"
  have two: "\<not> length args < 2" using assms by (auto simp: launch_main_def)
  then obtain ip port where p: "?p = Inr (ip, port)" using assms by (cases ?p) (auto simp: launch_main_def)
  obtain ls' where a: "?a = Inr ls'" using assms two p by (cases ?a) (simp_all add: launch_main_def)
  obtain l ls'' where ls': "ls' = l # ls''" using assms two p a by (cases ls') (simp_all add: launch_main_def)
  show ?thesis
  proof (cases "port = 0")
    case True
    then obtain f where f: "free_port ip = Inr f"
      using assms two p a ls' by (cases "free_port ip") (simp_all add: launch_main_def)
    have "start (args ! 1) (drop 2 args) = None \<and> dst = (ip, f) \<and> ls = l # ls'' \<and>
        evs = [SetEnv ''LAUNCH_CMD_ADDRESS'' (show (ip, f)), StartCommand (args ! 1) (drop 2 args)]"
      using assms two p a ls' f True by (cases "start (args ! 1) (drop 2 args)") (auto simp: launch_main_def Let_def)
    then show ?thesis using p a ls' f True by simp
  next
    case False
    have "start (args ! 1) (drop 2 args) = None \<and> dst = (ip, port) \<and> ls = l # ls'' \<and>
        evs = [StartCommand (args ! 1) (drop 2 args)]"
      using assms two p a ls' False by (cases "start (args ! 1) (drop 2 args)") (simp_all add: launch_main_def)
    then show ?thesis using p a ls' False by simp
  qed
qed

lemma single_main_serves: "length args \<in> {2, 3} \<Longrightarrow> single_main args c = Inr ([c], ErrNetClosed)"
  by (auto simp: single_main_def single_listener_def single_serve.simps single_accept_def)

section \<open>Properties\<close>

text \<open>\<open>Handle\<close> of \<open>launch-socket-server\<close> ends with the first direction that ends: when the client has sent its request
  and shut down its sending side, both connections may be closed with nothing of the answer delivered, however
  much the server still has to say.\<close>

theorem handle_truncates:
  "proxy_handle dst (Inr out) (replicate (length (fl_left a) + 1) ToServer @ rest) (a, b) =
     Some (fl_end a, (a\<lparr>fl_left := [], fl_written := fl_written a @ fl_left a\<rparr>, b), [CloseOut out, CloseIn])"
  unfolding proxy_handle_def run_pipes_one_side by simp





text \<open>the command that \<open>launch-socket-server\<close> started finds the address connections are proxied to in its environment: it
  was set before the start when the configured port was 0, and was there already otherwise.\<close>

theorem launch_address_in_env:
  assumes "launch_main env parse show (launch_activate_socket sys file_listener fd_text) (get_free_port listen) start args = (Inr (dst, ls), evs)"
  shows "ls \<noteq> [] \<and> launch_activate_socket sys file_listener fd_text (getenv env ''LAUNCH_DAEMON_SOCKET_NAME'' ''Socket'') = Inr ls \<and>
    (\<exists>ip port. parse (getenv env ''LAUNCH_CMD_ADDRESS'' ''127.0.0.1:0'') = Inr (ip, port) \<and> fst dst = ip \<and>
      (if port = 0 then listen ip = Inr (Some (snd dst)) \<and>
         evs = [SetEnv ''LAUNCH_CMD_ADDRESS'' (show dst), StartCommand (args ! 1) (drop 2 args)]
       else snd dst = port \<and> evs = [StartCommand (args ! 1) (drop 2 args)])) \<and>
    start (args ! 1) (drop 2 args) = None"
proof -
  have "get_free_port listen ip = Inr p \<longleftrightarrow> listen ip = Inr (Some p)" for ip p
    by (auto simp: get_free_port_def bind_res_Inr_iff split: option.splits)
  from launch_main_parts [OF assms, unfolded this] show ?thesis .
qed

lemma launch_address_in_env_witness:
  "\<exists>evs. launch_main (\<lambda>k. []) (\<lambda>s. Inr (''ip'', 0)) (\<lambda>d. fst d @ '':'' @ nat_digits (snd d))
      (launch_activate_socket (\<lambda>n. (0, [3])) Inr []) (get_free_port (\<lambda>ip. Inr (Some 81))) (\<lambda>p as. None) [''s'', ''cmd''] =
    (Inr ((''ip'', 81), [3 :: nat]), evs) \<and> evs ! 1 = StartCommand ''cmd'' []"
proof -
  have "launch_main (\<lambda>k. []) (\<lambda>s. Inr (''ip'', 0)) (\<lambda>d. fst d @ '':'' @ nat_digits (snd d))
      (launch_activate_socket (\<lambda>n. (0, [3])) Inr []) (get_free_port (\<lambda>ip. Inr (Some 81))) (\<lambda>p as. None) [''s'', ''cmd''] =
    (Inr ((''ip'', 81), [3 :: nat]), [SetEnv ''LAUNCH_CMD_ADDRESS'' (''ip:'' @ nat_digits 81), StartCommand ''cmd'' []])"
    by (simp add: launch_main_def getenv_def launch_activate_socket_def get_free_port_def)
  from launch_address_in_env [OF this] this show ?thesis by simp
qed

text \<open>\<open>single-serve\<close> serves the connection on its standard streams, no other, and its accept loop ends.\<close>

theorem single_serve_once: "single_serve (Some c) = ([c], ErrNetClosed) \<and> single_serve None = ([], ErrNetClosed)"
  by (simp add: single_serve.simps single_accept_def)

end
