(* ===== verification/PacketDump.thy ===== *)
theory PacketDump
  imports Pac AppConfig
begin

text \<open>
  \<open>pkg/netutil/packet.go\<close>: what \<open>DumpPacket\<close> logs about a packet. The layers are those that the third-party decoder
  finds; their addresses and protocol names come as text. \<open>encoding/hex.Dump\<close> is modelled, and its output reads
  back to the bytes.
\<close>

section \<open>hex.Dump\<close>

definition hex_byte :: "char \<Rightarrow> string" where
  "hex_byte c = [json_hex (of_char c div 16), json_hex (of_char c mod 16)]"

text \<open>The offset in four bytes.\<close>

definition hex_offset :: "nat \<Rightarrow> string" where
  "hex_offset n = concat (map (\<lambda>i. hex_byte (char_of (n div 256 ^ i mod 256))) [3, 2, 1, 0])"

text \<open>A cell is the byte or blanks, with a space after it, one more after the eighth and a bar after the last.\<close>

definition hex_cell :: "string \<Rightarrow> nat \<Rightarrow> string" where
  "hex_cell bs i = (if i < length bs then hex_byte (bs ! i) else ''  '') @ '' '' @
     (if i = 7 then '' '' else if i = 15 then '' |'' else [])"

definition dump_char :: "char \<Rightarrow> char" where
  "dump_char c = (if byte_of c < 32 \<or> 126 < byte_of c then CHR ''.'' else c)"

definition hex_line :: "nat \<Rightarrow> string \<Rightarrow> string" where
  "hex_line off bs = hex_offset off @ ''  '' @ concat (map (hex_cell bs) [0..<16]) @ map dump_char bs @ ''|'' @ [CHR 0x0A]"

function hex_lines :: "nat \<Rightarrow> string \<Rightarrow> string" where
  "hex_lines off s = (if s = [] then [] else hex_line off (take 16 s) @ hex_lines (off + 16) (drop 16 s))"
  by pat_completeness auto
termination by (relation "measure (\<lambda>(off, s). length s)") auto

declare hex_lines.simps [simp del]

definition hex_dump :: "string \<Rightarrow> string" where
  "hex_dump s = hex_lines 0 s"

section \<open>Layers\<close>

datatype attr = StringAttr string string | IntAttr string int | BoolAttr string bool | GroupAttr string "attr list"

datatype layer =
    LIPv4 string string string nat nat       \<comment> \<open>source, destination, protocol, TTL, flags\<close>
  | LIPv6 string string string nat           \<comment> \<open>source, destination, next header, hop limit\<close>
  | LTCP nat nat nat nat "bool \<times> bool \<times> bool \<times> bool"  \<comment> \<open>ports, sequence numbers, SYN, ACK, FIN, RST\<close>
  | LUDP nat nat
  | LICMPv4 nat nat
  | LICMPv6 nat nat
  | LDNS nat nat bool
  | LOther

datatype first_layer = PayloadFirst | EthernetFirst | IPv4First | IPv6First

definition first_layer_of :: "string \<Rightarrow> string \<Rightarrow> first_layer" where
  "first_layer_of chain data =
     (if chain = ''inbound-link'' then EthernetFirst
      else if chain = ''inbound'' \<or> chain = ''outbound'' then
        (if byte_of (hd data) div 16 = (4 :: nat) then IPv4First
         else if byte_of (hd data) div 16 = (6 :: nat) then IPv6First else PayloadFirst)
      else PayloadFirst)"

text \<open>The flags of an IPv4 header: \<open>IPv4DontFragment\<close> is 2, \<open>IPv4MoreFragments\<close> is 1.\<close>

fun layer_group :: "layer \<Rightarrow> attr option" where
  "layer_group (LIPv4 src dst proto ttl flags) = Some (GroupAttr ''ipv4''
     [StringAttr ''src'' src, StringAttr ''dst'' dst, StringAttr ''protocol'' proto, IntAttr ''ttl'' (int ttl),
      BoolAttr ''flags_df'' (and flags 2 \<noteq> 0), BoolAttr ''flags_mf'' (and flags 1 \<noteq> 0)])"
| "layer_group (LIPv6 src dst next hop) = Some (GroupAttr ''ipv6''
     [StringAttr ''src'' src, StringAttr ''dst'' dst, StringAttr ''next_header'' next, IntAttr ''hop_limit'' (int hop)])"
| "layer_group (LTCP sp dp sq ak (syn, ack, fin, rst)) = Some (GroupAttr ''tcp''
     [IntAttr ''src_port'' (int sp), IntAttr ''dst_port'' (int dp), IntAttr ''seq'' (int sq), IntAttr ''ack'' (int ak),
      BoolAttr ''syn'' syn, BoolAttr ''ack_flag'' ack, BoolAttr ''fin'' fin, BoolAttr ''rst'' rst])"
| "layer_group (LUDP sp dp) = Some (GroupAttr ''udp'' [IntAttr ''src_port'' (int sp), IntAttr ''dst_port'' (int dp)])"
| "layer_group (LICMPv4 t c) = Some (GroupAttr ''icmpv4'' [IntAttr ''type'' (int t), IntAttr ''code'' (int c)])"
| "layer_group (LICMPv6 t c) = Some (GroupAttr ''icmpv6'' [IntAttr ''type'' (int t), IntAttr ''code'' (int c)])"
| "layer_group (LDNS qs as qr) = Some (GroupAttr ''dns'' [IntAttr ''questions'' (int qs), IntAttr ''answers'' (int as), BoolAttr ''qr'' qr])"
| "layer_group LOther = None"

fun is_dns :: "layer \<Rightarrow> bool" where
  "is_dns (LDNS qs as qr) = True"
| "is_dns l = False"

text \<open>The loop over the layers: the fields, \<open>hasLayers\<close> and \<open>applicationSet\<close>.\<close>

fun dump_layers :: "layer list \<Rightarrow> attr list \<times> bool \<times> bool \<Rightarrow> attr list \<times> bool \<times> bool" where
  "dump_layers [] st = st"
| "dump_layers (l # ls) (fs, has, app) = (case layer_group l of
     None \<Rightarrow> dump_layers ls (fs, has, app)
   | Some g \<Rightarrow> if is_dns l then dump_layers ls (fs @ [g], has, True) else dump_layers ls (fs @ [g], True, app))"

definition is_http :: "string \<Rightarrow> bool" where
  "is_http text = list_ex (has_prefix text) [''GET '', ''POST '', ''HTTP/1.'', ''PUT '', ''HEAD '', ''DELETE '', ''OPTIONS '']"

definition is_tls_client_hello :: "string \<Rightarrow> bool" where
  "is_tls_client_hello b \<longleftrightarrow> 5 < length b \<and> b ! 0 = CHR 0x16 \<and> b ! 5 = CHR 0x01"

definition payload_group :: "string \<Rightarrow> attr" where
  "payload_group payload =
     (if is_http payload
      then GroupAttr ''http'' [StringAttr ''request_line'' (trim_space (takeWhile (\<lambda>c. c \<noteq> CHR 0x0A) payload))]
      else if is_tls_client_hello payload
      then GroupAttr ''tls'' [StringAttr ''type'' ''ClientHello (likely)'', IntAttr ''length'' (int (length payload))]
      else GroupAttr ''app_data'' [IntAttr ''length'' (int (length payload))])"

text \<open>
  \<open>DumpPacket\<close>: the message and the attributes that it logs. \<open>decode\<close> gives the layers, the payload of the
  application layer if there is one and whether decoding failed.
\<close>

definition dump_packet :: "(first_layer \<Rightarrow> string \<Rightarrow> layer list \<times> string option \<times> bool) \<Rightarrow> string \<Rightarrow> string \<Rightarrow> string \<times> attr list" where
  "dump_packet decode data chain =
     (if data = [] then (''empty packet'', [StringAttr ''chain'' chain])
      else
        (let (layers, app, failed) = decode (first_layer_of chain data) data;
             (fs, has, app_set) = dump_layers layers ([StringAttr ''chain'' chain], False, False);
             fs = (case app of Some payload \<Rightarrow> if \<not> app_set \<and> payload \<noteq> [] then fs @ [payload_group payload] else fs | None \<Rightarrow> fs);
             fs = (if failed \<or> \<not> has then fs @ [StringAttr ''raw_hex'' (hex_dump data)] else fs)
         in (''packet dump'', fs)))"

section \<open>Reading a dump\<close>

text \<open>The pairs of hex digits between the offset and the bar.\<close>

fun read_pairs :: "string \<Rightarrow> string option" where
  "read_pairs [] = Some []"
| "read_pairs [c] = None"
| "read_pairs (a # b # s) = (case (hex_val a, hex_val b) of
     (Some x, Some y) \<Rightarrow> map_option ((#) (char_of (x * 16 + y))) (read_pairs s) | _ \<Rightarrow> None)"

definition read_line :: "string \<Rightarrow> string option" where
  "read_line l = read_pairs (filter (\<lambda>c. c \<noteq> CHR '' '') (takeWhile (\<lambda>c. c \<noteq> CHR ''|'') (drop 10 l)))"

definition read_dump :: "string \<Rightarrow> string option" where
  "read_dump s = foldr (\<lambda>l r. case (read_line l, r) of (Some x, Some y) \<Rightarrow> Some (x @ y) | _ \<Rightarrow> None)
     (butlast (split_on CHR 0x0A s)) (Some [])"

section \<open>A dump reads back\<close>

lemma hex_digit_chars: "n < 16 \<Longrightarrow> json_hex n \<noteq> CHR ''|'' \<and> json_hex n \<noteq> CHR 0x0A \<and> json_hex n \<noteq> CHR '' ''"
proof -
  have "list_all (\<lambda>c. c \<noteq> CHR ''|'' \<and> c \<noteq> CHR 0x0A \<and> c \<noteq> CHR '' '') ''0123456789abcdef''" by code_simp
  then show "n < 16 \<Longrightarrow> ?thesis" by (simp add: json_hex_def list_all_length)
qed

lemma hex_byte_chars:
  "CHR ''|'' \<notin> set (hex_byte c)" "CHR 0x0A \<notin> set (hex_byte c)" "filter (\<lambda>d. d \<noteq> CHR '' '') (hex_byte c) = hex_byte c"
  using hex_digit_chars [OF byte_digits(1) [of c]] hex_digit_chars [OF byte_digits(2) [of c]] by (auto simp: hex_byte_def)

lemma read_hex_byte: "read_pairs (hex_byte c @ s) = map_option ((#) c) (read_pairs s)"
  using hex_val_json [OF byte_digits(1) [of c]] hex_val_json [OF byte_digits(2) [of c]]
  by (simp add: hex_byte_def)

lemma read_hex_bytes: "read_pairs (concat (map hex_byte bs)) = Some bs"
  by (induction bs) (simp_all add: read_hex_byte)

text \<open>The cells up to the bar.\<close>

definition plain_cell :: "string \<Rightarrow> nat \<Rightarrow> string" where
  "plain_cell bs i = (if i < length bs then hex_byte (bs ! i) else ''  '') @ '' '' @ (if i = 7 \<or> i = 15 then '' '' else [])"

lemma cells_bar: "concat (map (hex_cell bs) [0..<16]) = concat (map (plain_cell bs) [0..<16]) @ ''|''"
  by (simp add: hex_cell_def plain_cell_def upt_rec)

lemma plain_cell_chars:
  "CHR ''|'' \<notin> set (plain_cell bs i)" "CHR 0x0A \<notin> set (plain_cell bs i)"
  "filter (\<lambda>c. c \<noteq> CHR '' '') (plain_cell bs i) = (if i < length bs then hex_byte (bs ! i) else [])"
  by (auto simp: plain_cell_def hex_byte_chars)

lemma cells_bytes:
  assumes "length bs \<le> 16"
  shows "filter (\<lambda>c. c \<noteq> CHR '' '') (concat (map (plain_cell bs) [0..<16])) = concat (map hex_byte bs)"
proof -
  have "[0..<16] = [0..<length bs] @ [length bs..<16]" using assms upt_add_eq_append [of 0 "length bs" "16 - length bs"] by simp
  moreover have "concat (map (\<lambda>i. filter (\<lambda>c. c \<noteq> CHR '' '') (plain_cell bs i)) [0..<length bs]) = concat (map hex_byte (map ((!) bs) [0..<length bs]))"
    unfolding map_map by (intro arg_cong [of _ _ concat] map_cong) (auto simp: plain_cell_chars)
  moreover have "concat (map (\<lambda>i. filter (\<lambda>c. c \<noteq> CHR '' '') (plain_cell bs i)) [length bs..<16]) = []"
    by (auto simp: plain_cell_chars)
  ultimately show ?thesis by (simp add: filter_concat comp_def map_nth del: upt_Suc)
qed

definition line_body :: "nat \<Rightarrow> string \<Rightarrow> string" where
  "line_body off bs = hex_offset off @ ''  '' @ concat (map (plain_cell bs) [0..<16]) @ ''|'' @ map dump_char bs @ ''|''"

lemma hex_line_body: "hex_line off bs = line_body off bs @ [CHR 0x0A]"
  by (simp add: hex_line_def line_body_def cells_bar del: upt_Suc)

lemma hex_offset_chars: "length (hex_offset n) = 8" "CHR 0x0A \<notin> set (hex_offset n)"
  by (simp add: hex_offset_def hex_byte_def) (simp add: hex_offset_def hex_byte_chars)

lemma line_body_chars: "CHR 0x0A \<notin> set (line_body off bs)"
  by (auto simp: line_body_def hex_offset_chars plain_cell_chars dump_char_def)

lemma read_line_body: "length bs \<le> 16 \<Longrightarrow> read_line (line_body off bs) = Some bs"
proof -
  assume bs: "length bs \<le> 16"
  have "drop 10 (line_body off bs) = concat (map (plain_cell bs) [0..<16]) @ ''|'' @ map dump_char bs @ ''|''"
    by (simp add: line_body_def hex_offset_chars del: upt_Suc)
  moreover have "takeWhile (\<lambda>c. c \<noteq> CHR ''|'') (concat (map (plain_cell bs) [0..<16]) @ ''|'' @ s) = concat (map (plain_cell bs) [0..<16])" for s
    by (subst takeWhile_append2) (auto simp: plain_cell_chars simp del: upt_Suc)
  ultimately show ?thesis by (simp add: read_line_def cells_bytes [OF bs] read_hex_bytes del: upt_Suc)
qed

lemma read_hex_lines: "read_dump (hex_lines off s) = Some s"
proof (induction off s rule: hex_lines.induct)
  case (1 off s)
  show ?case
  proof (cases "s = []")
    case False
    have "split_on CHR 0x0A (hex_lines off s) = line_body off (take 16 s) # split_on CHR 0x0A (hex_lines (off + 16) (drop 16 s))"
      using False by (subst hex_lines.simps) (simp add: hex_line_body split_on_append line_body_chars)
    then show ?thesis using 1 [OF False] by (simp add: read_dump_def read_line_body)
  qed (simp add: hex_lines.simps read_dump_def)
qed

section \<open>Properties\<close>

text \<open>the hex dump of a packet that \<open>DumpPacket\<close> logs, the attribute that stands last when no layer was found or decoding
  failed, reads back to exactly the packet.\<close>

theorem dump_reads_back:
  assumes "data \<noteq> []" and "decode (first_layer_of chain data) data = (layers, app, failed)"
    and "failed \<or> (\<forall>l \<in> set layers. layer_group l = None \<or> is_dns l)"
  shows "\<exists>fs dump. dump_packet decode data chain = (''packet dump'', fs @ [StringAttr ''raw_hex'' dump]) \<and> read_dump dump = Some data"
proof -
  have has: "fst (snd (dump_layers ls (fs, False, ap))) = False" if "\<forall>l \<in> set ls. layer_group l = None \<or> is_dns l" for ls fs ap
    using that by (induction ls arbitrary: fs ap) (auto split: option.split)
  obtain fs h ap where d: "dump_layers layers ([StringAttr ''chain'' chain], False, False) = (fs, h, ap)" by (metis prod_cases3)
  have "failed \<or> \<not> h" using assms(3) has [of layers "[StringAttr ''chain'' chain]" False] d by auto
  then show ?thesis using assms(1,2) d read_hex_lines by (simp add: dump_packet_def Let_def hex_dump_def)
qed

lemma dump_reads_back_witness:
  "\<exists>fs dump. dump_packet (\<lambda>f d. ([LDNS 1 0 False], None, False)) ''|a'' ''inbound'' = (''packet dump'', fs @ [StringAttr ''raw_hex'' dump]) \<and>
    read_dump dump = Some ''|a''"
  by (rule dump_reads_back [of _ _ _ "[LDNS 1 0 False]" None False]) simp_all

end
