(* ===== verification/LazySpec.thy ===== *)
theory LazySpec
  imports LazyDialer
begin

text \<open>
  What \<open>pkg/dialer/lazy.go\<close> promises, without its locks, goroutines and contexts: a machine of four states
  that holds at most one dialer, with the number of calls that hold it, the errors handed to callers, what the dialers returned to
  them, and the dialers built and closed so far. The properties at the end: every run of the goroutines of \<open>LazyDialer\<close>
  is a run of this machine, so what holds of its runs holds of the code's.
\<close>

section \<open>The specification\<close>

datatype 'd conn_spec = SOffline | SConnecting | SFailed goerr | SOnline 'd

record 'd spec =
  sp_conn :: "'d conn_spec"
  sp_live :: nat
  sp_rets :: "goerr list"
  sp_passed :: "dial_result list"
  sp_built :: "'d list"
  sp_closed :: "'d list"

definition spec_start :: "'d spec" where
  "spec_start = \<lparr>sp_conn = SOffline, sp_live = 0, sp_rets = [], sp_passed = [], sp_built = [], sp_closed = []\<rparr>"

inductive spec_step :: "('d \<Rightarrow> bool) \<Rightarrow> 'd spec \<Rightarrow> 'd spec \<Rightarrow> bool" for closer where
  stutter: "spec_step closer s s"
| connecting: "sp_conn s = SOffline \<Longrightarrow> spec_step closer s (s\<lparr>sp_conn := SConnecting\<rparr>)"
| online: "sp_conn s = SConnecting \<Longrightarrow> spec_step closer s (s\<lparr>sp_conn := SOnline d, sp_built := sp_built s @ [d]\<rparr>)"
| failed: "sp_conn s = SConnecting \<Longrightarrow> spec_step closer s (s\<lparr>sp_conn := SFailed e\<rparr>)"
| forget: "sp_conn s = SFailed e \<Longrightarrow> spec_step closer s (s\<lparr>sp_conn := SOffline\<rparr>)"
| refuse: "sp_conn s = SFailed e \<Longrightarrow> spec_step closer s (s\<lparr>sp_rets := sp_rets s @ [e]\<rparr>)"
| connect: "sp_conn s = SOnline d \<Longrightarrow> spec_step closer s (s\<lparr>sp_live := sp_live s + 1, sp_passed := sp_passed s @ [r]\<rparr>)"
| disconnect: "0 < sp_live s \<Longrightarrow> spec_step closer s (s\<lparr>sp_live := sp_live s - 1\<rparr>)"
| lost: "sp_conn s = SOnline d \<Longrightarrow> sp_live s = 0 \<Longrightarrow> spec_step closer s (s\<lparr>sp_conn := SOffline\<rparr>)"
| shut: "sp_conn s = SOnline d \<Longrightarrow> sp_live s = 0 \<Longrightarrow> closer d \<Longrightarrow>
    spec_step closer s (s\<lparr>sp_conn := SOffline, sp_closed := sp_closed s @ [d]\<rparr>)"

text \<open>Connections exist only online, and every dialer but the current one was closed at most once, in order.\<close>

definition spec_inv :: "('d \<Rightarrow> bool) \<Rightarrow> 'd spec \<Rightarrow> bool" where
  "spec_inv closer s \<longleftrightarrow>
     (\<exists>old. sp_built s = old @ (case sp_conn s of SOnline d \<Rightarrow> [d] | _ \<Rightarrow> []) \<and> subseq (sp_closed s) (filter closer old)) \<and>
     ((\<forall>d. sp_conn s \<noteq> SOnline d) \<longrightarrow> sp_live s = 0)"

lemma spec_inv_start: "spec_inv closer spec_start"
  by (simp add: spec_inv_def spec_start_def)

lemma spec_inv_step: "spec_step closer s s' \<Longrightarrow> spec_inv closer s \<Longrightarrow> spec_inv closer s'"
proof (induction rule: spec_step.induct)
  case (shut s d)
  then obtain old where "sp_built s = old @ [d]" "subseq (sp_closed s) (filter closer old)" by (auto simp: spec_inv_def)
  moreover from this(2) have "subseq (sp_closed s @ [d]) (filter closer old @ [d])" by (simp add: subseq_append)
  ultimately show ?case using shut by (simp add: spec_inv_def)
next
  case (lost s d)
  then obtain old where "sp_built s = old @ [d]" "subseq (sp_closed s) (filter closer old)" by (auto simp: spec_inv_def)
  moreover from this(2) have "subseq (sp_closed s) (filter closer old @ filter closer [d])"
    unfolding subseq_append_iff by (intro exI [of _ "sp_closed s"] exI [of _ "[]"]) simp
  ultimately show ?case using lost by (simp add: spec_inv_def)
qed (simp_all add: spec_inv_def split: conn_spec.splits)

section \<open>The goroutines refine the specification\<close>

text \<open>The state of the fields as one value, and what a step builds.\<close>

definition conn_of :: "'d lazy \<Rightarrow> 'd conn_spec" where
  "conn_of l = (case lz_state l of
     Offline \<Rightarrow> SOffline | Connecting \<Rightarrow> SConnecting | Failed \<Rightarrow> SFailed (the (lz_err l)) | Online \<Rightarrow> SOnline (the (lz_xd l)))"

fun built_by :: "'d act \<Rightarrow> 'd list" where
  "built_by (InitDone k (Inr d)) = [d]"
| "built_by a = []"

definition lazy_rel :: "'d sys \<times> 'd list \<Rightarrow> 'd spec \<Rightarrow> bool" where
  "lazy_rel c s \<longleftrightarrow> lazy_inv (fst c) \<and> sp_conn s = conn_of (y_lz (fst c)) \<and> sp_live s = length (y_conns (fst c)) \<and>
     y_rets (fst c) = map Some (sp_rets s) \<and> y_passed (fst c) = sp_passed s \<and> sp_built s = snd c \<and> sp_closed s = y_closed (fst c)"

text \<open>A step of the goroutines with the dialers built so far.\<close>

definition lazy_hist :: "('d \<Rightarrow> bool) \<Rightarrow> ('d \<Rightarrow> bool) \<Rightarrow> 'd sys \<times> 'd list \<Rightarrow> 'd sys \<times> 'd list \<Rightarrow> bool" where
  "lazy_hist waiter closer c c' \<longleftrightarrow> (\<exists>a. lazy_exec waiter closer a (fst c) = Next (fst c') \<and> snd c' = snd c @ built_by a)"

definition followed :: "('d \<Rightarrow> bool) \<Rightarrow> 'd spec \<Rightarrow> 'd list \<Rightarrow> 'd sys outcome \<Rightarrow> bool" where
  "followed closer s bs r \<longleftrightarrow> (\<forall>y'. r = Next y' \<longrightarrow> lazy_inv y' \<longrightarrow> (\<exists>s'. spec_step closer s s' \<and> lazy_rel (y', bs) s'))"

lemma followed_dial: "lazy_rel (y, bs) s \<Longrightarrow> followed closer s bs (lazy_dial r y)"
proof (cases "lz_state (y_lz y)")
  assume rel: "lazy_rel (y, bs) s"
  {
    case Offline
    then show ?thesis using rel stutter [of closer s]
      by (auto simp: followed_def lazy_rel_def lazy_dial_def conn_of_def Let_def intro!: exI [of _ s] split: if_splits)
  next
    case Connecting
    then show ?thesis using rel stutter [of closer s]
      by (auto simp: followed_def lazy_rel_def lazy_dial_def conn_of_def Let_def intro!: exI [of _ s] split: if_splits)
  next
    case Failed
    then have "sp_conn s = SFailed (the (lz_err (y_lz y)))" using rel by (simp add: lazy_rel_def conn_of_def)
    from refuse [OF this, of closer] show ?thesis using rel Failed
      by (auto simp: followed_def lazy_rel_def lazy_dial_def conn_of_def lazy_inv_def Let_def)
  next
    case Online
    then have "sp_conn s = SOnline (the (lz_xd (y_lz y)))" using rel by (simp add: lazy_rel_def conn_of_def)
    from connect [OF this, of closer r] show ?thesis using rel Online
      by (auto simp: followed_def lazy_rel_def lazy_dial_def conn_of_def Let_def split: if_splits option.splits)
  }
qed

lemma followed_quiet:
  assumes "lazy_rel (y, bs) s"
    and "\<And>y'. r = Next y' \<Longrightarrow> conn_of (y_lz y') = conn_of (y_lz y) \<and> y_conns y' = y_conns y \<and> y_rets y' = y_rets y \<and>
      y_passed y' = y_passed y \<and> y_closed y' = y_closed y"
  shows "followed closer s bs r"
  unfolding followed_def using stutter [of closer s] assms by (fastforce simp: lazy_rel_def)

lemma followed_conn_done: "lazy_rel (y, bs) s \<Longrightarrow> followed closer s bs (lazy_conn_done k y)"
proof (cases "k < length (y_conns y)")
  assume r: "lazy_rel (y, bs) s"
  case True
  then have "0 < sp_live s" "length (remove_at k (y_conns y)) = sp_live s - 1" using r by (auto simp: lazy_rel_def remove_at_def)
  with disconnect [of s closer] show ?thesis using r
    by (auto simp: followed_def lazy_rel_def lazy_conn_done_def lazy_inv_def Let_def)
qed (simp add: lazy_conn_done_def followed_def)

lemma followed_reset: "lazy_rel (y, bs) s \<Longrightarrow> followed closer s bs (lazy_reset y)"
proof (cases "lz_state (y_lz y) = Failed")
  assume r: "lazy_rel (y, bs) s"
  case True
  then have "sp_conn s = SFailed (the (lz_err (y_lz y)))" using r by (simp add: lazy_rel_def conn_of_def)
  from forget [OF this, of closer] show ?thesis using r True
    by (auto simp: followed_def lazy_rel_def lazy_reset_def reset_locked_def conn_of_def broadcast_def Let_def)
next
  assume r: "lazy_rel (y, bs) s"
  case False
  then have "lazy_reset y = Blocked \<or> lazy_reset y = Next (y\<lparr>y_pend := None\<rparr>)"
    by (simp add: lazy_reset_def reset_locked_def Let_def)
  then show ?thesis by (intro followed_quiet [OF r]) auto
qed

lemma followed_init_start: "lazy_rel (y, bs) s \<Longrightarrow> followed closer s bs (lazy_init_start k y)"
proof (cases "lz_state (y_lz y) = Offline")
  assume r: "lazy_rel (y, bs) s"
  case True
  then have "sp_conn s = SOffline" using r by (simp add: lazy_rel_def conn_of_def)
  from connecting [OF this, of closer] show ?thesis using r
    by (auto simp: followed_def lazy_rel_def lazy_init_start_def conn_of_def broadcast_def Let_def)
next
  assume r: "lazy_rel (y, bs) s"
  case False
  then have "lazy_init_start k y = Blocked" using r
    by (cases "lz_state (y_lz y)") (auto simp: lazy_rel_def lazy_inv_def lazy_init_start_def Let_def nth_Cons')
  then show ?thesis by (simp add: followed_def)
qed

lemma followed_init_done: "lazy_rel (y, bs) s \<Longrightarrow> followed closer s (bs @ built_by (InitDone k x)) (lazy_init_done waiter k x y)"
proof (cases "lz_state (y_lz y) = Connecting")
  assume r: "lazy_rel (y, bs) s"
  case True
  then have c: "sp_conn s = SConnecting" using r by (simp add: lazy_rel_def conn_of_def)
  show ?thesis
  proof (cases x)
    case (Inl e)
    show ?thesis using r True Inl failed [OF c, of closer]
      by (fastforce simp: followed_def lazy_rel_def lazy_inv_def lazy_init_done_def lazy_init_fail_def conn_of_def Let_def
          lazy_effects split: if_splits init_pc.splits option.splits)
  next
    case (Inr d)
    show ?thesis using r True Inr online [OF c, of closer d]
      by (fastforce simp: followed_def lazy_rel_def lazy_inv_def lazy_init_done_def lazy_init_ok_def conn_of_def Let_def
          lazy_effects split: if_splits init_pc.splits option.splits)
  qed
next
  assume r: "lazy_rel (y, bs) s"
  case False
  then have "lazy_init_done waiter k x y = Blocked" using r
    by (cases "lz_state (y_lz y)") (auto simp: lazy_rel_def lazy_inv_def lazy_init_done_def Let_def nth_Cons')
  then show ?thesis by (simp add: followed_def)
qed

lemma followed_after: "lazy_rel (y, bs) s \<Longrightarrow> followed closer s bs (lazy_after closer k y)"
proof (cases "lz_state (y_lz y) = Online \<and> y_conns y = []")
  assume r: "lazy_rel (y, bs) s"
  case True
  then obtain d where d: "lz_xd (y_lz y) = Some d" "sp_conn s = SOnline d" "sp_live s = 0"
    using r by (auto simp: lazy_rel_def conn_of_def lazy_inv_def Let_def)
  show ?thesis using r True d lost [OF d(2,3), of closer] shut [OF d(2,3), of closer]
    by (auto simp: followed_def lazy_rel_def lazy_after_def conn_of_def Let_def lazy_effects split: if_splits option.splits)
next
  assume r: "lazy_rel (y, bs) s"
  case False
  then have "lazy_after closer k y = Blocked" using r
    by (cases "lz_state (y_lz y)") (auto simp: lazy_rel_def lazy_inv_def lazy_after_def lock_free_def Let_def)
  then show ?thesis by (simp add: followed_def)
qed

lemma lazy_rel_awake: "lazy_rel (y\<lparr>y_awake := n\<rparr>, bs) s = lazy_rel (y, bs) s"
  by (simp add: lazy_rel_def)

lemma followed_exec:
  assumes "lazy_rel (y, bs) s"
  shows "followed closer s (bs @ built_by a) (lazy_exec waiter closer a y)"
proof (cases a)
  case Wake
  then show ?thesis using assms followed_dial [of "y\<lparr>y_awake := y_awake y - 1\<rparr>" bs s closer]
    by (auto simp: lazy_rel_awake followed_def)
next
  case (TimerFire t)
  then show ?thesis using assms by (simp add: followed_def lazy_timer_def lazy_rel_def lazy_inv_def Let_def)
next
  case (WaiterDone k e)
  then show ?thesis using assms
    by (simp, intro followed_quiet [of y]) (auto simp: lazy_waiter_def cancel_ctx_def split: if_splits)
next
  case CloseAct
  then show ?thesis using assms
    by (simp, intro followed_quiet [of y]) (auto simp: lazy_close_def cancel_ctx_def broadcast_def split: if_splits option.splits)
next
  case (LockWait w)
  then show ?thesis using assms by (simp, intro followed_quiet [of y]) (auto simp: lazy_wait_def split: if_splits)
next
  case ResetGo
  then show ?thesis using followed_reset [OF assms, of closer] by (simp add: followed_def)
next
  case (Register k)
  then show ?thesis using assms
    by (simp, intro followed_quiet [of y]) (auto simp: lazy_register_def split: if_splits option.splits)
next
  case (Tick n)
  then show ?thesis using assms by (simp, intro followed_quiet [of y]) auto
qed (use assms followed_dial followed_conn_done followed_reset followed_init_start followed_init_done followed_after in
    \<open>simp_all add: followed_def\<close>)

interpretation lazy_sim: simulation "(new_sys 0, [])" "lazy_hist waiter closer" spec_start "spec_step closer" lazy_rel
  for waiter closer
proof
  show "lazy_rel (new_sys 0, []) spec_start"
    using lazy_inv_start by (simp add: lazy_rel_def spec_start_def conn_of_def) (simp add: new_sys_def new_lazy_def)
next
  fix c s c'
  assume r: "lazy_rel c s" and "lazy_hist waiter closer c c'"
  then obtain a where a: "lazy_exec waiter closer a (fst c) = Next (fst c')" "snd c' = snd c @ built_by a"
    by (auto simp: lazy_hist_def)
  moreover have "lazy_inv (fst c')"
    using lazy_exec_safe [of "fst c" waiter closer a] r a(1) by (simp add: lazy_rel_def safe_step_def)
  ultimately show "\<exists>s'. spec_step closer s s' \<and> lazy_rel c' s'"
    using followed_exec [of "fst c" "snd c" s closer a waiter] r by (metis followed_def prod.collapse)
qed

lemma hist_run:
  "lazy_run waiter closer as y = Next y' \<Longrightarrow> rtranclp (lazy_hist waiter closer) (y, bs) (y', bs @ concat (map built_by as))"
proof (induction "as" arbitrary: y bs)
  case (Cons a as)
  then obtain y1 where y1: "lazy_exec waiter closer a y = Next y1" "lazy_run waiter closer as y1 = Next y'"
    by (auto split: outcome.splits)
  have "lazy_hist waiter closer (y, bs) (y1, bs @ built_by a)" using y1(1) by (auto simp: lazy_hist_def)
  with Cons.IH [OF y1(2), of "bs @ built_by a"] show ?case by (simp add: converse_rtranclp_into_rtranclp)
qed simp

text \<open>While a dialer is being built nobody returns from \<open>DialContext\<close>: only the end of \<open>d.new\<close> changes the state.\<close>

lemma connecting_waits_step:
  assumes "lazy_inv y" and "lz_state (y_lz y) = Connecting" and "\<forall>k r. a \<noteq> InitDone k r" and "lazy_exec waiter closer a y = Next y'"
  shows "lazy_inv y' \<and> lz_state (y_lz y') = Connecting \<and> y_rets y' = y_rets y \<and> y_passed y' = y_passed y \<and> y_conns y' = []"
proof -
  have "lazy_inv y'" using lazy_exec_safe [OF assms(1), of waiter closer a] assms(4) by (simp add: safe_step_def)
  moreover have "lz_state (y_lz y') = Connecting \<and> y_rets y' = y_rets y \<and> y_passed y' = y_passed y \<and> y_conns y' = []"
    using assms
    by (cases a) (auto simp: lazy_inv_def Let_def lazy_dial_def lazy_conn_done_def lazy_close_def lazy_reset_def
        lazy_init_start_def lazy_wait_def reset_locked_def lock_free_def lazy_register_def lazy_waiter_def lazy_after_def lazy_timer_def nth_Cons'
        cancel_ctx_def broadcast_def split: if_splits option.splits)
  ultimately show ?thesis by blast
qed

lemma connecting_waits_run:
  assumes "lazy_inv y" and "lz_state (y_lz y) = Connecting" and "y_conns y = []" and "set as \<inter> {a. \<exists>k r. a = InitDone k r} = {}"
    and "lazy_run waiter closer as y = Next y'"
  shows "lz_state (y_lz y') = Connecting \<and> y_rets y' = y_rets y \<and> y_passed y' = y_passed y \<and> y_conns y' = []"
proof -
  have "lazy_inv y' \<and> lz_state (y_lz y') = Connecting \<and> y_rets y' = y_rets y \<and> y_passed y' = y_passed y \<and> y_conns y' = []"
  proof (rule lazy_runs.run_keeps [where A = "- {a. \<exists>k r. a = InitDone k r}", OF _ _ _ assms(5)])
    fix a s s'
    assume a: "a \<in> - {a. \<exists>k r. a = InitDone k r}"
      and s: "lazy_inv s \<and> lz_state (y_lz s) = Connecting \<and> y_rets s = y_rets y \<and> y_passed s = y_passed y \<and> y_conns s = []"
      and e: "lazy_exec waiter closer a s = Next s'"
    show "lazy_inv s' \<and> lz_state (y_lz s') = Connecting \<and> y_rets s' = y_rets y \<and> y_passed s' = y_passed y \<and> y_conns s' = []"
      using connecting_waits_step [OF _ _ _ e] a s by simp
  qed (use assms(1-4) in auto)
  then show ?thesis by blast
qed

section \<open>Properties\<close>

text \<open>C6: Without an idle timeout every run of the lazy dialer's goroutines is a run of the four-state machine: the fields
  are its state, the callers' answers its errors and connections, and the dialers that \<open>d.new\<close> returned and the
  code closed are those that the machine built and shut.\<close>

theorem lazy_refines_spec:
  assumes "lazy_run waiter closer as (new_sys 0) = Next y"
  shows "\<exists>s. rtranclp (spec_step closer) spec_start s \<and> sp_conn s = conn_of (y_lz y) \<and> sp_live s = length (y_conns y) \<and>
    y_rets y = map Some (sp_rets s) \<and> y_passed y = sp_passed s \<and> sp_built s = concat (map built_by as) \<and> sp_closed s = y_closed y"
  using lazy_sim.rel_reach [OF hist_run [OF assms, of "[]", simplified]] by (auto simp: lazy_rel_def)

lemma lazy_refines_spec_witness:
  "\<exists>s. rtranclp (spec_step (\<lambda>_. True)) spec_start s \<and> sp_conn s = SOnline (7 :: nat) \<and> sp_built s = [7]"
proof -
  have "lazy_run (\<lambda>_. False) (\<lambda>_. True) [Dial call_result, InitStart 0, InitDone 0 (Inr 7), Register 0] (new_sys 0) = Next online_sys"
    and "conn_of (y_lz online_sys) = SOnline 7"
    by (simp_all add: online_sys_def conn_of_def lazy_dial_def new_sys_def new_lazy_def lazy_init_start_def
        lazy_init_done_def lazy_init_ok_def lazy_register_def lazy_effects Let_def)
  with lazy_refines_spec show ?thesis by fastforce
qed

text \<open>C16: Without an idle timeout a lazy dialer closes only dialers that it built and that have a \<open>Close\<close> method, each at
  most once and in the order in which they were built, and never the one it holds.\<close>

theorem lazy_closes_once:
  assumes "lazy_run waiter closer as (new_sys 0) = Next y"
  shows "\<exists>old. concat (map built_by as) = old @ (case lz_xd (y_lz y) of Some d \<Rightarrow> [d] | None \<Rightarrow> []) \<and>
    subseq (y_closed y) (filter closer old)"
proof -
  obtain s where s: "spec_inv closer s" "lazy_rel (y, concat (map built_by as)) s"
    using lazy_sim.abstract_inv [where J = "spec_inv closer", OF hist_run [OF assms, of "[]", simplified] spec_inv_start]
      spec_inv_step by blast
  have "(case sp_conn s of SOnline d \<Rightarrow> [d] | _ \<Rightarrow> []) = (case lz_xd (y_lz y) of Some d \<Rightarrow> [d] | None \<Rightarrow> [])"
    using s(2) by (cases "lz_state (y_lz y)") (auto simp: lazy_rel_def conn_of_def lazy_inv_def Let_def)
  with s show ?thesis by (simp add: spec_inv_def lazy_rel_def)
qed

lemma lazy_closes_once_witness: "\<exists>old. [7 :: nat] = old @ (case lz_xd (y_lz online_sys) of Some d \<Rightarrow> [d] | None \<Rightarrow> []) \<and>
    subseq (y_closed online_sys) (filter (\<lambda>_. True) old)"
proof -
  have "lazy_run (\<lambda>_. False) (\<lambda>_. True) [Dial call_result, InitStart 0, InitDone 0 (Inr 7), Register 0] (new_sys 0) = Next online_sys"
    by (simp add: online_sys_def lazy_dial_def new_sys_def new_lazy_def lazy_init_start_def
        lazy_init_done_def lazy_init_ok_def lazy_register_def lazy_effects Let_def)
  from lazy_closes_once [OF this] show ?thesis by simp
qed



end
