(* ===== verification/LazyPool.thy ===== *)
theory LazyPool
  imports LazySpec
begin

text \<open>
  Many lazy dialers at once. A goroutine that builds one of them (\<open>d.new\<close> in \<open>pkg/dialer/lazy.go\<close>) may dial through others and
  sleep in them, beside any number of other callers, connections, \<open>Close\<close> and \<open>Reset\<close>. The steps are those of \<open>LazyDialer\<close>,
  one dialer each; only the end of \<open>d.new\<close> now depends on the rest. When the dialers can be ranked above those that they wait
  for, no interleaving gets stuck while somebody waits, provided the connections end: a caller may also wait at the read lock, behind a
  writer (\<open>Reset\<close>, or the callback on the context's end) that the connections hold up. Two dialers that wait for each other are stuck.
\<close>

section \<open>The dialers and their builders\<close>

datatype builder = Running | Waiting nat

record 'd pool_sys =
  ps_sys :: "nat \<Rightarrow> 'd sys"
  ps_builder :: "nat \<Rightarrow> builder option"

text \<open>
  \<open>At i a\<close> is a step of dialer \<open>i\<close>. \<open>Call i\<close> and \<open>BuildDial i j\<close> are a caller, or the builder of \<open>i\<close>, that calls \<open>DialContext\<close> and is about
  to take the read lock, like one that was woken; \<open>At i (Wake r)\<close> and \<open>BuildWake i r\<close> are its next round of the loop.
\<close>

datatype 'd pool_act = At nat "'d act" | Call nat | BuildDial nat nat | BuildWake nat dial_result

definition enter :: "'d sys \<Rightarrow> 'd sys" where
  "enter y = y\<lparr>y_awake := y_awake y + 1\<rparr>"

definition put_sys :: "nat \<Rightarrow> 'd sys \<Rightarrow> 'd pool_sys \<Rightarrow> 'd pool_sys" where
  "put_sys i y p = p\<lparr>ps_sys := (ps_sys p)(i := y)\<rparr>"

definition put_builder :: "nat \<Rightarrow> builder option \<Rightarrow> 'd pool_sys \<Rightarrow> 'd pool_sys" where
  "put_builder i b p = p\<lparr>ps_builder := (ps_builder p)(i := b)\<rparr>"

text \<open>A step of one dialer in the pool, and what it makes of the builder that took it.\<close>

definition step_at :: "nat \<Rightarrow> 'd sys outcome \<Rightarrow> ('d sys \<Rightarrow> 'd pool_sys \<Rightarrow> 'd pool_sys) \<Rightarrow> 'd pool_sys \<Rightarrow> 'd pool_sys outcome" where
  "step_at i r f p = (case r of Next y \<Rightarrow> Next (f y (put_sys i y p)) | Panic \<Rightarrow> Panic | Blocked \<Rightarrow> Blocked)"

text \<open>After a round of the loop in \<open>DialContext\<close> of \<open>j\<close> the builder sleeps there or goes on.\<close>

definition after_round :: "nat \<Rightarrow> nat \<Rightarrow> nat \<Rightarrow> 'd sys \<Rightarrow> 'd pool_sys \<Rightarrow> 'd pool_sys" where
  "after_round i j asleep y = put_builder i (Some (if asleep < y_sleep y then Waiting j else Running))"

text \<open>The builders below \<open>n\<close> that sleep in \<open>j\<close> or are about to take its lock; a wake-up in \<open>j\<close> that is nobody's is another caller's.\<close>

definition builders_in :: "nat \<Rightarrow> nat \<Rightarrow> 'd pool_sys \<Rightarrow> nat" where
  "builders_in n j p = length (filter (\<lambda>i. ps_builder p i = Some (Waiting j)) [0..<n])"

fun pool_exec ::
  "('d \<Rightarrow> bool) \<Rightarrow> ('d \<Rightarrow> bool) \<Rightarrow> nat \<Rightarrow> (nat \<Rightarrow> nat list) \<Rightarrow> 'd pool_act \<Rightarrow> 'd pool_sys \<Rightarrow> 'd pool_sys outcome" where
  "pool_exec waiter closer n waits (At i a) p =
     (if n \<le> i then Blocked
      else let y = ps_sys p i in case a of
        InitStart k \<Rightarrow> step_at i (lazy_exec waiter closer a y) (\<lambda>y. put_builder i (Some Running)) p
      | InitDone k r \<Rightarrow> if ps_builder p i = Some Running then step_at i (lazy_exec waiter closer a y) (\<lambda>y. put_builder i None) p else Blocked
      | Wake r \<Rightarrow> if builders_in n i p < y_sleep y + y_awake y then step_at i (lazy_exec waiter closer a y) (\<lambda>y. id) p else Blocked
      | _ \<Rightarrow> step_at i (lazy_exec waiter closer a y) (\<lambda>y. id) p)"
| "pool_exec waiter closer n waits (Call i) p = (if i < n then Next (put_sys i (enter (ps_sys p i)) p) else Blocked)"
| "pool_exec waiter closer n waits (BuildDial i j) p =
     (if i < n \<and> j < n \<and> ps_builder p i = Some Running \<and> j \<in> set (waits i)
      then Next (put_builder i (Some (Waiting j)) (put_sys j (enter (ps_sys p j)) p)) else Blocked)"
| "pool_exec waiter closer n waits (BuildWake i r) p =
     (case ps_builder p i of
        Some (Waiting j) \<Rightarrow> if i < n then step_at j (lazy_exec waiter closer (Wake r) (ps_sys p j)) (after_round i j (y_sleep (ps_sys p j))) p else Blocked
      | _ \<Rightarrow> Blocked)"

fun pool_run ::
  "('d \<Rightarrow> bool) \<Rightarrow> ('d \<Rightarrow> bool) \<Rightarrow> nat \<Rightarrow> (nat \<Rightarrow> nat list) \<Rightarrow> 'd pool_act list \<Rightarrow> 'd pool_sys \<Rightarrow> 'd pool_sys outcome" where
  "pool_run waiter closer n waits [] p = Next p"
| "pool_run waiter closer n waits (a # as) p =
     (case pool_exec waiter closer n waits a p of Next p' \<Rightarrow> pool_run waiter closer n waits as p' | r \<Rightarrow> r)"

interpretation pool_runs: guarded_runs "pool_exec waiter closer n waits" "pool_run waiter closer n waits" for waiter closer n waits
  by unfold_locales simp_all

definition pool_start :: "'d pool_sys" where
  "pool_start = \<lparr>ps_sys = (\<lambda>_. new_sys 0), ps_builder = (\<lambda>_. None)\<rparr>"

section \<open>The invariant\<close>

text \<open>
  Each dialer keeps its own invariant, has a builder exactly while it is connecting, a builder waits for a dialer that it may dial, and
  the sleepers of a dialer include the builders that wait for it.
\<close>

definition pool_inv :: "nat \<Rightarrow> (nat \<Rightarrow> nat list) \<Rightarrow> 'd pool_sys \<Rightarrow> bool" where
  "pool_inv n waits p \<longleftrightarrow> (\<forall>i < n. lazy_inv (ps_sys p i) \<and>
     (ps_builder p i \<noteq> None \<longleftrightarrow> lz_state (y_lz (ps_sys p i)) = Connecting) \<and>
     (\<forall>j. ps_builder p i = Some (Waiting j) \<longrightarrow> j \<in> set (waits i) \<and> j < n) \<and>
     builders_in n i p \<le> y_sleep (ps_sys p i) + y_awake (ps_sys p i))"

lemma pool_inv_start: "pool_inv n waits pool_start"
  by (simp add: pool_inv_def pool_start_def lazy_inv_start builders_in_def) (simp add: new_sys_def new_lazy_def)

lemma put_fields [simp]:
  "ps_sys (put_sys i y p) = (ps_sys p)(i := y)" "ps_builder (put_sys i y p) = ps_builder p"
  "ps_sys (put_builder i b p) = ps_sys p" "ps_builder (put_builder i b p) = (ps_builder p)(i := b)"
  by (simp_all add: put_sys_def put_builder_def)

lemma builders_in_put_sys [simp]: "builders_in n j (put_sys i y p) = builders_in n j p"
  by (simp add: builders_in_def)

lemma builders_in_put:
  assumes "i < n"
  shows "builders_in n j (put_builder i b p) + (if ps_builder p i = Some (Waiting j) then 1 else 0) =
    builders_in n j p + (if b = Some (Waiting j) then 1 else 0)"
proof -
  have split: "[0..<n] = [0..<i] @ i # [Suc i..<n]"
    using assms by (metis le_add1 less_imp_add_positive plus_1_eq_Suc upt_add_eq_append upt_conv_Cons add.commute less_iff_Suc_add zero_le)
  have "filter (\<lambda>k. ((ps_builder p)(i := b)) k = Some (Waiting j)) xs = filter (\<lambda>k. ps_builder p k = Some (Waiting j)) xs" if "i \<notin> set xs" for xs
    using that by (intro filter_cong) auto
  then show ?thesis unfolding builders_in_def split by simp
qed

text \<open>What one step of a dialer may do to its sleepers: only a wake-up takes one away, only a round of a caller adds one.\<close>

lemma sleepers_kept:
  "lazy_exec waiter closer a y = Next y' \<Longrightarrow> \<forall>r. a \<noteq> Wake r \<Longrightarrow> y_sleep y + y_awake y \<le> y_sleep y' + y_awake y'"
  by (cases a)
    (auto simp: lazy_dial_def lazy_conn_done_def lazy_close_def lazy_reset_def lazy_init_start_def lazy_init_done_def
      lazy_init_ok_def lazy_init_fail_def lazy_register_def lazy_waiter_def lazy_after_def lazy_timer_def lazy_wait_def lazy_effects Let_def
      split: conn_state.splits option.splits if_splits init_pc.splits sum.splits)

text \<open>Only the start of \<open>init\<close> and the end of \<open>d.new\<close> enter and leave the state in which a dialer is built.\<close>

lemma connecting_kept:
  assumes "lazy_inv y" and "lazy_exec waiter closer a y = Next y'" and "\<forall>k. a \<noteq> InitStart k" and "\<forall>k r. a \<noteq> InitDone k r"
  shows "lz_state (y_lz y') = Connecting \<longleftrightarrow> lz_state (y_lz y) = Connecting"
  using assms
  by (cases a)
    (auto simp: lazy_inv_def lazy_dial_def lazy_conn_done_def lazy_close_def lazy_reset_def
      lazy_register_def lazy_waiter_def lazy_after_def lazy_timer_def lazy_wait_def lazy_effects Let_def
      split: conn_state.splits option.splits if_splits)

lemma dial_round:
  "lazy_dial r y = Next y' \<Longrightarrow> y_awake y' = y_awake y \<and> y_sleep y' = y_sleep y + (if y_sleep y < y_sleep y' then 1 else 0)"
  by (auto simp: lazy_dial_def Let_def split: conn_state.splits option.splits if_splits)

lemma wake_round:
  assumes "lazy_exec waiter closer (Wake r) y = Next y'"
  shows "y_sleep y' + y_awake y' + 1 = y_sleep y + y_awake y + (if y_sleep y < y_sleep y' then 1 else 0)"
proof -
  have "0 < y_awake y" "lazy_dial r (y\<lparr>y_awake := y_awake y - 1\<rparr>) = Next y'" using assms by (auto split: if_splits)
  with dial_round [OF this(2)] show ?thesis by auto
qed

lemma pool_invD:
  assumes "pool_inv n waits p" and "i < n"
  shows "lazy_inv (ps_sys p i)" and "ps_builder p i \<noteq> None \<longleftrightarrow> lz_state (y_lz (ps_sys p i)) = Connecting"
    and "ps_builder p i = Some (Waiting j) \<Longrightarrow> j \<in> set (waits i) \<and> j < n"
    and "builders_in n i p \<le> y_sleep (ps_sys p i) + y_awake (ps_sys p i)"
  using assms by (auto simp: pool_inv_def)

lemma lazy_exec_inv: "lazy_inv y \<Longrightarrow> lazy_exec waiter closer a y = Next y' \<Longrightarrow> lazy_inv y'"
  using lazy_exec_safe [of y waiter closer a] by (simp add: safe_step_def)

text \<open>A step of dialer \<open>j\<close> by itself, or by the builder of \<open>i\<close>, keeps the invariant.\<close>

lemma pool_inv_sys:
  assumes "pool_inv n waits p" and "lazy_inv y" and "lz_state (y_lz y) = Connecting \<longleftrightarrow> lz_state (y_lz (ps_sys p j)) = Connecting"
    and "builders_in n j p \<le> y_sleep y + y_awake y"
  shows "pool_inv n waits (put_sys j y p)"
  using assms by (auto simp: pool_inv_def)

lemma pool_inv_own:
  assumes "pool_inv n waits p" and "j < n" and "lazy_inv y" and "b \<noteq> None \<longleftrightarrow> lz_state (y_lz y) = Connecting"
    and "y_sleep (ps_sys p j) + y_awake (ps_sys p j) \<le> y_sleep y + y_awake y" and "\<forall>k. b \<noteq> Some (Waiting k)"
  shows "pool_inv n waits (put_builder j b (put_sys j y p))"
proof -
  have "builders_in n k (put_builder j b (put_sys j y p)) \<le> builders_in n k p" for k
    using builders_in_put [OF assms(2), of k b "put_sys j y p"] assms(6) by simp
  then have "builders_in n k (put_builder j b (put_sys j y p)) \<le> y_sleep (((ps_sys p)(j := y)) k) + y_awake (((ps_sys p)(j := y)) k)"
    if "k < n" for k
    using pool_invD(4) [OF assms(1) that] assms(5) by (cases "k = j") (simp_all, (meson le_trans)+)
  then show ?thesis using assms(1-4,6) by (auto simp: pool_inv_def)
qed

lemma pool_inv_round:
  assumes "pool_inv n waits p" and "i < n" and "lazy_inv y" and "lz_state (y_lz y) = Connecting \<longleftrightarrow> lz_state (y_lz (ps_sys p j)) = Connecting"
    and "ps_builder p i \<noteq> None" and "j \<in> set (waits i)" and "j < n"
    and "builders_in n j (put_builder i b p) \<le> y_sleep y + y_awake y" and "b = Some (Waiting j) \<or> b = Some Running"
  shows "pool_inv n waits (put_builder i b (put_sys j y p))"
proof -
  have same: "builders_in n k (put_builder i b (put_sys j y p)) = builders_in n k (put_builder i b p)" for k by (simp add: builders_in_def)
  have "builders_in n k (put_builder i b p) \<le> builders_in n k p" if "k \<noteq> j" for k
    using builders_in_put [OF assms(2), of k b p] assms(9) that by auto
  then have "builders_in n k (put_builder i b (put_sys j y p)) \<le> y_sleep (((ps_sys p)(j := y)) k) + y_awake (((ps_sys p)(j := y)) k)"
    if "k < n" for k
    using pool_invD(4) [OF assms(1) that] assms(8) unfolding same by (cases "k = j") (simp_all, meson le_trans)
  then show ?thesis using assms(1-7,9) by (auto simp: pool_inv_def)
qed

text \<open>No step panics, and every step keeps the invariant.\<close>

lemma step_at_Next: "step_at i r f p = Next p' \<longleftrightarrow> (\<exists>y. r = Next y \<and> p' = f y (put_sys i y p))"
  by (auto simp: step_at_def split: outcome.splits)

lemma step_at_no_panic: "lazy_inv y \<Longrightarrow> step_at i (lazy_exec waiter closer a y) f p \<noteq> Panic"
  using lazy_exec_safe [of y waiter closer a] by (auto simp: step_at_def safe_step_def split: outcome.splits)

lemma pool_no_panic:
  assumes "pool_inv n waits p"
  shows "pool_exec waiter closer n waits a p \<noteq> Panic"
proof -
  have q: "step_at i (lazy_exec waiter closer b (ps_sys p i)) f p \<noteq> Panic" if "i < n" for i b f
    by (rule step_at_no_panic [OF pool_invD(1) [OF assms that]])
  show ?thesis
  proof (cases a)
    case (At i b)
    then show ?thesis using q [of i b] by (cases b) (simp_all add: Let_def del: lazy_exec.simps)
  next
    case (BuildWake i r)
    then show ?thesis using q pool_invD(3) [OF assms]
      by (auto simp del: lazy_exec.simps split: option.split builder.split)
  qed simp_all
qed

lemma init_start_state: "lazy_inv y \<Longrightarrow> lazy_exec waiter closer (InitStart k) y = Next y' \<Longrightarrow> lz_state (y_lz y') = Connecting"
  by (auto simp: lazy_init_start_def Let_def split: if_splits)

lemma init_done_state:
  "lazy_exec waiter closer (InitDone k r) y = Next y' \<Longrightarrow> lz_state (y_lz y') = (case r of Inl _ \<Rightarrow> Failed | Inr _ \<Rightarrow> Online)"
  by (auto simp: lazy_init_done_def lazy_init_fail_def lazy_init_ok_def Let_def go_down_def
      split: if_splits option.splits init_pc.splits sum.splits)

lemma pool_inv_at:
  assumes "pool_inv n waits p" and "pool_exec waiter closer n waits (At i a) p = Next p'"
  shows "pool_inv n waits p'"
proof -
  have i: "i < n" using assms(2) by (simp split: if_splits)
  note own = pool_invD [OF assms(1) i]
  consider k where "a = InitStart k" | k r where "a = InitDone k r" | r where "a = Wake r"
    | "\<forall>k. a \<noteq> InitStart k" "\<forall>k r. a \<noteq> InitDone k r" "\<forall>r. a \<noteq> Wake r"
    by blast
  then show ?thesis
  proof cases
    case (1 k)
    then obtain y where y: "lazy_exec waiter closer a (ps_sys p i) = Next y" "p' = put_builder i (Some Running) (put_sys i y p)"
      using assms(2) i by (auto simp: Let_def step_at_Next simp del: lazy_exec.simps)
    show ?thesis unfolding y(2)
      using sleepers_kept [OF y(1)] lazy_exec_inv [OF own(1) y(1)] init_start_state [OF own(1)] y(1) 1
      by (intro pool_inv_own [OF assms(1) i]) auto
  next
    case (2 k r)
    then obtain y where y: "lazy_exec waiter closer a (ps_sys p i) = Next y" "p' = put_builder i None (put_sys i y p)"
      using assms(2) i by (auto simp: Let_def step_at_Next simp del: lazy_exec.simps split: if_splits)
    have "lz_state (y_lz y) \<noteq> Connecting" using init_done_state y(1) 2 by (cases r) fastforce+
    then show ?thesis unfolding y(2)
      using sleepers_kept [OF y(1)] lazy_exec_inv [OF own(1) y(1)] 2
      by (intro pool_inv_own [OF assms(1) i]) auto
  next
    case (3 r)
    then obtain y where y: "lazy_exec waiter closer (Wake r) (ps_sys p i) = Next y" "p' = put_sys i y p"
      and g: "builders_in n i p < y_sleep (ps_sys p i) + y_awake (ps_sys p i)"
      using assms(2) i by (auto simp: Let_def step_at_Next simp del: lazy_exec.simps split: if_splits)
    show ?thesis unfolding y(2)
      using lazy_exec_inv [OF own(1) y(1)] connecting_kept [OF own(1) y(1)] wake_round [OF y(1)] g
      by (intro pool_inv_sys [OF assms(1)]) (auto split: if_splits)
  next
    case 4
    then obtain y where y: "lazy_exec waiter closer a (ps_sys p i) = Next y" "p' = put_sys i y p"
      using assms(2) i by (cases a) (auto simp: Let_def step_at_Next simp del: lazy_exec.simps)
    show ?thesis unfolding y(2)
      using lazy_exec_inv [OF own(1) y(1)] connecting_kept [OF own(1) y(1)] sleepers_kept [OF y(1)] own(4) 4
      by (intro pool_inv_sys [OF assms(1)]) auto
  qed
qed

lemma pool_inv_exec:
  assumes "pool_inv n waits p" and "pool_exec waiter closer n waits a p = Next p'"
  shows "pool_inv n waits p'"
proof (cases a)
  case (At i b)
  then show ?thesis using assms pool_inv_at by blast
next
  case (Call i)
  then have i: "i < n" and p': "p' = put_sys i (enter (ps_sys p i)) p" using assms(2) by (auto split: if_splits)
  show ?thesis unfolding p' using pool_invD [OF assms(1) i] by (intro pool_inv_sys [OF assms(1)]) (simp_all add: enter_def)
next
  case (BuildDial i j)
  then have g: "i < n" "j < n" "ps_builder p i = Some Running" "j \<in> set (waits i)"
    and p': "p' = put_builder i (Some (Waiting j)) (put_sys j (enter (ps_sys p j)) p)"
    using assms(2) by (auto split: if_splits)
  note own = pool_invD [OF assms(1) g(2)]
  show ?thesis unfolding p'
    using own(1,4) g builders_in_put [OF g(1), of j "Some (Waiting j)" p]
    by (intro pool_inv_round [OF assms(1)]) (auto simp: enter_def)
next
  case (BuildWake i r)
  then obtain j where j: "ps_builder p i = Some (Waiting j)" "i < n"
    using assms(2) by (auto split: option.splits builder.splits if_splits)
  define b where "b y = Some (if y_sleep (ps_sys p j) < y_sleep y then Waiting j else Running)" for y :: "'a sys"
  obtain y where y: "lazy_exec waiter closer (Wake r) (ps_sys p j) = Next y" "p' = put_builder i (b y) (put_sys j y p)"
    using assms(2) BuildWake j by (auto simp: step_at_Next after_round_def b_def simp del: lazy_exec.simps)
  have jn: "j \<in> set (waits i)" "j < n" using pool_invD(3) [OF assms(1) j(2,1)] by simp_all
  note own = pool_invD [OF assms(1) jn(2)]
  have "builders_in n j (put_builder i (b y) p) \<le> y_sleep y + y_awake y"
    using wake_round [OF y(1)] builders_in_put [OF j(2), of j "b y" p] own(4) j(1)
    by (auto simp: b_def split: if_splits)
  then show ?thesis unfolding y(2)
    using lazy_exec_inv [OF own(1) y(1)] connecting_kept [OF own(1) y(1)] j jn
    by (intro pool_inv_round [OF assms(1)]) (auto simp: b_def)
qed

section \<open>What is left to do\<close>

text \<open>
  The steps that finish what was begun: a goroutine takes the lock for \<open>init\<close>, \<open>d.new\<close> returns, a caller goes round its loop, a
  connection ends, a waiting \<open>Reset\<close> gets the lock, the callback on the context's end runs. Every such step leaves less to do, whatever
  \<open>d.new\<close> returned.
\<close>

fun finishing :: "'d pool_act \<Rightarrow> bool" where
  "finishing (At i (InitStart k)) = True"
| "finishing (At i (InitDone k r)) = True"
| "finishing (At i (Wake r)) = True"
| "finishing (At i (ConnDone k)) = True"
| "finishing (At i ResetGo) = True"
| "finishing (At i (AfterRun k)) = True"
| "finishing (BuildWake i r) = True"
| "finishing _ = False"

text \<open>How many changes of the state may follow; a context that was cancelled takes the dialer offline once more.\<close>

definition lost_ctx :: "'d sys \<Rightarrow> bool" where
  "lost_ctx y = (case lz_ctx (y_lz y) of Some c \<Rightarrow> y_causes y ! c \<noteq> None | None \<Rightarrow> False)"

definition phases :: "'d sys \<Rightarrow> nat" where
  "phases y = (case lz_state (y_lz y) of
     Offline \<Rightarrow> 2 | Connecting \<Rightarrow> (if lost_ctx y then 4 else 1) | Online \<Rightarrow> (if lost_ctx y then 3 else 0) | Failed \<Rightarrow> 0)"

definition work_of :: "nat \<Rightarrow> 'd sys \<Rightarrow> nat" where
  "work_of k y = k + (2 * k + 1) * y_sleep y + (2 * k + 2) * y_awake y + length (y_conns y) + (if y_pend y = None then 0 else 1)"

definition work :: "'d sys \<Rightarrow> nat" where
  "work y = work_of (phases y) y"

definition pool_work :: "nat \<Rightarrow> 'd pool_sys \<Rightarrow> nat" where
  "pool_work n p = (\<Sum>i<n. work (ps_sys p i))"

text \<open>Nobody is building a dialer, waits for one or for a lock.\<close>

definition all_served :: "nat \<Rightarrow> 'd pool_sys \<Rightarrow> bool" where
  "all_served n p \<longleftrightarrow> (\<forall>i < n. ps_builder p i = None \<and> y_sleep (ps_sys p i) = 0 \<and> y_awake (ps_sys p i) = 0 \<and>
     y_pend (ps_sys p i) = None)"

lemma phases_cong: "y_lz y' = y_lz y \<Longrightarrow> y_causes y' = y_causes y \<Longrightarrow> phases y' = phases y"
  by (simp add: phases_def lost_ctx_def cong: option.case_cong)

lemma work_wake:
  assumes "lazy_inv y" and "lazy_exec waiter closer (Wake r) y = Next y'"
  shows "work y' < work y"
proof -
  obtain a where a: "y_awake y = Suc a" "y_awake y' = a" and p: "y_pend y = None" "y_pend y' = None"
    and k: "phases y' = phases y"
    and s: "y_sleep y' = y_sleep y + 1 \<and> y_conns y' = y_conns y \<or> y_sleep y' = y_sleep y \<and> length (y_conns y') \<le> length (y_conns y) + 1"
    using assms
    by (cases "lz_state (y_lz y)"; cases "y_awake y")
      (auto simp: lazy_inv_def lazy_dial_def phases_def lost_ctx_def Let_def split: if_splits)
  then show ?thesis by (auto simp: work_def work_of_def k p a)
qed

lemma work_conn_done: "lazy_inv y \<Longrightarrow> lazy_exec waiter closer (ConnDone k) y = Next y' \<Longrightarrow> work y' < work y"
proof -
  assume "lazy_inv y" "lazy_exec waiter closer (ConnDone k) y = Next y'"
  then have k: "k < length (y_conns y)" and y': "y' = y\<lparr>y_conns := remove_at k (y_conns y)\<rparr>"
    by (auto simp: lazy_inv_def lazy_conn_done_def Let_def split: if_splits)
  then have "phases y' = phases y" by (intro phases_cong) simp_all
  then show ?thesis using k by (simp add: work_def work_of_def y' remove_at_def)
qed

lemma work_reset_go:
  assumes "lazy_inv y" and "lazy_exec waiter closer ResetGo y = Next y'"
  shows "work y' < work y"
proof -
  have "lz_state (y_lz y) = Online" "y_pend y \<noteq> None" "y' = y\<lparr>y_pend := None\<rparr>"
    using assms
    by (cases "lz_state (y_lz y)"; auto simp: lazy_inv_def lazy_reset_def reset_locked_def Let_def split: if_splits)+
  moreover have "phases (y\<lparr>y_pend := None\<rparr>) = phases y" by (rule phases_cong) simp_all
  ultimately show ?thesis by (simp add: work_def work_of_def)
qed

lemma work_down:
  assumes "k' < k" and "y_sleep y' = 0" and "y_awake y' = y_awake y + y_sleep y" and "y_conns y' = y_conns y" and "y_pend y' = None"
  shows "work_of k' y' < work_of k y"
proof -
  have "(2 * k' + 2) * (y_awake y + y_sleep y) \<le> 2 * k * (y_awake y + y_sleep y)"
    using assms(1) by (intro mult_le_mono1) simp
  then show ?thesis using assms unfolding work_of_def by (simp add: algebra_simps)
qed

lemma phases_after:
  assumes "lazy_inv y" and "lazy_exec waiter closer (AfterRun k) y = Next y'"
  shows "phases y' < phases y"
proof -
  have a: "lazy_after closer k y = Next y'" using assms(2) by simp
  then have "lz_state (y_lz y) = Online" "lost_ctx y" using after_online [OF assms(1), of closer k] by (auto simp: lost_ctx_def)
  moreover have "lz_state (y_lz y') = Offline" using a by (auto simp: lazy_after_def lazy_effects Let_def split: if_splits option.splits)
  ultimately show ?thesis by (simp add: phases_def)
qed

lemma phases_init_start:
  assumes "lazy_inv y" and "lazy_exec waiter closer (InitStart k) y = Next y'"
  shows "phases y' < phases y"
proof -
  have "lz_state (y_lz y) = Offline" using assms
    by (cases "lz_state (y_lz y)") (auto simp: lazy_inv_def lazy_init_start_def Let_def nth_Cons' split: if_splits)
  moreover have "lz_state (y_lz y') = Connecting" "\<not> lost_ctx y'"
    using assms(2) by (auto simp: lazy_init_start_def lost_ctx_def broadcast_def Let_def split: if_splits)
  ultimately show ?thesis by (simp add: phases_def)
qed

lemma phases_init_done:
  assumes "lazy_inv y" and "lazy_exec waiter closer (InitDone k r) y = Next y'"
  shows "phases y' < phases y"
proof -
  have k: "k < length (y_inits y)" and c: "\<exists>c. y_inits y ! k = PNew c" using assms(2) by (auto simp: lazy_init_done_def Let_def split: if_splits init_pc.splits)
  then have s: "lz_state (y_lz y) = Connecting" using new_connecting [OF assms(1) k] by blast
  have "lz_state (y_lz y') = Failed \<or> lz_state (y_lz y') = Online \<and> lost_ctx y' = lost_ctx y"
    using assms(2) c k
    by (cases r) (auto simp: lazy_init_done_def lazy_init_fail_def lazy_init_ok_def lost_ctx_def lazy_effects Let_def split: if_splits option.splits)
  with s show ?thesis by (auto simp: phases_def)
qed

lemma work_broadcast:
  assumes "lazy_inv y" and "lazy_exec waiter closer b y = Next y'" and "b \<in> range InitStart \<union> range AfterRun \<union> {b. \<exists>k r. b = InitDone k r}"
  shows "work y' < work y"
proof -
  have b: "y_sleep y' = 0 \<and> y_awake y' = y_awake y + y_sleep y \<and> y_conns y' = y_conns y \<and> y_pend y' = None"
    using assms(2,3)
    by (auto simp: lazy_init_start_def lazy_init_done_def lazy_init_ok_def lazy_init_fail_def lazy_after_def lazy_effects
        Let_def split: if_splits option.splits init_pc.splits sum.splits)
  have "phases y' < phases y" using assms(3) phases_after phases_init_start phases_init_done assms(1,2) by blast
  with b show ?thesis unfolding work_def by (intro work_down) auto
qed

lemma work_less:
  assumes "lazy_inv y" and "finishing (At i b)" and "lazy_exec waiter closer b y = Next y'"
  shows "work y' < work y"
  using assms(2) work_wake work_conn_done work_reset_go work_broadcast [of y waiter closer b y'] assms(1,3)
  by (cases b) (auto simp del: lazy_exec.simps)

lemma pool_work_put:
  assumes "i < n" and "work y < work (ps_sys p i)" and "ps_sys p' = (ps_sys p)(i := y)"
  shows "pool_work n p' < pool_work n p"
  unfolding pool_work_def using assms by (intro sum_strict_mono_ex1) auto

lemma pool_work_step:
  assumes "pool_inv n waits p" and "i < n" and "lazy_exec waiter closer b (ps_sys p i) = Next y" and "ps_sys p' = (ps_sys p)(i := y)"
    and "finishing (At i b)"
  shows "pool_work n p' < pool_work n p"
  by (rule pool_work_put [OF assms(2) work_less [OF pool_invD(1) [OF assms(1,2)] assms(5,3)] assms(4)])

lemma pool_work_less:
  assumes "pool_inv n waits p" and "finishing a" and "pool_exec waiter closer n waits a p = Next p'"
  shows "pool_work n p' < pool_work n p"
proof (cases a)
  case (At i b)
  then have i: "i < n" using assms(3) by (simp split: if_splits)
  obtain y where "lazy_exec waiter closer b (ps_sys p i) = Next y" "ps_sys p' = (ps_sys p)(i := y)"
    using assms(3) At i by (cases b) (auto simp: Let_def step_at_Next simp del: lazy_exec.simps split: if_splits)
  then show ?thesis using pool_work_step [OF assms(1) i] assms(2) At by blast
next
  case (BuildWake i r)
  then obtain j y where "i < n" "ps_builder p i = Some (Waiting j)" "lazy_exec waiter closer (Wake r) (ps_sys p j) = Next y"
      "ps_sys p' = (ps_sys p)(j := y)"
    using assms(3) by (auto simp: step_at_Next after_round_def simp del: lazy_exec.simps split: if_splits option.splits builder.splits)
  then show ?thesis using pool_work_step [OF assms(1), where b = "Wake r"] pool_invD(3) [OF assms(1)] by fastforce
qed (use assms(2) in simp_all)

lemma pool_work_run:
  "pool_inv n waits p \<Longrightarrow> list_all finishing as \<Longrightarrow> pool_run waiter closer n waits as p = Next p' \<Longrightarrow>
    length as + pool_work n p' \<le> pool_work n p"
proof (induction "as" arbitrary: p)
  case (Cons a as)
  then obtain p1 where p1: "pool_exec waiter closer n waits a p = Next p1" "pool_run waiter closer n waits as p1 = Next p'"
    by (auto split: outcome.splits)
  from Cons.IH [OF pool_inv_exec [OF Cons.prems(1) p1(1)] _ p1(2)] pool_work_less [OF Cons.prems(1) _ p1(1)] Cons.prems(2)
  show ?case by simp
qed simp

section \<open>Something can always be finished\<close>

definition goes_on :: "('d \<Rightarrow> bool) \<Rightarrow> ('d \<Rightarrow> bool) \<Rightarrow> nat \<Rightarrow> (nat \<Rightarrow> nat list) \<Rightarrow> 'd pool_sys \<Rightarrow> bool" where
  "goes_on waiter closer n waits p \<longleftrightarrow> (\<exists>a p'. finishing a \<and> pool_exec waiter closer n waits a p = Next p')"

text \<open>A step of dialer \<open>j\<close> that needs no builder.\<close>

lemma goes_on_at:
  assumes "j < n" and "lazy_exec waiter closer a (ps_sys p j) = Next y" and "finishing (At j a)"
    and "\<forall>k r. a \<noteq> InitDone k r" and "\<forall>r. a = Wake r \<longrightarrow> builders_in n j p < y_sleep (ps_sys p j) + y_awake (ps_sys p j)"
  shows "goes_on waiter closer n waits p"
proof -
  have "\<exists>p'. pool_exec waiter closer n waits (At j a) p = Next p'"
    using assms by (cases a) (auto simp: step_at_Next Let_def simp del: lazy_exec.simps)
  with assms(3) show ?thesis by (auto simp: goes_on_def)
qed

text \<open>Behind a waiting writer a connection can end, or the writer gets the lock.\<close>

lemma pending_goes_on:
  assumes "pool_inv n waits p" and "j < n" and "y_pend (ps_sys p j) \<noteq> None"
  shows "goes_on waiter closer n waits p"
proof -
  have inv: "lazy_inv (ps_sys p j)" using pool_invD(1) [OF assms(1,2)] .
  have "\<exists>a y. a \<in> {ConnDone 0, ResetGo, AfterRun 0} \<and> lazy_exec waiter closer a (ps_sys p j) = Next y"
  proof (cases "y_conns (ps_sys p j) = []")
    case True
    then show ?thesis using inv assms(3)
      by (cases "lz_state (y_lz (ps_sys p j))")
        (auto simp: lazy_inv_def lazy_reset_def lazy_after_def lock_free_def Let_def)
  next
    case False
    then have "\<exists>y. lazy_exec waiter closer (ConnDone 0) (ps_sys p j) = Next y"
      using inv by (auto simp: lazy_inv_def lazy_conn_done_def Let_def)
    then show ?thesis by blast
  qed
  then obtain a y where "a \<in> {ConnDone 0, ResetGo, AfterRun 0}" "lazy_exec waiter closer a (ps_sys p j) = Next y" by blast
  then show ?thesis by (intro goes_on_at [OF assms(2)]) auto
qed

text \<open>A sleeper has somebody who starts the building, a woken one of the builders' or of the callers' can go on.\<close>

lemma waiting_goes_on:
  assumes "pool_inv n waits p" and "j < n" and "ps_builder p j = None" and "0 < y_sleep (ps_sys p j) + y_awake (ps_sys p j)"
  shows "goes_on waiter closer n waits p"
proof (cases "y_awake (ps_sys p j) = 0 \<or> y_pend (ps_sys p j) \<noteq> None")
  case True
  note own = pool_invD [OF assms(1,2)]
  have "\<exists>y. lazy_exec waiter closer (InitStart 0) (ps_sys p j) = Next y" if "y_pend (ps_sys p j) = None"
    using that True assms(3,4) own(1,2)
    by (cases "lz_state (y_lz (ps_sys p j))") (auto simp: lazy_inv_def lazy_init_start_def lock_free_def Let_def)
  then show ?thesis
    using pending_goes_on [OF assms(1,2), of waiter closer] goes_on_at [OF assms(2), of waiter closer "InitStart 0" p] by fastforce
next
  case awake: False
  note own = pool_invD [OF assms(1,2)]
  have w: "\<exists>y. lazy_exec waiter closer (Wake r) (ps_sys p j) = Next y" for r
    using awake own(1) by (cases "lz_state (y_lz (ps_sys p j))") (auto simp: lazy_inv_def lazy_dial_def Let_def)
  show ?thesis
  proof (cases "\<exists>i < n. ps_builder p i = Some (Waiting j)")
    case True
    then obtain i where "i < n" "ps_builder p i = Some (Waiting j)" by blast
    with w [of "(None, None)"] have "\<exists>p'. pool_exec waiter closer n waits (BuildWake i (None, None)) p = Next p'"
      by (auto simp: step_at_Next simp del: lazy_exec.simps)
    then show ?thesis unfolding goes_on_def by (intro exI [of _ "BuildWake i (None, None)"]) simp
  next
    case False
    then have "builders_in n j p = 0" by (auto simp: builders_in_def filter_empty_conv)
    with w [of "(None, None)"] awake show ?thesis
      by (auto intro!: goes_on_at [OF assms(2), of _ _ "Wake (None, None)"] simp del: lazy_exec.simps)
  qed
qed

lemma builder_returns:
  assumes "pool_inv n waits p" and "i < n" and "ps_builder p i = Some Running"
  shows "\<exists>p'. pool_exec waiter closer n waits (At i (InitDone 0 r)) p = Next p'"
proof -
  have "\<exists>y. lazy_exec waiter closer (InitDone 0 r) (ps_sys p i) = Next y"
    using pool_invD(1,2) [OF assms(1,2)] assms(3)
    by (cases r) (auto simp: lazy_inv_def lazy_init_done_def lazy_init_fail_def lazy_init_ok_def lock_free_def Let_def)
  then show ?thesis using assms(2,3) by (auto simp: step_at_Next Let_def simp del: lazy_exec.simps)
qed

text \<open>The builder of least rank does not wait for another builder.\<close>

lemma pool_goes_on:
  assumes inv: "pool_inv n waits p" and ranks: "\<forall>i < n. \<forall>j \<in> set (waits i). rank j < (rank i :: nat)" and "\<not> all_served n p"
  shows "goes_on waiter closer n waits p"
proof (cases "\<exists>i < n. ps_builder p i \<noteq> None")
  case True
  then obtain i where i: "i < n" "ps_builder p i \<noteq> None" "\<And>j. j < n \<Longrightarrow> ps_builder p j \<noteq> None \<Longrightarrow> rank i \<le> rank j"
    using ex_has_least_nat [of "\<lambda>i. i < n \<and> ps_builder p i \<noteq> None" _ rank] by blast
  then consider "ps_builder p i = Some Running" | j where "ps_builder p i = Some (Waiting j)"
    by (cases "the (ps_builder p i)") auto
  then show ?thesis
  proof cases
    case 1
    then obtain p' where "pool_exec waiter closer n waits (At i (InitDone 0 (Inl ErrCloseRequested))) p = Next p'"
      using builder_returns [OF inv i(1)] by blast
    then show ?thesis unfolding goes_on_def by (intro exI [of _ "At i (InitDone 0 (Inl ErrCloseRequested))"]) simp
  next
    case (2 j)
    then have j: "j < n" "rank j < rank i" using pool_invD(3) [OF inv i(1)] ranks i(1) by auto
    with i(3) [of j] have "ps_builder p j = None" by fastforce
    moreover have "0 < builders_in n j p" using 2 i(1) by (auto simp: builders_in_def filter_empty_conv)
    then have "0 < y_sleep (ps_sys p j) + y_awake (ps_sys p j)" using pool_invD(4) [OF inv j(1)] by linarith
    ultimately show ?thesis by (intro waiting_goes_on [OF inv j(1)])
  qed
next
  case False
  with assms(3) obtain j where j: "j < n" "ps_builder p j = None"
    "0 < y_sleep (ps_sys p j) + y_awake (ps_sys p j) \<or> y_pend (ps_sys p j) \<noteq> None"
    by (auto simp: all_served_def)
  from j(3) show ?thesis by (elim disjE waiting_goes_on [OF inv j(1,2)] pending_goes_on [OF inv j(1)])
qed

text \<open>
  When the dialers can be ranked above those that their builders dial through, the steps that finish what was begun are bounded in
  number, in any order, and do not run out before everybody is served.
\<close>

lemma pool_finishes:
  assumes "\<forall>i < n. \<forall>j \<in> set (waits i). rank j < (rank i :: nat)"
  shows "case pool_run waiter closer n waits as pool_start of
      Next p \<Rightarrow> (\<forall>bs q. list_all finishing bs \<longrightarrow> pool_run waiter closer n waits bs p = Next q \<longrightarrow>
        length bs \<le> pool_work n p \<and> (all_served n q \<or> (\<exists>b q'. finishing b \<and> pool_exec waiter closer n waits b q = Next q')))
    | Panic \<Rightarrow> False | Blocked \<Rightarrow> True"
proof (cases "pool_run waiter closer n waits as pool_start")
  have keeps: "pool_inv n waits q" if "pool_inv n waits p" "pool_run waiter closer n waits bs p = Next q" for p q bs
    by (rule pool_runs.run_keeps [where A = UNIV and J = "pool_inv n waits", OF _ _ that]) (auto intro: pool_inv_exec)
  case (Next p)
  then have "pool_inv n waits p" using keeps pool_inv_start by blast
  then have "length bs \<le> pool_work n p \<and> (all_served n q \<or> (\<exists>b q'. finishing b \<and> pool_exec waiter closer n waits b q = Next q'))"
    if "list_all finishing bs" "pool_run waiter closer n waits bs p = Next q" for bs q
    using pool_work_run [OF _ that] pool_goes_on [OF keeps [OF _ that(2)] assms, unfolded goes_on_def] by (meson add_leD1)
  then show ?thesis using Next by simp
next
  case Panic
  moreover have "pool_run waiter closer n waits as pool_start \<noteq> Panic"
    by (rule pool_runs.run_no_panic [where J = "pool_inv n waits"]) (auto intro: pool_inv_exec pool_inv_start simp: pool_no_panic)
  ultimately show ?thesis by simp
qed simp

text \<open>Two lazy dialers that are built through each other wait for ever: neither builder returns and no step can be taken for them.\<close>

definition each_other :: "nat \<Rightarrow> nat list" where
  "each_other i = [1 - i]"

lemma lazy_cycle_sticks:
  "\<exists>p :: 'd pool_sys. pool_run waiter closer 2 each_other
      [Call 0, At 0 (Wake r), At 0 (InitStart 0), Call 1, At 1 (Wake r), At 1 (InitStart 0), At 0 (Wake r), At 1 (Wake r),
        BuildDial 0 1, BuildWake 0 r, BuildDial 1 0, BuildWake 1 r] pool_start = Next p \<and>
    \<not> all_served 2 p \<and> (\<forall>a. finishing a \<longrightarrow> pool_exec waiter closer 2 each_other a p = Blocked)"
proof -
  define p :: "'d pool_sys" where "p = (case pool_run waiter closer 2 each_other
      [Call 0, At 0 (Wake r), At 0 (InitStart 0), Call 1, At 1 (Wake r), At 1 (InitStart 0), At 0 (Wake r), At 1 (Wake r),
        BuildDial 0 1, BuildWake 0 r, BuildDial 1 0, BuildWake 1 r] pool_start of
      Next p \<Rightarrow> p | _ \<Rightarrow> pool_start)"
  note run = pool_start_def enter_def new_sys_def new_lazy_def lazy_dial_def lazy_init_start_def lazy_effects Let_def
    step_at_def after_round_def put_sys_def put_builder_def builders_in_def each_other_def upt_rec
  have p: "pool_run waiter closer 2 each_other
      [Call 0, At 0 (Wake r), At 0 (InitStart 0), Call 1, At 1 (Wake r), At 1 (InitStart 0), At 0 (Wake r), At 1 (Wake r),
        BuildDial 0 1, BuildWake 0 r, BuildDial 1 0, BuildWake 1 r] pool_start = Next p"
    unfolding p_def by (simp add: run)
  have b: "ps_builder p i = Some (Waiting (1 - i)) \<and> y_awake (ps_sys p i) = 0 \<and> y_inits (ps_sys p i) = [PNew 0] \<and>
    y_conns (ps_sys p i) = [] \<and> y_afters (ps_sys p i) = [] \<and> y_pend (ps_sys p i) = None" if "i < 2" for i
    using that unfolding less_2_cases_iff p_def by (elim disjE) (simp_all add: run)
  have "pool_exec waiter closer 2 each_other a p = Blocked" if "finishing a" for a
    using that b by (cases a rule: finishing.cases) (auto simp: Let_def step_at_def lazy_init_start_def lazy_conn_done_def lazy_after_def nth_Cons' split: option.split builder.split)
  moreover have "\<not> all_served 2 p" using b [of 0] by (auto simp: all_served_def intro!: exI [of _ 0])
  ultimately show ?thesis using p by blast
qed

end
