(* ===== verification/Routing.thy ===== *)
theory Routing
  imports PacMan
begin

text \<open>
  Which dialers the application's \<open>ByHost\<close> uses: the rule set that \<open>LoadConfig\<close> of \<open>internal/app/app.go\<close> installs, read
  as the dialers of \<open>pkg/dialer\<close> that it holds, is what the configuration says in terms of the proxies' labels.
\<close>

section \<open>Tables with mapped values\<close>

text \<open>The rule set holds dialers; the model of the pool holds what they stand for. Reading the values through a function:\<close>

definition map_values :: "('v \<Rightarrow> 'u) \<Rightarrow> ('k, 'v) gomap \<Rightarrow> ('k, 'u) gomap" where
  "map_values f m = map (\<lambda>(k, v). (k, f v)) m"

definition map_zone :: "('v \<Rightarrow> 'u) \<Rightarrow> 'v zone \<Rightarrow> 'u zone" where
  "map_zone f w = \<lparr>zroot = zroot w, zvalues = map_option (map_values f) (zvalues w)\<rparr>"

definition map_cidr :: "('v \<Rightarrow> 'u) \<Rightarrow> 'v cidr \<Rightarrow> 'u cidr" where
  "map_cidr f t = \<lparr>celems = map (\<lambda>n. \<lparr>nd_network = nd_network n, nd_value = f (nd_value n)\<rparr>) (celems t), ccap = ccap t\<rparr>"

definition map_trie :: "('v \<Rightarrow> 'u) \<Rightarrow> 'v trie \<Rightarrow> 'u trie" where
  "map_trie f m = \<lparr>thost = map_values f (thost m), tzone = map_zone f (tzone m), tcidr = map_cidr f (tcidr m)\<rparr>"

lemma map_of_values [simp]: "map_of (map_values f m) k = map_option f (map_of m k)"
  by (simp add: map_values_def map_of_map)

lemma found_map: "found (f z) (map_option f r) = map_prod f id (found z r)"
  by (cases r) simp_all

lemma map_or_nil_values: "map_of (map_or_nil (map_option (map_values f) m)) k = map_option f (map_of (map_or_nil m) k)"
  by (cases m) simp_all

lemma zone_scan_map:
  "zone_scan (map_or_nil (map_option (map_values f) m)) host offset ls = map_option (map_option f) (zone_scan (map_or_nil m) host offset ls)"
  by (induction ls arbitrary: offset) (auto simp: map_or_nil_values split: option.split)

lemma zone_match_map: "zone_match ul (f z) (map_zone f w) h = map_option (map_prod f id) (zone_match ul z w h)"
  by (simp add: zone_match_def map_zone_def Let_def map_or_nil_values zone_scan_map option.map_comp comp_def found_map
      split: walk.split option.split)

lemma find_mapped: "find P (map f xs) = map_option f (find (P \<circ> f) xs)"
  by (induction xs) simp_all

lemma cidr_match_map: "cidr_match (f z) (map_cidr f t) ip = map_prod f id (cidr_match z t ip)"
  by (simp add: cidr_match_def map_cidr_def find_mapped comp_def option.map_comp flip: found_map)

lemma trie_match_map: "trie_match ul (f z) (map_trie f m) h = map_option (map_prod f id) (trie_match ul z m h)"
  by (simp add: trie_match_def map_trie_def host_match_def found_map zone_match_map cidr_match_map Let_def case_prod_beta
      split: option.split)

lemma ruleset_match_map:
  "ruleset_match ul (f z) (map_option (map_trie f) rs) h = map_option (map_prod f id) (ruleset_match ul z rs h)"
  by (cases rs) (simp_all add: ruleset_match_def trie_match_map)

text \<open>The meaning of a list of rules commutes with the values in the same way.\<close>

lemma rules_map:
  "host_rules (map (\<lambda>(r, v). (r, f v)) rs) = map (\<lambda>(r, v). (r, f v)) (host_rules rs)"
  "zone_rules (map (\<lambda>(r, v). (r, f v)) rs) = map (\<lambda>(r, v). (r, f v)) (zone_rules rs)"
  "net_rules (map (\<lambda>(r, v). (r, f v)) rs) = map (\<lambda>(r, v). (r, f v)) (net_rules rs)"
  by (induction rs) (auto split: rule.split)

lemma rule_map_map: "rule_map ul (map (\<lambda>(r, v). (r, f v)) rs) = (\<lambda>h. map_option f (rule_map ul rs h))"
proof (induction rs rule: rev_induct)
  case Nil
  show ?case by (simp add: rule_map_def)
next
  case (snoc x rs)
  then show ?case by (cases x) (auto simp: rule_map_def)
qed

lemma suffix_lookup_map: "suffix_lookup (\<lambda>h. map_option f (m h)) ls = map_option f (suffix_lookup m ls)"
  by (induction ls) (auto split: option.split)

lemma lone_zone_map: "lone_zone (\<lambda>h. map_option f (m h)) h = lone_zone m h"
  by (simp add: lone_zone_def dom_def)

lemma lpm_map: "lpm (map (\<lambda>(r, v). (r, f v)) rs) ip = map_option (\<lambda>(r, v). (r, f v)) (lpm rs ip)"
proof (induction rs rule: rev_induct)
  case Nil
  show ?case by (simp add: lpm_def)
next
  case (snoc x rs)
  then show ?case by (cases x; cases "lpm rs ip") (auto simp: lpm_def narrower_def)
qed

lemma rules_match_map: "rules_match ul (map (\<lambda>(r, v). (r, f v)) rs) h = map_option f (rules_match ul rs h)"
  by (auto simp: rules_match_def rules_map rule_map_map zone_rules_match_def lone_zone_map suffix_lookup_map lpm_map
      option.map_comp comp_def case_prod_beta split: option.split)

section \<open>The dialer of the application\<close>

text \<open>
  What the rules that \<open>LoadConfig\<close> installs dial, given the lazy dialers \<open>L\<close> of the pool; \<open>dflt\<close> is the
  \<open>net.Dialer\<close> with five seconds of timeout that \<open>run\<close> puts into \<open>Default\<close>.
\<close>

fun rule_dialer ::
  "(string \<Rightarrow> string) \<Rightarrow> ('x \<Rightarrow> 'w \<Rightarrow> goerr option) \<Rightarrow> (nat \<Rightarrow> ('x, 'c, 'w) dialer) \<Rightarrow> target \<Rightarrow> ('x, 'c, 'w) dialer" where
  "rule_dialer ul ctx_err L (ToLazy i) = L i"
| "rule_dialer ul ctx_err L (ToRewriting i suff) = rewriting_dial_context ul (L i) suff"
| "rule_dialer ul ctx_err L (ToChain is) = chain_dial_context ctx_err (map L is)"

fun target_lazies :: "target \<Rightarrow> nat list" where
  "target_lazies (ToLazy i) = [i]"
| "target_lazies (ToRewriting i suff) = [i]"
| "target_lazies (ToChain is) = is"

definition app_by_host ::
  "(string \<Rightarrow> string) \<Rightarrow> ('x \<Rightarrow> 'w \<Rightarrow> goerr option) \<Rightarrow> ('x, 'c, 'w) dialer \<Rightarrow> (nat \<Rightarrow> ('x, 'c, 'w) dialer) \<Rightarrow> pacman \<Rightarrow>
   ('x, 'c, 'w) by_host" where
  "app_by_host ul ctx_err dflt L s =
     \<lparr>bh_default = Some dflt, bh_rs = map_option (map_trie (map_option (rule_dialer ul ctx_err L))) (pm_rs s)\<rparr>"

text \<open>
  What a dialer may do to the state. An effect that allows nothing and allows one thing after another is one of every
  rule's dialer when it is one of the lazy dialers that the rule names.
\<close>

locale dial_effect =
  fixes effect :: "'w \<Rightarrow> 'w \<Rightarrow> bool"
  assumes effect_refl: "effect w w"
    and effect_trans: "effect w w1 \<Longrightarrow> effect w1 w2 \<Longrightarrow> effect w w2"
begin

lemma chain_effect:
  "(\<And>d ctx net addr w. d \<in> set ds \<Longrightarrow> effect w (snd (d ctx net addr w))) \<Longrightarrow>
   effect w (snd (chain_loop ctx_err ctx net addr errs ds w))"
proof (induction ds arbitrary: errs w)
  case (Cons d ds)
  obtain c e w1 where d: "d ctx net addr w = ((c, e), w1)" by (metis surj_pair)
  then have w1: "effect w w1" using Cons.prems [of d w ctx net addr] by simp
  have "effect w (snd (chain_loop ctx_err ctx net addr (errs @ [x]) ds w1))" for x
    using Cons.prems by (intro effect_trans [OF w1 Cons.IH]) simp
  then show ?case using d w1 by (auto simp: effect_refl split: option.split)
qed (simp add: effect_refl)

lemma rule_effect:
  "(\<And>i ctx net addr w. i \<in> set (target_lazies t) \<Longrightarrow> effect w (snd (L i ctx net addr w))) \<Longrightarrow>
   effect w (snd (rule_dialer ul ctx_err L t ctx net addr w))"
  by (cases t)
    (auto simp: rewriting_dial_context_def chain_dial_context_def effect_refl Let_def intro!: chain_effect split: sum.split prod.split)

end

lemma route_value_map:
  "route_value ul (map (\<lambda>(r, v). (r, map_option f v)) rules) host override = map_option f (route_value ul rules host override)"
  by (auto simp: route_value_def rules_match_map split: option.split)

lemma app_dial_rules:
  assumes "split_host_port addr = Inr (host, port)" and "pm_rs s = Some (trie_of ul grow rules)" and "lookup ctx host w = (ips, w')"
  shows "by_host_dial_context ul lookup direct (app_by_host ul ctx_err dflt L s) ctx net addr w =
    Some ((case route_value ul rules host (hosts_override ips host) of
        Some t \<Rightarrow> rule_dialer ul ctx_err L t | None \<Rightarrow> dflt) ctx net
      (case hosts_override ips host of Some ip \<Rightarrow> join_host_port ip port | None \<Rightarrow> addr) w')"
proof -
  let ?f = "map_option (rule_dialer ul ctx_err L)"
  have "trie_match ul None (map_trie ?f (trie_of ul grow rules)) h = Some (found None (rules_match ul (map (\<lambda>(r, v). (r, ?f v)) rules) h))" for h
    using trie_match_map [of ul ?f None "trie_of ul grow rules" h] trie_of_match [of ul None grow rules h]
    by (simp add: rules_match_map found_map [symmetric])
  from by_host_dial_rules [of addr host port "app_by_host ul ctx_err dflt L s", OF assms(1) _ this, of lookup] assms(2,3)
  show ?thesis by (simp add: app_by_host_def route_def route_value_map split: option.split)
qed

text \<open>A configuration in its own words: hosts and the labels of the proxies they go through.\<close>

datatype named = Label string | Through "string list"

definition named_rules :: "(string \<times> url option) list \<Rightarrow> cfg_rule option list \<Rightarrow> (string \<times> named option) list" where
  "named_rules ps rls = map (\<lambda>(k, u). (''.'' @ k @ ''.pacman'', Some (Label k))) ps @
     concat (map (\<lambda>r. case r of None \<Rightarrow> []
       | Some r \<Rightarrow> map (\<lambda>h. (h, if cr_proxies r = [] then None else Some (Through (cr_proxies r)))) (cr_hosts r)) rls)"

fun named_target :: "(string \<Rightarrow> nat) \<Rightarrow> named \<Rightarrow> target" where
  "named_target f (Label k) = ToRewriting (f k) (k @ ''.pacman'')"
| "named_target f (Through ps) = (case ps of [p] \<Rightarrow> ToLazy (f p) | _ \<Rightarrow> ToChain (map f ps))"

lemma rule_target_named:
  "rule_target (map f ps) = map_option (named_target f) (if ps = [] then None else Some (Through ps))"
  by (auto simp: rule_target_def split: list.split)

lemma rules_named:
  "map (label_rule pool \<circ> fst) ps @ config_rules pool rls =
     map (\<lambda>(h, v). (h, map_option (named_target (\<lambda>k. the (map_of pool k))) v)) (named_rules ps rls)"
proof -
  have "config_rules pool rls = map (\<lambda>(h, v). (h, map_option (named_target (\<lambda>k. the (map_of pool k))) v))
      (concat (map (\<lambda>r. case r of None \<Rightarrow> []
       | Some r \<Rightarrow> map (\<lambda>h. (h, if cr_proxies r = [] then None else Some (Through (cr_proxies r)))) (cr_hosts r)) rls))"
    by (induction rls) (auto simp: config_rules_def rule_target_named split: option.split)
  then show ?thesis by (auto simp: named_rules_def label_rule_def)
qed

text \<open>The rules in force after a load, by name, when they use configured proxies only.\<close>

lemma load_config_named:
  assumes "pool_ok s" and "ordered ordp" and "ordered ordq"
    and "load_config ul grow us ordp ordq cfg s = Some (None, s')"
    and "\<forall>q. Some q \<in> set (cf_rules cfg) \<longrightarrow> set (cr_proxies q) \<subseteq> dom (map_of (cf_proxies cfg))"
  shows "pm_rs s' = Some (trie_of ul grow (map (\<lambda>(h, v). (h, map_option (named_target (\<lambda>k. the (map_of (pm_pool s') k))) v))
    (named_rules (ordp (cf_proxies cfg)) (cf_rules cfg))))"
proof (rule load_config_parts [OF assms(1-4)])
  fix s1
  assume p: "map_of (pm_pool s') = (\<lambda>k. if map_of (cf_proxies cfg) k = None then None else map_of (pm_pool s1) k)"
    and rs: "pm_rs s' = Some (trie_of ul grow (map (label_rule (pm_pool s1) \<circ> fst) (ordp (cf_proxies cfg)) @ config_rules (pm_pool s1) (cf_rules cfg)))"
  have r: "range_of (cf_proxies cfg) (ordp (cf_proxies cfg))" using assms(2) by (simp add: ordered_def)
  have same: "the (map_of (pm_pool s1) k) = the (map_of (pm_pool s') k)" if "k \<in> dom (map_of (cf_proxies cfg))" for k
    using that p by (auto simp: dom_def)
  have "map (\<lambda>(h, v). (h, map_option (named_target (\<lambda>k. the (map_of (pm_pool s1) k))) v)) (named_rules (ordp (cf_proxies cfg)) (cf_rules cfg)) =
      map (\<lambda>(h, v). (h, map_option (named_target (\<lambda>k. the (map_of (pm_pool s') k))) v)) (named_rules (ordp (cf_proxies cfg)) (cf_rules cfg))"
  proof (rule map_cong [OF refl])
    fix x
    assume "x \<in> set (named_rules (ordp (cf_proxies cfg)) (cf_rules cfg))"
    then consider k u where "x = (''.'' @ k @ ''.pacman'', Some (Label k))" "(k, u) \<in> set (ordp (cf_proxies cfg))"
      | q h where "Some q \<in> set (cf_rules cfg)" "x = (h, if cr_proxies q = [] then None else Some (Through (cr_proxies q)))"
      by (auto simp: named_rules_def split: option.splits)
    then show "(case x of (h, v) \<Rightarrow> (h, map_option (named_target (\<lambda>k. the (map_of (pm_pool s1) k))) v)) =
        (case x of (h, v) \<Rightarrow> (h, map_option (named_target (\<lambda>k. the (map_of (pm_pool s') k))) v))"
    proof cases
      case 1
      then have "k \<in> dom (map_of (cf_proxies cfg))" using range_of_set [OF r] by auto
      with 1 same show ?thesis by simp
    next
      case 2
      then have "map (\<lambda>k. the (map_of (pm_pool s1) k)) (cr_proxies q) = map (\<lambda>k. the (map_of (pm_pool s') k)) (cr_proxies q)"
        using same assms(5) 2(1) by (intro map_cong [OF refl]) blast
      then show ?thesis using 2 by (auto split: list.split)
    qed
  qed
  then show ?thesis using rs by (simp only: rules_named)
qed

section \<open>Properties\<close>

definition sample_routing :: config where
  "sample_routing = sample_config\<lparr>cf_rules := [Some \<lparr>cr_hosts = [''h''], cr_proxies = [''a'']\<rparr>]\<rparr>"

lemma sample_rule_kinds: "rule_kind ''.a.pacman'' = ZoneApex ''a.pacman''" "rule_kind ''h'' = HostName ''h''"
  by code_simp+

lemma sample_hosts: "canonocalize_host ul ''h'' = ''h''" "canonocalize_host ul ''a.pacman'' = ''a.pacman''"
  using canonocalize_graphic [of "''h''" ul] canonocalize_graphic [of "''a.pacman''" ul] by (simp_all add: lower_char_def)

lemma sample_load_routing:
  "\<exists>s'. load_config (\<lambda>x. x) (+) u_host AList.clearjunk AList.clearjunk sample_routing start_pacman = Some (None, s')"
  by (simp add: load_config_def sample_routing_def sample_config_def start_pacman_def Let_def case_prod_beta)


end
