(* ===== verification/AppDial.thy ===== *)
theory AppDial
  imports Routing SshProxy HttpProxy LazySpec
begin

text \<open>
  One call through the application: \<open>ByHost\<close>, the lazy dialers of the pool behind it, and the dialers that they build, which
  reach their own servers through the same \<open>ByHost\<close> again. Lazy dialers are the four-state machines of \<open>LazySpec\<close>. The lemmas show
  when such a call comes back: when no proxy waits for itself. A proxy that does sleeps for ever or recurses without end.
\<close>

section \<open>Calls through lazy dialers\<close>

text \<open>
  What a call needs of its surroundings: \<open>de_hosts\<close> is \<open>LookupIP\<close> of the resolver that reads local files only,
  \<open>de_err\<close> the context's error, \<open>de_merge\<close> \<open>contextutil.Merge\<close>, \<open>de_ctx\<close> the context of a lazy dialer, \<open>de_net\<close> the \<open>net.Dialer\<close>, \<open>de_direct\<close> \<open>proxy.Direct\<close>; \<open>de_read\<close>, \<open>de_key\<close> and \<open>de_handshake\<close> those of
  \<open>ssh_dialer\<close>; \<open>de_oc\<close> is \<open>oc.NewDialer\<close> and \<open>de_from_url\<close> \<open>proxy.FromURL\<close>, which keeps the forward dialer for later:
  \<open>de_server\<close> is the server that a dialer made from a URL reaches through it on every call. \<open>de_connect\<close> is the \<open>Dial\<close> of a
  dialer that was built, over the connection to its server if it needs one.
\<close>

record ('x, 'c, 'd, 'k, 'w) dial_env =
  de_lower :: "string \<Rightarrow> string"
  de_hosts :: "string \<Rightarrow> byte list list res"
  de_err :: "'x \<Rightarrow> 'w \<Rightarrow> goerr option"
  de_net :: "('x, 'c, 'w) dialer"
  de_direct :: "('x, 'c, 'w) dialer"
  de_ctx :: "nat \<Rightarrow> 'x"
  de_merge :: "'x \<Rightarrow> 'x \<Rightarrow> 'x"
  de_read :: "string \<Rightarrow> string res"
  de_key :: "string \<Rightarrow> 'k res"
  de_handshake :: "'c option \<Rightarrow> string \<Rightarrow> 'k client_config \<Rightarrow> 'd res"
  de_oc :: "url \<Rightarrow> 'w \<Rightarrow> 'd res \<times> 'w"
  de_from_url :: "url \<Rightarrow> 'd res"
  de_server :: "url \<Rightarrow> string option"
  de_connect :: "'d \<Rightarrow> 'c option \<Rightarrow> ('x, 'c, 'w) dialer"

text \<open>
  The state: the lazy dialers, by number, and which of them have their idle timer running; the rest of the world; and what became of the call: it is under way (or came back), it
  sleeps for ever, it is nested deeper than the stack allows, or it panicked. In the last three cases what it returned means nothing.
\<close>

datatype fate = Going | Asleep | TooDeep | Panicked

record ('d, 'w) app_st =
  ap_lz :: "nat \<Rightarrow> 'd conn_spec"
  ap_armed :: "nat \<Rightarrow> bool"
  ap_fate :: fate
  ap_w :: 'w

definition halt :: "fate \<Rightarrow> ('x, 'c, ('d, 'w) app_st) dialer" where
  "halt f ctx net addr st = ((None, None), st\<lparr>ap_fate := f\<rparr>)"

definition outside :: "('x, 'c, 'w) dialer \<Rightarrow> ('x, 'c, ('d, 'w) app_st) dialer" where
  "outside d ctx net addr st = (let (r, w) = d ctx net addr (ap_w st) in (r, st\<lparr>ap_w := w\<rparr>))"

text \<open>
  \<open>d.new\<close> of a pooled dialer: \<open>FromURLContext\<close> with the schemes that the package registers, in its own context; the forward
  dialer is the application's \<open>ByHost\<close>.
\<close>

definition build_dialer ::
  "('x, 'c, 'd, 'k, 'w) dial_env \<Rightarrow> ('x, 'c, ('d, 'w) app_st) dialer \<Rightarrow> 'x \<Rightarrow> url \<Rightarrow> ('d, 'w) app_st \<Rightarrow> 'd res \<times> ('d, 'w) app_st" where
  "build_dialer E fwd ctx u st =
     (if u_scheme u = ''ssh'' then
        (case ssh_auth (de_read E) (de_key E) u of
           Inl e \<Rightarrow> (Inl e, st)
         | Inr auth \<Rightarrow>
             let (r, st) = fwd ctx ''tcp'' (ssh_addr u) st
             in (fst (ssh_dialer (de_read E) (de_key E) (\<lambda>_ _. r) (de_handshake E) u), st))
      else if u_scheme u \<in> {''anyconnect'', ''gp''} then
        (let (r, w) = de_oc E u (ap_w st) in (r, st\<lparr>ap_w := w\<rparr>))
      else (de_from_url E u, st))"

definition use_dialer ::
  "('x, 'c, 'd, 'k, 'w) dial_env \<Rightarrow> ('x, 'c, ('d, 'w) app_st) dialer \<Rightarrow> url \<Rightarrow> 'd \<Rightarrow> ('x, 'c, ('d, 'w) app_st) dialer" where
  "use_dialer E fwd u d ctx net addr st =
     (case de_server E u of
        None \<Rightarrow> outside (de_connect E d None) ctx net addr st
      | Some a \<Rightarrow>
          let ((c, err), st) = fwd ctx ''tcp'' a st in
          (case err of Some e \<Rightarrow> ((None, Some e), st) | None \<Rightarrow> outside (de_connect E d c) ctx net addr st))"

text \<open>
  \<open>Lazy.DialContext\<close> for a lone caller, with the states of \<open>conn_spec\<close>: offline it builds the dialer first; a caller that finds
  it connecting sleeps until it is built, under no context. When that is its own doing, it sleeps for ever. With an idle timeout a dialer
  that comes up starts its timer and each call stops it (\<open>timer\<close>); the underlying dialer is called under both contexts. That the goroutines of
  \<open>LazyDialer\<close> answer a caller in these four ways is a theorem of \<open>LazySpec\<close>.
\<close>

definition timer :: "pacman \<Rightarrow> nat \<Rightarrow> bool \<Rightarrow> ('d, 'w) app_st \<Rightarrow> ('d, 'w) app_st" where
  "timer s i on st = (if 0 < pd_timeout (pm_pds s ! i) then st\<lparr>ap_armed := (ap_armed st)(i := on)\<rparr> else st)"

lemma timer_fields [simp]:
  "ap_lz (timer s i on st) = ap_lz st" "ap_fate (timer s i on st) = ap_fate st" "ap_w (timer s i on st) = ap_w st"
  by (simp_all add: timer_def)

lemma timer_idle: "pd_timeout (pm_pds s ! i) \<le> 0 \<Longrightarrow> timer s i on st = st"
  by (simp add: timer_def)

definition lazy_call ::
  "('x, 'c, 'd, 'k, 'w) dial_env \<Rightarrow> ('x, 'c, ('d, 'w) app_st) dialer \<Rightarrow> pacman \<Rightarrow> nat \<Rightarrow> ('x, 'c, ('d, 'w) app_st) dialer" where
  "lazy_call E fwd s i ctx net addr st =
     (let u = pd_url (pm_pds s ! i) in
      if ap_fate st \<noteq> Going then halt (ap_fate st) ctx net addr st
      else (case ap_lz st i of
        SConnecting \<Rightarrow> halt Asleep ctx net addr st
      | SFailed e \<Rightarrow> ((None, Some e), st)
      | SOnline d \<Rightarrow> use_dialer E fwd u d (de_merge E ctx (de_ctx E i)) net addr (timer s i False st)
      | SOffline \<Rightarrow>
          let (r, st) = build_dialer E fwd (de_ctx E i) u (st\<lparr>ap_lz := (ap_lz st)(i := SConnecting)\<rparr>) in
          if ap_fate st \<noteq> Going then halt (ap_fate st) ctx net addr st
          else (case r of
            Inl e \<Rightarrow> ((None, Some e), st\<lparr>ap_lz := (ap_lz st)(i := SFailed e)\<rparr>)
          | Inr d \<Rightarrow> use_dialer E fwd u d (de_merge E ctx (de_ctx E i)) net addr
              (timer s i False (timer s i True (st\<lparr>ap_lz := (ap_lz st)(i := SOnline d)\<rparr>))))))"

text \<open>\<open>ByHost.DialContext\<close> of the application, with at most \<open>n\<close> calls of itself nested in each other.\<close>

definition app_step ::
  "('x, 'c, 'd, 'k, 'w) dial_env \<Rightarrow> pacman \<Rightarrow> ('x, 'c, ('d, 'w) app_st) dialer \<Rightarrow> ('x, 'c, ('d, 'w) app_st) dialer" where
  "app_step E s fwd ctx net addr st =
     (if ap_fate st \<noteq> Going then halt (ap_fate st) ctx net addr st
      else (case by_host_dial_context (de_lower E) (\<lambda>ctx h st. (de_hosts E h, st)) (outside (de_direct E))
          (app_by_host (de_lower E) (\<lambda>ctx st. de_err E ctx (ap_w st)) (outside (de_net E)) (lazy_call E fwd s) s) ctx net addr st of
        Some r \<Rightarrow> r | None \<Rightarrow> halt Panicked ctx net addr st))"

primrec app_dial :: "('x, 'c, 'd, 'k, 'w) dial_env \<Rightarrow> pacman \<Rightarrow> nat \<Rightarrow> ('x, 'c, ('d, 'w) app_st) dialer" where
  "app_dial E s 0 = halt TooDeep"
| "app_dial E s (Suc n) = app_step E s (app_dial E s n)"

section \<open>Who waits for whom\<close>

text \<open>What the rules say about an address, and the addresses that the dialer of a URL reaches through the application.\<close>

definition addr_target ::
  "('x, 'c, 'd, 'k, 'w) dial_env \<Rightarrow> (string \<times> target option) list \<Rightarrow> string \<Rightarrow> target option" where
  "addr_target E rules addr = (case split_host_port addr of
     Inl e \<Rightarrow> None | Inr (host, port) \<Rightarrow> route_value (de_lower E) rules host (hosts_override (de_hosts E host) host))"

definition forwards :: "('x, 'c, 'd, 'k, 'w) dial_env \<Rightarrow> url \<Rightarrow> string list" where
  "forwards E u = (if u_scheme u = ''ssh'' then [ssh_addr u] else []) @ (case de_server E u of Some a \<Rightarrow> [a] | None \<Rightarrow> [])"

definition addr_lazies ::
  "('x, 'c, 'd, 'k, 'w) dial_env \<Rightarrow> (string \<times> target option) list \<Rightarrow> string \<Rightarrow> nat list" where
  "addr_lazies E rules addr = (case addr_target E rules addr of None \<Rightarrow> [] | Some t \<Rightarrow> target_lazies t)"

definition waits_for ::
  "('x, 'c, 'd, 'k, 'w) dial_env \<Rightarrow> pacman \<Rightarrow> (string \<times> target option) list \<Rightarrow> nat \<Rightarrow> nat list" where
  "waits_for E s rules i = concat (map (addr_lazies E rules) (forwards E (pd_url (pm_pds s ! i))))"

definition rule_lazies :: "(string \<times> target option) list \<Rightarrow> nat list" where
  "rule_lazies rules = concat (map (\<lambda>(r, v). case v of None \<Rightarrow> [] | Some t \<Rightarrow> target_lazies t) rules)"

lemma app_step_rules:
  assumes "pm_rs s = Some (trie_of (de_lower E) grow rules)"
  shows "app_step E s fwd ctx net addr st =
    (if ap_fate st \<noteq> Going then halt (ap_fate st) ctx net addr st
     else case split_host_port addr of
       Inl e \<Rightarrow> ((None, Some e), st)
     | Inr (host, port) \<Rightarrow>
         (case addr_target E rules addr of
            Some t \<Rightarrow> rule_dialer (de_lower E) (\<lambda>ctx st. de_err E ctx (ap_w st)) (lazy_call E fwd s) t
          | None \<Rightarrow> outside (de_net E)) ctx net
         (case hosts_override (de_hosts E host) host of Some ip \<Rightarrow> join_host_port ip port | None \<Rightarrow> addr) st)"
proof (cases "split_host_port addr")
  case (Inl e)
  then show ?thesis by (simp add: app_step_def by_host_dial_context_def)
next
  case (Inr hp)
  obtain host port where hp: "hp = (host, port)" by fastforce
  note r = app_dial_rules [OF Inr [unfolded hp] assms, of "\<lambda>ctx h st. (de_hosts E h, st)", OF refl]
  show ?thesis by (simp add: app_step_def r Inr hp addr_target_def)
qed

text \<open>
  A call under rank \<open>m\<close> comes back, leaves nobody below \<open>m\<close> connecting and does not touch the others.
\<close>

definition calm :: "(nat \<Rightarrow> nat) \<Rightarrow> nat \<Rightarrow> ('d, 'w) app_st \<Rightarrow> bool" where
  "calm rank m st \<longleftrightarrow> ap_fate st = Going \<and> (\<forall>i. rank i < m \<longrightarrow> ap_lz st i \<noteq> SConnecting)"

definition settles :: "(nat \<Rightarrow> nat) \<Rightarrow> nat \<Rightarrow> ('d, 'w) app_st \<Rightarrow> ('d, 'w) app_st \<Rightarrow> bool" where
  "settles rank m st st' \<longleftrightarrow> calm rank m st' \<and> (\<forall>i. m \<le> rank i \<longrightarrow> ap_lz st' i = ap_lz st i)"

definition comes_back ::
  "(nat \<Rightarrow> nat) \<Rightarrow> ('x, 'c, 'd, 'k, 'w) dial_env \<Rightarrow> (string \<times> target option) list \<Rightarrow> ('x, 'c, ('d, 'w) app_st) dialer \<Rightarrow> nat \<Rightarrow> bool" where
  "comes_back rank E rules fwd m \<longleftrightarrow> (\<forall>ctx net addr st. (\<forall>i \<in> set (addr_lazies E rules addr). rank i < m) \<longrightarrow> calm rank m st \<longrightarrow>
     settles rank m st (snd (fwd ctx net addr st)))"

lemma comes_backD:
  "comes_back rank E rules fwd m \<Longrightarrow> fwd ctx net addr st = (r, st') \<Longrightarrow> (\<And>i. i \<in> set (addr_lazies E rules addr) \<Longrightarrow> rank i < m) \<Longrightarrow>
   calm rank m st \<Longrightarrow> settles rank m st st'"
  by (metis comes_back_def snd_conv)

lemma settles_refl: "calm rank m st \<Longrightarrow> settles rank m st st"
  by (simp add: settles_def)

lemma settles_trans: "settles rank m st st1 \<Longrightarrow> settles rank m st1 st2 \<Longrightarrow> settles rank m st st2"
  by (simp add: settles_def)

lemma settles_timer [simp]:
  "calm rank m (timer s i on st) = calm rank m st" "settles rank m (timer s i on st) st' = settles rank m st st'"
  "settles rank m st (timer s i on st') = settles rank m st st'"
  by (simp_all add: settles_def calm_def)

lemma settles_calm: "settles rank m st st' \<Longrightarrow> calm rank m st'"
  by (simp add: settles_def)

interpretation calm_effect: dial_effect "\<lambda>st st'. calm rank m st \<longrightarrow> settles rank m st st'" for rank m
  by unfold_locales (auto simp: settles_refl intro: settles_trans dest: settles_calm)

lemma settles_outside: "calm rank m st \<Longrightarrow> settles rank m st (snd (outside d ctx net addr st))"
  by (simp add: settles_def calm_def outside_def case_prod_beta Let_def)

text \<open>A lower rank may be used while the dialer of a higher one is connecting.\<close>

lemma settles_lower:
  assumes "settles rank (rank i) st st'" and "rank i < m" and "\<And>j. rank j < m \<Longrightarrow> j \<noteq> i \<Longrightarrow> ap_lz st j \<noteq> SConnecting"
  shows "ap_fate st' = Going" and "ap_lz st' i = ap_lz st i" and "rank j < m \<Longrightarrow> j \<noteq> i \<Longrightarrow> ap_lz st' j \<noteq> SConnecting"
    and "m \<le> rank j \<Longrightarrow> ap_lz st' j = ap_lz st j"
proof -
  show "ap_fate st' = Going" and "ap_lz st' i = ap_lz st i" using assms(1) by (simp_all add: settles_def calm_def)
  show "ap_lz st' j = ap_lz st j" if "m \<le> rank j" using assms(1,2) that by (simp add: settles_def)
  show "ap_lz st' j \<noteq> SConnecting" if "rank j < m" "j \<noteq> i"
    using assms(1,3) that by (cases "rank j < rank i") (auto simp: settles_def calm_def)
qed

lemma calm_lower: "calm rank m st \<Longrightarrow> k \<le> m \<Longrightarrow> calm rank k st"
  by (auto simp: calm_def)

lemma calm_connecting: "calm rank (rank i) st \<Longrightarrow> calm rank (rank i) (st\<lparr>ap_lz := (ap_lz st)(i := v)\<rparr>)"
  by (auto simp: calm_def)

lemma settles_use:
  assumes "comes_back rank E rules fwd (rank i)" and "rank i < m" and "calm rank m st"
    and "\<And>a j. a \<in> set (forwards E u) \<Longrightarrow> j \<in> set (addr_lazies E rules a) \<Longrightarrow> rank j < rank i"
  shows "settles rank m st (snd (use_dialer E fwd u d ctx net addr st))"
proof (cases "de_server E u")
  case None
  then show ?thesis using assms(3) by (simp add: use_dialer_def settles_outside)
next
  case (Some a)
  obtain r st1 where r: "fwd ctx ''tcp'' a st = (r, st1)" by fastforce
  have "settles rank (rank i) st st1"
    using assms(2,4) Some calm_lower [OF assms(3)] by (intro comes_backD [OF assms(1) r]) (auto simp: forwards_def)
  then have "settles rank m st st1" using assms(2,3) by (auto simp: settles_def calm_def) (metis le_less_linear)
  then show ?thesis using r Some settles_outside [of rank m st1 "de_connect E d (fst r)" ctx net addr]
    by (cases r) (auto simp: use_dialer_def split: option.split intro: settles_trans dest: settles_calm)
qed

lemma settles_build:
  assumes "comes_back rank E rules fwd (rank i)" and "calm rank (rank i) st"
    and "\<And>a j. a \<in> set (forwards E u) \<Longrightarrow> j \<in> set (addr_lazies E rules a) \<Longrightarrow> rank j < rank i"
    and "build_dialer E fwd ctx u st = (r, st1)"
  shows "settles rank (rank i) st st1"
proof (cases "u_scheme u = ''ssh''")
  case True
  show ?thesis
  proof (cases "ssh_auth (de_read E) (de_key E) u")
    case (Inl e)
    then show ?thesis using assms(2,4) True by (auto simp: build_dialer_def settles_refl)
  next
    case (Inr auth)
    obtain q st2 where q: "fwd ctx ''tcp'' (ssh_addr u) st = (q, st2)" by fastforce
    then have "st1 = st2" using assms(4) True Inr by (simp add: build_dialer_def)
    then show ?thesis using assms(2,3) True by (auto intro!: comes_backD [OF assms(1) q] simp: forwards_def)
  qed
next
  case False
  then show ?thesis using assms(2,4)
    by (auto simp: build_dialer_def settles_def calm_def split: if_splits prod.splits)
qed

lemma settles_lazy:
  assumes "comes_back rank E rules fwd (rank i)" and "rank i < m" and "calm rank m st"
    and "\<And>a j. a \<in> set (forwards E (pd_url (pm_pds s ! i))) \<Longrightarrow> j \<in> set (addr_lazies E rules a) \<Longrightarrow> rank j < rank i"
  shows "settles rank m st (snd (lazy_call E fwd s i ctx net addr st))"
proof (cases "ap_lz st i")
  case SOffline
  let ?u = "pd_url (pm_pds s ! i)" and ?st = "st\<lparr>ap_lz := (ap_lz st)(i := SConnecting)\<rparr>"
  obtain r st1 where r: "build_dialer E fwd (de_ctx E i) ?u ?st = (r, st1)" by fastforce
  have "calm rank (rank i) ?st" using calm_lower [OF assms(3)] assms(2) by (intro calm_connecting) simp
  from settles_build [OF assms(1) this assms(4) r]
  have b: "settles rank (rank i) ?st st1" .
  note l = settles_lower [OF this assms(2)]
  have set_i: "settles rank m st (st1\<lparr>ap_lz := (ap_lz st1)(i := v)\<rparr>)" if "v \<noteq> SConnecting" for v
    using b assms(2,3) that by (auto simp: settles_def calm_def) (metis le_less_linear)+
  have "settles rank m st (snd (use_dialer E fwd ?u d ctx net addr (timer s i False (timer s i True st2))))"
    if "settles rank m st st2" for d ctx st2
    using settles_trans [OF that] settles_use [OF assms(1,2) _ assms(4), where st = "timer s i False (timer s i True st2)" and d = d and ctx = ctx and net = net and addr = addr]
      settles_calm [OF that] by simp
  moreover have "ap_fate st = Going" "ap_fate st1 = Going" using assms(3) b by (simp_all add: calm_def settles_def)
  ultimately show ?thesis using SOffline r set_i by (simp add: lazy_call_def split: sum.split)
next
  case SConnecting
  then show ?thesis using assms(2,3) by (simp add: calm_def)
next
  case (SFailed e)
  then show ?thesis using assms(3) settles_refl [OF assms(3)] by (simp add: lazy_call_def calm_def [of rank m st])
next
  case (SOnline d)
  then show ?thesis
    using assms(3) settles_use [OF assms(1,2) _ assms(4), where st = "timer s i False st" and d = d
        and ctx = "de_merge E ctx (de_ctx E i)" and net = net and addr = addr]
    by (simp add: lazy_call_def calm_def [of rank m st])
qed

text \<open>The rank of a lazy dialer that is in the rules is above those of the lazy dialers that it waits for.\<close>

definition ranked :: "(nat \<Rightarrow> nat) \<Rightarrow> ('x, 'c, 'd, 'k, 'w) dial_env \<Rightarrow> pacman \<Rightarrow> (string \<times> target option) list \<Rightarrow> bool" where
  "ranked rank E s rules \<longleftrightarrow> (\<forall>i \<in> set (rule_lazies rules). \<forall>j \<in> set (waits_for E s rules i). rank j < rank i)"

text \<open>What a lookup finds was added.\<close>

lemma rules_origin:
  "(x, v) \<in> set (host_rules rs) \<Longrightarrow> \<exists>r. (r, v) \<in> set rs"
  "(x, v) \<in> set (zone_rules rs) \<Longrightarrow> \<exists>r. (r, v) \<in> set rs"
  "(n, v) \<in> set (net_rules rs) \<Longrightarrow> \<exists>r. (r, v) \<in> set rs"
  by (induction rs) (auto split: rule.splits, blast+)

lemma rule_map_range: "rule_map ul rs h = Some v \<Longrightarrow> \<exists>r. (r, v) \<in> set rs"
proof (induction rs rule: rev_induct)
  case Nil
  then show ?case by (simp add: rule_map_def)
next
  case (snoc x rs)
  then show ?case by (cases x) (auto split: if_splits)
qed

lemma suffix_lookup_range: "suffix_lookup m ls = Some v \<Longrightarrow> \<exists>h. m h = Some v"
  by (induction ls) (auto split: option.splits)

lemma rules_match_range: 
  assumes "rules_match ul rs h = Some v"
  shows "\<exists>r. (r, v) \<in> set rs"
proof (cases "rule_map ul (host_rules rs) (canonocalize_host ul h)")
  case (Some w)
  then have "rule_map ul (host_rules rs) (canonocalize_host ul h) = Some v" using assms by (simp add: rules_match_def)
  then show ?thesis using rule_map_range rules_origin(1) by metis
next
  case None
  show ?thesis
  proof (cases "parse_ip h")
    case (Some ip)
    then obtain n where "lpm (net_rules rs) ip = Some (n, v)" using assms None by (auto simp: rules_match_def)
    then have "(n, v) \<in> set (net_rules rs)" using lpm_Some by blast
    then show ?thesis by (rule rules_origin(3))
  next
    case no_ip: None
    then have "zone_rules_match ul (zone_rules rs) h = Some v" using assms None by (simp add: rules_match_def)
    then obtain z where "rule_map ul (zone_rules rs) z = Some v"
      by (auto simp: zone_rules_match_def split: if_splits dest: suffix_lookup_range)
    then show ?thesis using rule_map_range rules_origin(2) by metis
  qed
qed

lemma addr_target_range:
  assumes "addr_target E rules a = Some t"
  shows "\<exists>r. (r, Some t) \<in> set rules"
proof -
  obtain h where "rules_match (de_lower E) rules h = Some (Some t)"
    using assms by (auto simp: addr_target_def route_value_def split: sum.splits option.splits)
  then show ?thesis by (rule rules_match_range)
qed

lemma addr_lazies_in_rules: "i \<in> set (addr_lazies E rules a) \<Longrightarrow> i \<in> set (rule_lazies rules)"
proof (cases "addr_target E rules a")
  case (Some t)
  obtain r where "(r, Some t) \<in> set rules" using addr_target_range [OF Some] by blast
  moreover assume "i \<in> set (addr_lazies E rules a)"
  ultimately show ?thesis using Some by (force simp: addr_lazies_def rule_lazies_def)
qed (simp add: addr_lazies_def)

lemma ranked_forwards:
  "ranked rank E s rules \<Longrightarrow> i \<in> set (rule_lazies rules) \<Longrightarrow> a \<in> set (forwards E (pd_url (pm_pds s ! i))) \<Longrightarrow>
   j \<in> set (addr_lazies E rules a) \<Longrightarrow> rank j < rank i"
  by (auto simp: ranked_def waits_for_def)

lemma step_comes_back:
  fixes E :: "('x, 'c, 'd, 'k, 'w) dial_env" and fwd :: "('x, 'c, ('d, 'w) app_st) dialer"
  assumes "pm_rs s = Some (trie_of (de_lower E) grow rules)" and "ranked rank E s rules"
    and "\<And>k. k < m \<Longrightarrow> comes_back rank E rules fwd k"
  shows "comes_back rank E rules (app_step E s fwd) m"
  unfolding comes_back_def
proof (intro allI impI)
  fix ctx net addr st
  assume low: "\<forall>i \<in> set (addr_lazies E rules addr). rank i < m" and c: "calm rank m (st :: ('d, 'w) app_st)"
  have lazy: "settles rank m st (snd (lazy_call E fwd s i ctx net addr st))"
    if "i \<in> set (addr_lazies E rules a)" "rank i < m" "calm rank m st" for i a ctx net addr st
    using ranked_forwards [OF assms(2) addr_lazies_in_rules [OF that(1)]] assms(3) [OF that(2)] that(2,3) by (intro settles_lazy) auto
  have rule: "settles rank m st (snd (rule_dialer (de_lower E) ce (lazy_call E fwd s) t ctx net a st))"
    if "addr_target E rules addr = Some t" for t ctx a ce
    using low that c by (intro calm_effect.rule_effect [rule_format]) (auto simp: addr_lazies_def intro: lazy [of _ addr])
  show "settles rank m st (snd (app_step E s fwd ctx net addr st))"
    using c rule by (auto simp: app_step_rules [OF assms(1)] settles_refl settles_outside calm_def [of rank m st] split: sum.split option.split)
qed

lemma dial_comes_back:
  assumes "pm_rs s = Some (trie_of (de_lower E) grow rules)" and "ranked rank E s rules"
  shows "m \<le> n \<Longrightarrow> comes_back rank E rules (app_dial E s (Suc n)) m"
proof (induction n arbitrary: m)
  case 0
  then show ?case using step_comes_back [OF assms, of 0 "app_dial E s 0"] by simp
next
  case (Suc n)
  show ?case
    using step_comes_back [OF assms, of m "app_dial E s (Suc n)"] Suc by simp
qed

lemma dial_settled:
  assumes "pm_rs s = Some (trie_of (de_lower E) grow rules)" and "ranked rank E s rules"
    and "\<And>i. i \<in> set (rule_lazies rules) \<Longrightarrow> rank i < n" and "ap_fate st = Going" and "\<And>i. ap_lz st i \<noteq> SConnecting"
  shows "ap_fate (snd (app_dial E s (Suc n) ctx net addr st)) = Going \<and>
    (\<forall>i. ap_lz (snd (app_dial E s (Suc n) ctx net addr st)) i \<noteq> SConnecting)"
proof -
  let ?st = "snd (app_dial E s (Suc n) ctx net addr st)"
  have "\<forall>i \<in> set (addr_lazies E rules addr). rank i < n" using addr_lazies_in_rules assms(3) by blast
  then have "settles rank n st ?st"
    using dial_comes_back [OF assms(1,2), of n n] assms(4,5)
    by (auto simp: comes_back_def calm_def simp del: app_dial.simps)
  then have "ap_fate ?st = Going" "ap_lz ?st i \<noteq> SConnecting" for i
    using assms(5) [of i] by (cases "rank i < n"; simp add: settles_def calm_def del: app_dial.simps)+
  then show ?thesis by blast
qed

text \<open>A call touches only lazy dialers that the rules name.\<close>

interpretation spare_effect: dial_effect "\<lambda>st st'. \<forall>i \<in> C. ap_lz st' i = ap_lz st i" for C
  by unfold_locales simp_all

lemma outside_spares [simp]: "ap_lz (snd (outside d ctx net addr st)) = ap_lz st"
  by (simp add: outside_def case_prod_beta Let_def)

lemma halt_spares [simp]: "ap_lz (snd (halt f ctx net addr st)) = ap_lz st"
  by (simp add: halt_def)

definition spares :: "nat set \<Rightarrow> ('x, 'c, ('d, 'w) app_st) dialer \<Rightarrow> bool" where
  "spares C f \<longleftrightarrow> (\<forall>ctx net addr st. \<forall>i \<in> C. ap_lz (snd (f ctx net addr st)) i = ap_lz st i)"

lemma sparesD: "spares C f \<Longrightarrow> f ctx net addr st = (r, st') \<Longrightarrow> i \<in> C \<Longrightarrow> ap_lz st' i = ap_lz st i"
  by (metis spares_def snd_conv)

lemma use_spares: "spares C fwd \<Longrightarrow> spares C (use_dialer E fwd u d)"
  by (auto simp: spares_def use_dialer_def case_prod_beta Let_def split: option.split)

lemma build_spares: "spares C fwd \<Longrightarrow> build_dialer E fwd ctx u st = (r, st') \<Longrightarrow> i \<in> C \<Longrightarrow> ap_lz st' i = ap_lz st i"
  by (auto simp: build_dialer_def Let_def dest: sparesD split: if_splits sum.splits prod.splits)

lemma lazy_spares:
  assumes "spares C fwd" and "j \<notin> C"
  shows "spares C (lazy_call E fwd s j)"
  unfolding spares_def
proof (intro allI ballI)
  fix ctx net addr st i
  assume i: "i \<in> C"
  have use: "ap_lz (snd (use_dialer E fwd u d ctx net addr st)) i = ap_lz st i" for u d ctx st
    using use_spares [OF assms(1)] i unfolding spares_def by blast
  show "ap_lz (snd (lazy_call E fwd s j ctx net addr st)) i = ap_lz st i"
  proof (cases "ap_lz st j")
    case SOffline
    let ?st = "st\<lparr>ap_lz := (ap_lz st)(j := SConnecting)\<rparr>"
    obtain r st1 where b: "build_dialer E fwd (de_ctx E j) (pd_url (pm_pds s ! j)) ?st = (r, st1)" by fastforce
    have "i \<noteq> j" using i assms(2) by blast
    then have "ap_lz st1 i = ap_lz st i" using build_spares [OF assms(1) b i] by simp
    then show ?thesis using SOffline b use \<open>i \<noteq> j\<close> by (simp add: lazy_call_def Let_def split: sum.split)
  qed (simp_all add: lazy_call_def use Let_def)
qed

lemma app_dial_spares:
  assumes "pm_rs s = Some (trie_of (de_lower E) grow rules)" and "C \<inter> set (rule_lazies rules) = {}"
  shows "spares C (app_dial E s n)"
proof (induction n)
  case (Suc n)
  show ?case
    unfolding spares_def
  proof (intro allI)
    fix ctx net addr st
    have "\<forall>i \<in> C. ap_lz (snd (rule_dialer (de_lower E) ce (lazy_call E (app_dial E s n) s) t ctx net a st)) i = ap_lz st i"
      if "addr_target E rules addr = Some t" for t ce a
    proof (rule spare_effect.rule_effect)
      fix i ctx net addr' st
      assume "i \<in> set (target_lazies t)"
      then have "i \<in> set (rule_lazies rules)" using that by (intro addr_lazies_in_rules [of i E rules addr]) (simp add: addr_lazies_def)
      then have "i \<notin> C" using assms(2) by auto
      from lazy_spares [OF Suc this]
      show "\<forall>k \<in> C. ap_lz (snd (lazy_call E (app_dial E s n) s i ctx net addr' st)) k = ap_lz st k"
        unfolding spares_def by blast
    qed
    then show "\<forall>i \<in> C. ap_lz (snd (app_dial E s (Suc n) ctx net addr st)) i = ap_lz st i"
      by (simp add: app_step_rules [OF assms(1)] split: sum.split option.split)
  qed
qed (simp add: spares_def)

text \<open>Without idle timeouts no call starts a timer.\<close>

interpretation idle_effect: dial_effect "\<lambda>st st'. ap_armed st' = ap_armed st"
  by unfold_locales simp_all

definition no_timers :: "('x, 'c, ('d, 'w) app_st) dialer \<Rightarrow> bool" where
  "no_timers f \<longleftrightarrow> (\<forall>ctx net addr st. ap_armed (snd (f ctx net addr st)) = ap_armed st)"

lemma no_timersD: "no_timers f \<Longrightarrow> f ctx net addr st = (r, st') \<Longrightarrow> ap_armed st' = ap_armed st"
  by (metis no_timers_def snd_conv)

lemma outside_no_timers [simp]: "ap_armed (snd (outside d ctx net addr st)) = ap_armed st"
  by (simp add: outside_def case_prod_beta Let_def)

lemma use_no_timers: "no_timers fwd \<Longrightarrow> no_timers (use_dialer E fwd u d)"
  by (auto simp: no_timers_def use_dialer_def case_prod_beta Let_def split: option.split)

lemma build_no_timers: "no_timers fwd \<Longrightarrow> build_dialer E fwd ctx u st = (r, st') \<Longrightarrow> ap_armed st' = ap_armed st"
  by (auto simp: build_dialer_def Let_def dest: no_timersD split: if_splits sum.splits prod.splits)

lemma lazy_no_timers:
  assumes "no_timers fwd" and "pd_timeout (pm_pds s ! i) \<le> 0"
  shows "no_timers (lazy_call E fwd s i)"
  unfolding no_timers_def
proof (intro allI)
  fix ctx net addr st
  note t = timer_idle [OF assms(2)]
  have use: "ap_armed (snd (use_dialer E fwd u d ctx net addr st)) = ap_armed st" for u d ctx st
    using use_no_timers [OF assms(1)] unfolding no_timers_def by blast
  show "ap_armed (snd (lazy_call E fwd s i ctx net addr st)) = ap_armed st"
  proof (cases "ap_lz st i")
    case SOffline
    let ?st = "st\<lparr>ap_lz := (ap_lz st)(i := SConnecting)\<rparr>"
    obtain r st1 where b: "build_dialer E fwd (de_ctx E i) (pd_url (pm_pds s ! i)) ?st = (r, st1)" by fastforce
    then have "ap_armed st1 = ap_armed st" using build_no_timers [OF assms(1) b] by simp
    then show ?thesis using SOffline b use by (simp add: lazy_call_def t halt_def Let_def split: sum.split)
  qed (simp_all add: lazy_call_def use t halt_def Let_def)
qed

lemma app_dial_no_timers:
  assumes "pm_rs s = Some (trie_of (de_lower E) grow rules)" and "\<And>i. i \<in> set (rule_lazies rules) \<Longrightarrow> pd_timeout (pm_pds s ! i) \<le> 0"
  shows "no_timers (app_dial E s n)"
proof (induction n)
  case (Suc n)
  show ?case
    unfolding no_timers_def
  proof (intro allI)
    fix ctx net addr st
    have "ap_armed (snd (rule_dialer (de_lower E) ce (lazy_call E (app_dial E s n) s) t ctx net a st)) = ap_armed st"
      if "addr_target E rules addr = Some t" for t ce a
    proof (rule idle_effect.rule_effect)
      fix i ctx net addr' st
      assume "i \<in> set (target_lazies t)"
      then have "i \<in> set (rule_lazies rules)" using that by (intro addr_lazies_in_rules [of i E rules addr]) (simp add: addr_lazies_def)
      from lazy_no_timers [OF Suc assms(2) [OF this]]
      show "ap_armed (snd (lazy_call E (app_dial E s n) s i ctx net addr' st)) = ap_armed st"
        unfolding no_timers_def by blast
    qed
    then show "ap_armed (snd (app_dial E s (Suc n) ctx net addr st)) = ap_armed st"
      by (simp add: app_step_rules [OF assms(1)] halt_def split: sum.split option.split)
  qed
qed (simp add: no_timers_def halt_def)

text \<open>A call on a lazy dialer of a set whose members all wait for a member, by a build that has not begun or has not ended.\<close>

definition entangled ::
  "('x, 'c, 'd, 'k, 'w) dial_env \<Rightarrow> pacman \<Rightarrow> (string \<times> target option) list \<Rightarrow> nat set \<Rightarrow> bool" where
  "entangled E s rules C \<longleftrightarrow> (\<forall>i \<in> C. let u = pd_url (pm_pds s ! i) in
     u_scheme u = ''ssh'' \<and> \<not> isl (ssh_auth (de_read E) (de_key E) u) \<and>
     \<not> isl (split_host_port (ssh_addr u)) \<and> (\<exists>j \<in> C. addr_target E rules (ssh_addr u) = Some (ToLazy j)))"

lemma entangled_sleeps:
  assumes "pm_rs s = Some (trie_of (de_lower E) grow rules)" and "entangled E s rules C" and "finite C"
  shows "i \<in> C \<Longrightarrow> addr_target E rules addr = Some (ToLazy i) \<Longrightarrow> \<forall>j \<in> C. ap_lz st j \<in> {SOffline, SConnecting} \<Longrightarrow>
    card {j \<in> C. ap_lz st j = SOffline} < n \<Longrightarrow> ap_fate st = Going \<Longrightarrow> ap_fate (snd (app_dial E s n ctx net addr st)) = Asleep"
proof (induction n arbitrary: i ctx net addr st)
  case (Suc n)
  let ?u = "pd_url (pm_pds s ! i)" and ?st = "st\<lparr>ap_lz := (ap_lz st)(i := SConnecting)\<rparr>"
  obtain hp where hp: "split_host_port addr = Inr hp"
    using Suc.prems(2) by (cases "split_host_port addr") (auto simp: addr_target_def)
  have "ap_fate (snd (lazy_call E (app_dial E s n) s i ctx net a st)) = Asleep" for a
  proof (cases "ap_lz st i")
    case SOffline
    have u: "u_scheme ?u = ''ssh''" "\<not> isl (ssh_auth (de_read E) (de_key E) ?u)"
      using assms(2) Suc.prems(1) by (auto simp: entangled_def Let_def)
    obtain j where j: "j \<in> C" "addr_target E rules (ssh_addr ?u) = Some (ToLazy j)"
      using assms(2) Suc.prems(1) by (auto simp: entangled_def Let_def)
    have "{j \<in> C. ap_lz ?st j = SOffline} \<subset> {j \<in> C. ap_lz st j = SOffline}" using SOffline Suc.prems(1) by auto
    moreover have "finite {j \<in> C. ap_lz st j = SOffline}" using assms(3) by simp
    ultimately have "card {j \<in> C. ap_lz ?st j = SOffline} < card {j \<in> C. ap_lz st j = SOffline}" by (rule psubset_card_mono [rotated])
    then have "card {j \<in> C. ap_lz ?st j = SOffline} < n" using Suc.prems(4) by linarith
    then have "ap_fate (snd (app_dial E s n (de_ctx E i) ''tcp'' (ssh_addr ?u) ?st)) = Asleep"
      using Suc.prems(3,5) by (intro Suc.IH [OF j]) auto
    then have "ap_fate (snd (build_dialer E (app_dial E s n) (de_ctx E i) ?u ?st)) = Asleep"
      using u by (cases "ssh_auth (de_read E) (de_key E) ?u") (simp_all add: build_dialer_def case_prod_beta Let_def)
    then show ?thesis using SOffline Suc.prems(5) by (simp add: lazy_call_def halt_def case_prod_beta Let_def)
  qed (use Suc.prems(1,3,5) in \<open>auto simp: lazy_call_def halt_def Let_def\<close>)
  then show ?case using Suc.prems(2,5) hp
    by (cases hp) (simp add: app_step_rules [OF assms(1)])
qed simp

text \<open>The same with dialers that reach their servers at every call, like those of \<open>proxy.FromURL\<close> for SOCKS5.\<close>

definition circular ::
  "('x, 'c, 'd, 'k, 'w) dial_env \<Rightarrow> pacman \<Rightarrow> (string \<times> target option) list \<Rightarrow> nat set \<Rightarrow> bool" where
  "circular E s rules C \<longleftrightarrow> (\<forall>i \<in> C. let u = pd_url (pm_pds s ! i) in
     u_scheme u \<notin> {''ssh'', ''anyconnect'', ''gp''} \<and> \<not> isl (de_from_url E u) \<and>
     (\<exists>a. de_server E u = Some a \<and> (\<exists>j \<in> C. addr_target E rules a = Some (ToLazy j))))"

lemma circular_too_deep:
  assumes "pm_rs s = Some (trie_of (de_lower E) grow rules)" and "circular E s rules C"
  shows "i \<in> C \<Longrightarrow> addr_target E rules addr = Some (ToLazy i) \<Longrightarrow>
    \<forall>j \<in> C. ap_lz st j = SOffline \<or> (\<exists>d. ap_lz st j = SOnline d) \<Longrightarrow> ap_fate st = Going \<Longrightarrow>
    ap_fate (snd (app_dial E s n ctx net addr st)) = TooDeep"
proof (induction n arbitrary: i ctx net addr st)
  case 0
  show ?case by (simp add: halt_def)
next
  case (Suc n)
  let ?u = "pd_url (pm_pds s ! i)"
  obtain hp where hp: "split_host_port addr = Inr hp"
    using Suc.prems(2) by (cases "split_host_port addr") (auto simp: addr_target_def)
  obtain d0 where u: "u_scheme ?u \<notin> {''ssh'', ''anyconnect'', ''gp''}" "de_from_url E ?u = Inr d0"
    using assms(2) Suc.prems(1) by (cases "de_from_url E ?u") (auto simp: circular_def Let_def)
  obtain a j where j: "de_server E ?u = Some a" "j \<in> C" "addr_target E rules a = Some (ToLazy j)"
    using assms(2) Suc.prems(1) by (auto simp: circular_def Let_def)
  have use: "ap_fate (snd (use_dialer E (app_dial E s n) ?u d ctx net b st')) = TooDeep"
    if "\<forall>j \<in> C. ap_lz st' j = SOffline \<or> (\<exists>d. ap_lz st' j = SOnline d)" "ap_fate st' = Going" for ctx d b st'
    using Suc.IH [OF j(2,3) that, of ctx "''tcp''"] j(1)
    by (simp add: use_dialer_def outside_def case_prod_beta Let_def split: option.split)
  have "ap_fate (snd (lazy_call E (app_dial E s n) s i ctx net b st)) = TooDeep" for b
  proof (cases "ap_lz st i")
    case SOffline
    then show ?thesis using u Suc.prems(3,4) use [of "timer s i False (timer s i True (st\<lparr>ap_lz := (ap_lz st)(i := SOnline d0)\<rparr>))"]
      by (simp add: lazy_call_def build_dialer_def)
  next
    case (SOnline d)
    then show ?thesis using Suc.prems(3,4) use by (simp add: lazy_call_def)
  qed (use Suc.prems(1,3) in auto)
  then show ?case using Suc.prems(2,4) hp
    by (cases hp) (simp add: app_step_rules [OF assms(1)])
qed

section \<open>Properties\<close>

definition sample_dial_env :: "(unit, nat, nat, unit, unit) dial_env" where
  "sample_dial_env = \<lparr>de_lower = (\<lambda>x. x), de_hosts = (\<lambda>_. Inr []), de_err = (\<lambda>_ _. None),
     de_net = (\<lambda>_ _ _ w. ((Some 1, None), w)), de_direct = (\<lambda>_ _ _ w. ((Some 1, None), w)), de_ctx = (\<lambda>_. ()), de_merge = (\<lambda>_ _. ()),
     de_read = (\<lambda>_. Inl ErrEOF), de_key = (\<lambda>_. Inl ErrEOF), de_handshake = (\<lambda>_ _ _. Inr 7), de_oc = (\<lambda>_ w. (Inl ErrEOF, w)),
     de_from_url = (\<lambda>_. Inr 8), de_server = (\<lambda>u. if u_scheme u = ''socks5'' then Some ''h:22'' else None),
     de_connect = (\<lambda>_ _ _ _ _ w. ((Some 2, None), w))\<rparr>"

text \<open>One proxy of the given scheme on host \<open>h\<close>, and a rule that sends \<open>to\<close> through it.\<close>

definition sample_proxy :: "string \<Rightarrow> string \<Rightarrow> pacman" where
  "sample_proxy scheme to = start_pacman\<lparr>pm_pds := [new_pooled_dialer ''p'' (empty_url\<lparr>u_scheme := scheme, u_host := ''h''\<rparr>)],
     pm_pool := [(''p'', 0)], pm_rs := Some (trie_of (\<lambda>x. x) (+) [(to, Some (ToLazy 0))])\<rparr>"

definition sample_st :: "(nat, unit) app_st" where
  "sample_st = \<lparr>ap_lz = (\<lambda>_. SOffline), ap_armed = (\<lambda>_. False), ap_fate = Going, ap_w = ()\<rparr>"

lemma sample_ssh_addr: "ssh_addr (empty_url\<lparr>u_scheme := x, u_host := ''h''\<rparr>) = ''h:22''" "split_host_port ''h:22'' = Inr (''h'', ''22'')"
  by code_simp+

lemma sample_rule: "route_value (\<lambda>x. x) [(''h'', Some t)] ''h'' None = Some t"
  by (simp add: route_value_def rules_match_def sample_rule_kinds sample_hosts rule_map_def)

lemma sample_target: "addr_target sample_dial_env [(''h'', Some (ToLazy 0))] ''h:22'' = Some (ToLazy 0)"
  by (simp add: addr_target_def sample_ssh_addr sample_dial_env_def hosts_override_def sample_rule)

lemma sample_rs: "pm_rs (sample_proxy x to) = Some (trie_of (de_lower sample_dial_env) (+) [(to, Some (ToLazy 0))])"
  by (simp add: sample_proxy_def sample_dial_env_def)

lemma sample_auth: "ssh_auth r k (empty_url\<lparr>u_scheme := x, u_host := ''h''\<rparr>) = Inr []"
  by (simp add: ssh_auth_def empty_url_def parse_query_empty values_get_def)



text \<open>C11: A call comes back when no proxy waits for itself: if lazy dialers can be ranked above those that the dialers of their URLs reach
  their servers through, \<open>n\<close> nested calls are enough for ranks below \<open>n\<close>, and no lazy dialer is left connecting.\<close>

theorem app_dial_returns:
  assumes "pm_rs s = Some (trie_of (de_lower E) grow rules)" and "ranked rank E s rules"
    and "\<And>i. i \<in> set (rule_lazies rules) \<Longrightarrow> rank i < n" and "ap_fate st = Going" and "\<And>i. ap_lz st i \<noteq> SConnecting"
  shows "ap_fate (snd (app_dial E s (Suc n) ctx net addr st)) = Going \<and>
    (\<forall>i. ap_lz (snd (app_dial E s (Suc n) ctx net addr st)) i \<noteq> SConnecting)"
  using assms by (rule dial_settled)

lemma app_dial_returns_witness:
  "ap_fate (snd (app_dial sample_dial_env (sample_proxy ''ssh'' ''i'') 2 () ''tcp'' ''i:80'' sample_st)) = Going"
proof -
  have k: "rule_kind ''i'' = HostName ''i''" "parse_ip ''h'' = None" by code_simp+
  have "canonocalize_host (\<lambda>x. x) ''i'' = ''i''" using canonocalize_graphic [of "''i''" "\<lambda>x. x"] by (simp add: lower_char_def)
  then have "route_value (\<lambda>x. x) [(''i'', Some (ToLazy 0))] ''h'' None = None"
    by (simp add: route_value_def rules_match_def k sample_hosts rule_map_def zone_rules_match_def lone_zone_def split_host_def)
  then have a: "addr_lazies sample_dial_env [(''i'', Some (ToLazy 0))] ''h:22'' = []"
    by (simp add: addr_lazies_def addr_target_def sample_ssh_addr sample_dial_env_def hosts_override_def)
  have "ranked (\<lambda>_. 0) sample_dial_env (sample_proxy ''ssh'' ''i'') [(''i'', Some (ToLazy 0))]"
    by (simp add: ranked_def rule_lazies_def waits_for_def forwards_def sample_proxy_def sample_ssh_addr a) (simp add: sample_dial_env_def)
  from app_dial_returns [OF sample_rs this, of 1 sample_st "()" "''tcp''" "''i:80''"]
  show ?thesis by (simp add: sample_st_def numeral_2_eq_2 del: app_dial.simps)
qed

text \<open>C12: Proxies that reach their SSH servers through each other never connect: a call that starts to build one of them sleeps for
  ever, since \<open>DialContext\<close> of a connecting lazy dialer looks at no context. One proxy whose own rule matches its server's
  host is enough.\<close>

theorem proxy_cycle_never_returns:
  assumes "pm_rs s = Some (trie_of (de_lower E) grow rules)" and "entangled E s rules C" and "finite C" and "card C < n"
    and "i \<in> C" and "addr_target E rules addr = Some (ToLazy i)" and "ap_fate st = Going" and "\<And>j. ap_lz st j = SOffline"
  shows "ap_fate (snd (app_dial E s n ctx net addr st)) = Asleep"
proof (rule entangled_sleeps [OF assms(1,2,3,5,6) _ _ assms(7)])
  show "card {j \<in> C. ap_lz st j = SOffline} < n" using assms(4,8) by simp
qed (simp add: assms(8))

lemma proxy_cycle_never_returns_witness:
  "ap_fate (snd (app_dial sample_dial_env (sample_proxy ''ssh'' ''h'') 2 () ''tcp'' ''h:22'' sample_st)) = Asleep"
proof (rule proxy_cycle_never_returns [OF sample_rs])
  show "entangled sample_dial_env (sample_proxy ''ssh'' ''h'') [(''h'', Some (ToLazy 0))] {0}"
    by (simp add: entangled_def sample_proxy_def sample_ssh_addr sample_target sample_auth)
qed (simp_all add: sample_target sample_st_def)

text \<open>The same for proxies whose dialers reach their servers at every call, as those of \<open>proxy.FromURL\<close> for SOCKS5 do: a call
  dials itself until the stack runs out, however much of it there is.\<close>

theorem socks_cycle_overflows:
  assumes "pm_rs s = Some (trie_of (de_lower E) grow rules)" and "circular E s rules C"
    and "i \<in> C" and "addr_target E rules addr = Some (ToLazy i)" and "ap_fate st = Going"
    and "\<And>j. ap_lz st j = SOffline \<or> (\<exists>d. ap_lz st j = SOnline d)"
  shows "ap_fate (snd (app_dial E s n ctx net addr st)) = TooDeep"
  using circular_too_deep [OF assms(1-4) _ assms(5)] assms(6) by simp

lemma socks_cycle_overflows_witness:
  "ap_fate (snd (app_dial sample_dial_env (sample_proxy ''socks5'' ''h'') 1000 () ''tcp'' ''h:22'' sample_st)) = TooDeep"
proof (rule socks_cycle_overflows [OF sample_rs])
  show "circular sample_dial_env (sample_proxy ''socks5'' ''h'') [(''h'', Some (ToLazy 0))] {0}"
    using sample_target by (simp add: circular_def sample_proxy_def) (simp add: sample_dial_env_def)
qed (simp_all add: sample_target sample_st_def)

end
