(* ===== verification/AppServe.thy ===== *)
theory AppServe
  imports AppDial
begin

text \<open>
  What the servers rely on when they dial through the application: a call that comes back has a connection or an error,
  never both and never neither. \<open>CONNECT\<close> requests and forwarded channels close what they were given without looking:
  a nil connection without an error would be a panic. The combinators of \<open>pkg/dialer\<close> keep the contract, an empty
  \<open>Chain\<close> apart, and \<open>LoadConfig\<close> makes none of those.
\<close>

section \<open>The contract of a dialer\<close>

text \<open>\<open>counts\<close> tells which final states belong to a call that came back.\<close>

definition one_result :: "'c option \<times> goerr option \<Rightarrow> bool" where
  "one_result r \<longleftrightarrow> (fst r = None) \<noteq> (snd r = None)"

definition answers :: "('w \<Rightarrow> bool) \<Rightarrow> ('x, 'c, 'w) dialer \<Rightarrow> bool" where
  "answers counts d \<longleftrightarrow> (\<forall>ctx net addr w. counts (snd (d ctx net addr w)) \<longrightarrow> one_result (fst (d ctx net addr w)))"

named_theorems answers_intros

lemma one_result_simps [simp]:
  "one_result (Some c, None)" "one_result (None, Some e)" "\<not> one_result (None, None)" "\<not> one_result (Some c, Some e)"
  by (simp_all add: one_result_def)

lemma answersD: "answers counts d \<Longrightarrow> d ctx net addr w = (r, w') \<Longrightarrow> counts w' \<Longrightarrow> one_result r"
  by (metis answers_def fst_conv snd_conv)

lemma answersI: "(\<And>ctx net addr w r w'. d ctx net addr w = (r, w') \<Longrightarrow> counts w' \<Longrightarrow> one_result r) \<Longrightarrow> answers counts d"
  unfolding answers_def by (metis surjective_pairing)

lemma chain_loop_answers:
  assumes "\<And>d. d \<in> set ds \<Longrightarrow> answers counts d"
  shows "chain_loop ctx_err ctx net addr errs ds w = (r, w') \<Longrightarrow> counts w' \<Longrightarrow> ds \<noteq> [] \<or> errs \<noteq> [] \<Longrightarrow> one_result r"
  using assms
proof (induction ds arbitrary: errs w)
  case Nil
  then show ?case by (auto simp: errors_join_def)
next
  case (Cons d ds)
  obtain c e w1 where d: "d ctx net addr w = ((c, e), w1)" by (metis surj_pair)
  show ?case
  proof (cases "ctx_err ctx w")
    case live: None
    show ?thesis
    proof (cases e)
      case None
      then show ?thesis using Cons.prems live d answersD [OF Cons.prems(4) [of d], of ctx net addr w] by simp
    next
      case (Some x)
      then show ?thesis using Cons.prems live d Cons.IH [of "errs @ [x]" w1] by simp
    qed
  qed (use Cons.prems in auto)
qed

lemma chain_answers [answers_intros]:
  "ds \<noteq> [] \<Longrightarrow> (\<And>d. d \<in> set ds \<Longrightarrow> answers counts d) \<Longrightarrow> answers counts (chain_dial_context ctx_err ds)"
  by (rule answersI) (auto simp: chain_dial_context_def intro: chain_loop_answers)

lemma rewriting_answers [answers_intros]: "answers counts d \<Longrightarrow> answers counts (rewriting_dial_context ul d suff)"
  by (rule answersI)
    (auto simp: rewriting_dial_context_def Let_def dest: answersD split: sum.splits prod.splits if_splits)

lemma outside_answers [answers_intros]: "answers (\<lambda>_. True) d \<Longrightarrow> answers counts (outside d)"
  by (rule answersI) (auto simp: outside_def Let_def dest: answersD split: prod.splits)

lemma rule_dialer_answers [answers_intros]:
  "t \<noteq> ToChain [] \<Longrightarrow> (\<And>i. answers counts (L i)) \<Longrightarrow> answers counts (rule_dialer ul ctx_err L t)"
  by (cases t) (auto intro!: answers_intros)

section \<open>Calls of the application\<close>

abbreviation going :: "('d, 'w) app_st \<Rightarrow> bool" where
  "going st \<equiv> ap_fate st = Going"

text \<open>The dialers that the application is made of: the network's, and those that were built.\<close>

definition env_answers :: "('x, 'c, 'd, 'k, 'w) dial_env \<Rightarrow> bool" where
  "env_answers E \<longleftrightarrow> answers (\<lambda>_. True) (de_net E) \<and> (\<forall>d c. answers (\<lambda>_. True) (de_connect E d c))"

lemma outside_fate: "outside d ctx net addr st = (r, st') \<Longrightarrow> ap_fate st' = ap_fate st"
  by (auto simp: outside_def Let_def split: prod.splits)

lemma use_answers: "env_answers E \<Longrightarrow> answers going (use_dialer E fwd u d)"
  using outside_answers [of "de_connect E d _" going]
  by (intro answersI) (auto simp: use_dialer_def env_answers_def Let_def dest: answersD split: option.splits prod.splits)

lemma lazy_answers: "env_answers E \<Longrightarrow> answers going (lazy_call E fwd s i)"
  using answersD [OF use_answers [of E fwd]]
  by (intro answersI) (auto simp: lazy_call_def halt_def Let_def split: if_splits conn_spec.splits sum.splits prod.splits)

text \<open>Whatever the depth: a call that came back has one result.\<close>

lemma app_step_answers:
  assumes "pm_rs s = Some (trie_of (de_lower E) grow rules)" and "\<And>r. (r, Some (ToChain [])) \<notin> set rules" and "env_answers E"
  shows "answers going (app_step E s fwd)"
proof (rule answersI)
  fix ctx net addr st r st'
  assume step: "app_step E s fwd ctx net addr st = (r, st')" and g: "going st'"
  have t: "answers going (rule_dialer (de_lower E) ce (lazy_call E fwd s) t)" if "addr_target E rules addr = Some t" for t ce
    using addr_target_range [OF that] assms(2) lazy_answers [OF assms(3)] by (intro answers_intros) auto
  have n: "answers going (outside (de_net E))" using assms(3) by (auto simp: env_answers_def intro: answers_intros)
  show "one_result r"
    using step g answersD [OF t, where r = r and w' = st'] answersD [OF n, where r = r and w' = st']
    by (auto simp: app_step_rules [OF assms(1)] halt_def split: if_splits sum.splits option.splits prod.splits)
qed

lemma app_dial_answers:
  assumes "pm_rs s = Some (trie_of (de_lower E) grow rules)" and "\<And>r. (r, Some (ToChain [])) \<notin> set rules" and "env_answers E"
  shows "answers going (app_dial E s n)"
  using app_step_answers [OF assms] by (cases n) (auto simp: halt_def intro: answersI)

text \<open>The two servers go on with what they were given.\<close>

lemma tunnel_no_panic: "one_result (te_dial F ''tcp'' host) \<Longrightarrow> tunnel F host w \<noteq> None"
  by (auto simp: tunnel_def one_result_def Let_def split: option.splits prod.splits)

lemma direct_tcpip_no_panic: "(\<And>addr. one_result (dial ''tcp'' addr)) \<Longrightarrow> handle_direct_tcpip unm err_text accept dial sched first extra \<noteq> None"
proof (cases "unm extra")
  case (Inr payload)
  assume "\<And>addr. one_result (dial ''tcp'' addr)"
  from this [of "target_addr payload"] Inr show ?thesis
    by (cases "dial ''tcp'' (target_addr payload)")
      (auto simp: handle_direct_tcpip_def one_result_def Let_def split: option.splits)
qed (simp add: handle_direct_tcpip_def)

section \<open>What a loaded configuration gives them\<close>

definition loaded_rules :: "((string, url option) gomap \<Rightarrow> (string \<times> url option) list) \<Rightarrow> config \<Rightarrow> pacman \<Rightarrow> (string \<times> target option) list" where
  "loaded_rules ordp cfg s = map (\<lambda>(h, v). (h, map_option (named_target (\<lambda>k. the (map_of (pm_pool s) k))) v))
     (named_rules (ordp (cf_proxies cfg)) (cf_rules cfg))"

text \<open>The rules of a configuration have no empty chain, and name dialers of the pool.\<close>

lemma loaded_rules_no_empty_chain: "(r, Some (ToChain [])) \<notin> set (loaded_rules ordp cfg s)"
  by (auto simp: loaded_rules_def named_rules_def split: option.splits list.splits if_splits)

fun named_labels :: "named \<Rightarrow> string list" where
  "named_labels (Label k) = [k]"
| "named_labels (Through ks) = ks"

lemma named_target_lazies: "target_lazies (named_target f v) = map f (named_labels v)"
  by (cases v) (auto split: list.split)

lemma named_rules_dom:
  assumes "ordered ordp" and "\<forall>q. Some q \<in> set (cf_rules cfg) \<longrightarrow> set (cr_proxies q) \<subseteq> dom (map_of (cf_proxies cfg))"
    and "(r, Some v) \<in> set (named_rules (ordp (cf_proxies cfg)) (cf_rules cfg))" and "k \<in> set (named_labels v)"
  shows "k \<in> dom (map_of (cf_proxies cfg))"
proof -
  have r: "range_of (cf_proxies cfg) (ordp (cf_proxies cfg))" using assms(1) by (simp add: ordered_def)
  show ?thesis
    using assms(2-4) range_of_set [OF r] by (fastforce simp: named_rules_def split: option.splits if_splits)
qed

lemma load_pool_ok:
  "load_config ul grow us ordp ordq cfg s = Some (None, s') \<Longrightarrow> pool_ok s \<Longrightarrow> ordered ordp \<Longrightarrow> ordered ordq \<Longrightarrow> pool_ok s'"
  by (rule load_config_parts) assumption+

lemma loaded_in_pool:
  assumes "load_config ul grow us ordp ordq cfg s = Some (None, s')" and "pool_ok s" and "ordered ordp" and "ordered ordq"
    and "\<forall>q. Some q \<in> set (cf_rules cfg) \<longrightarrow> set (cr_proxies q) \<subseteq> dom (map_of (cf_proxies cfg))"
    and "i \<in> set (rule_lazies (loaded_rules ordp cfg s'))"
  shows "\<exists>k u. map_of (cf_proxies cfg) k = Some (Some u) \<and> map_of (pm_pool s') k = Some i \<and> us (pd_url (pm_pds s' ! i)) = us u"
proof -
  obtain r t where t: "(r, Some t) \<in> set (loaded_rules ordp cfg s')" "i \<in> set (target_lazies t)"
    using assms(6) by (auto simp: rule_lazies_def split: option.splits)
  obtain v where v: "(r, Some v) \<in> set (named_rules (ordp (cf_proxies cfg)) (cf_rules cfg))"
    "t = named_target (\<lambda>k. the (map_of (pm_pool s') k)) v"
    using t(1) by (auto simp: loaded_rules_def eq_commute [of "Some t"])
  obtain k where k: "i = the (map_of (pm_pool s') k)" "k \<in> set (named_labels v)"
    using t(2) v(2) by (auto simp: named_target_lazies)
  have "k \<in> dom (map_of (cf_proxies cfg))" by (rule named_rules_dom [OF assms(3,5) v(1) k(2)])
  then obtain u where u: "map_of (cf_proxies cfg) k = Some u" by blast
  show ?thesis
  proof (rule load_config_parts [OF assms(2-4,1)])
    fix s1
    assume p: "map_of (pm_pool s') = (\<lambda>k. if map_of (cf_proxies cfg) k = None then None else map_of (pm_pool s1) k)"
      and n: "\<And>k u. map_of (cf_proxies cfg) k = Some u \<Longrightarrow> \<exists>v i. u = Some v \<and> map_of (pm_pool s1) k = Some i \<and>
        us (pd_url (pm_pds s' ! i)) = us v \<and> (if current us s k v then map_of (pm_pool s) k = Some i else length (pm_pds s) \<le> i)"
    from n [OF u] obtain v j where "u = Some v" "map_of (pm_pool s1) k = Some j" "us (pd_url (pm_pds s' ! j)) = us v" by blast
    moreover from this(2) have "map_of (pm_pool s') k = Some j" using p u by simp
    ultimately show ?thesis using u k(1) by auto
  qed
qed

section \<open>Properties\<close>

text \<open>C23: Under a loaded configuration whose rules name configured proxies only and in which no proxy reaches its server through itself,
  neither a \<open>CONNECT\<close> request nor a forwarded channel ever meets a nil connection, whatever fails on the way.\<close>

theorem served_dials_never_panic:
  assumes "pool_ok s" and "ordered ordp" and "ordered ordq" and "load_config (de_lower E) grow us ordp ordq cfg s = Some (None, s')"
    and "\<forall>q. Some q \<in> set (cf_rules cfg) \<longrightarrow> set (cr_proxies q) \<subseteq> dom (map_of (cf_proxies cfg))"
    and "ranked rank E s' (loaded_rules ordp cfg s')" and "\<And>i. i \<in> set (rule_lazies (loaded_rules ordp cfg s')) \<Longrightarrow> rank i < n"
    and "env_answers E" and "ap_fate st = Going" and "\<And>i. ap_lz st i \<noteq> SConnecting"
    and "te_dial F = (\<lambda>net addr. fst (app_dial E s' (Suc n) ctx net addr st))"
  shows "tunnel F host w \<noteq> None \<and> handle_direct_tcpip unm err_text accept (te_dial F) sched first extra \<noteq> None"
proof -
  have rs: "pm_rs s' = Some (trie_of (de_lower E) grow (loaded_rules ordp cfg s'))"
    using load_config_named [OF assms(1-5)] by (simp add: loaded_rules_def)
  have "ap_fate (snd (app_dial E s' (Suc n) ctx net addr st)) = Going" for net addr
    using dial_settled [OF rs assms(6,7,9,10)] by blast
  moreover have "answers going (app_dial E s' (Suc n))"
    by (rule app_dial_answers [OF rs loaded_rules_no_empty_chain assms(8)])
  ultimately have "one_result (te_dial F net addr)" for net addr
    unfolding assms(11) answers_def by blast
  then show ?thesis using tunnel_no_panic direct_tcpip_no_panic by blast
qed

lemma sample_load_pds:
  "\<exists>s'. load_config (de_lower sample_dial_env) (+) u_host AList.clearjunk AList.clearjunk sample_routing start_pacman = Some (None, s') \<and>
     pm_pds s' = [new_pooled_dialer ''a'' empty_url]"
  by (simp add: load_config_def sample_routing_def sample_config_def start_pacman_def run_deferred_def Let_def case_prod_beta)

lemma served_dials_never_panic_witness:
  "\<exists>s'. load_config (de_lower sample_dial_env) (+) u_host AList.clearjunk AList.clearjunk sample_routing start_pacman = Some (None, s') \<and>
    (let dial = \<lambda>net addr. fst (app_dial sample_dial_env s' 2 () net addr sample_st) in
      tunnel \<lparr>te_hijacker = True, te_dial = dial, te_hijack = None, te_write = None, te_sched = [], te_dest_first = False\<rparr> ''h:22'' new_writer \<noteq> None \<and>
      handle_direct_tcpip (\<lambda>_. Inr \<lparr>dp_host = ''h'', dp_port = 22, dp_originator = [], dp_originator_port = 0\<rparr>) (\<lambda>_. []) None dial [] True [] \<noteq> None)"
proof -
  obtain s' where s': "load_config (de_lower sample_dial_env) (+) u_host AList.clearjunk AList.clearjunk sample_routing start_pacman = Some (None, s')"
    "pm_pds s' = [new_pooled_dialer ''a'' empty_url]"
    using sample_load_pds by blast
  have c: "\<forall>q. Some q \<in> set (cf_rules sample_routing) \<longrightarrow> set (cr_proxies q) \<subseteq> dom (map_of (cf_proxies sample_routing))"
    by (simp add: sample_routing_def sample_config_def)
  have f: "forwards sample_dial_env empty_url = []" by (simp add: forwards_def sample_dial_env_def empty_url_def)
  have i: "i = 0" if "i \<in> set (rule_lazies (loaded_rules AList.clearjunk sample_routing s'))" for i
    using loaded_in_pool [OF s'(1) start_pool_ok ordered_clearjunk ordered_clearjunk c that]
      load_pool_ok [OF s'(1) start_pool_ok ordered_clearjunk ordered_clearjunk] s'(2) by (auto simp: pool_ok_def)
  have rk: "ranked (\<lambda>_. 0) sample_dial_env s' (loaded_rules AList.clearjunk sample_routing s')"
    unfolding ranked_def waits_for_def using i s'(2) f by (auto dest!: i)
  have "env_answers sample_dial_env" by (simp add: env_answers_def answers_def sample_dial_env_def)
  note never = served_dials_never_panic [OF start_pool_ok ordered_clearjunk ordered_clearjunk s'(1) c _ _ this, of "\<lambda>_. 0" 1 sample_st]
  let ?dial = "\<lambda>net addr. fst (app_dial sample_dial_env s' 2 () net addr sample_st)"
  show ?thesis
    unfolding Let_def
  proof (intro exI [of _ s'] conjI)
    show "tunnel \<lparr>te_hijacker = True, te_dial = ?dial, te_hijack = None, te_write = None, te_sched = [], te_dest_first = False\<rparr> ''h:22'' new_writer \<noteq> None"
      by (rule never [THEN conjunct1]) (simp_all add: rk sample_st_def numeral_2_eq_2 del: app_dial.simps)
    show "handle_direct_tcpip (\<lambda>_. Inr \<lparr>dp_host = ''h'', dp_port = 22, dp_originator = [], dp_originator_port = 0\<rparr>) (\<lambda>_. []) None ?dial [] True [] \<noteq> None"
      using never [THEN conjunct2, of "\<lparr>te_hijacker = True, te_dial = ?dial, te_hijack = None, te_write = None, te_sched = [], te_dest_first = False\<rparr>"]
      by (simp add: rk sample_st_def numeral_2_eq_2 del: app_dial.simps)
  qed (rule s'(1))
qed

end
