(* ===== verification/AppLife.thy ===== *)
theory AppLife
  imports AppServe AppRun LazyPool
begin

text \<open>
  The application in use: clients dial one after another, the configuration is reloaded, sessions end, and the user closes and
  resets proxies from the menu. The first theorem: when every configuration names its own proxies, none of them reaches its
  server through itself and all of them turn the idle timeout off, each dial comes back with a connection or an error, nothing panics, and a
  dialer that a reload has closed is never connected again. With an idle timeout one connection and a pause are enough for a panic.
  The second theorem is about clients at the same time: they cannot deadlock the lazy dialers of such a configuration.
\<close>

section \<open>Operations\<close>

record ('c, 'd, 'w) life =
  lf_pm :: pacman
  lf_st :: "('d, 'w) app_st"
  lf_answers :: "('c option \<times> goerr option) list"

text \<open>
  The operations come one after the other, each when the one before has done all its work. \<open>ConnEndsOp i\<close> is the end of a connection through
  dialer \<open>i\<close>, \<open>IdleOp i\<close> a pause as long as its timeout.
\<close>

datatype 'x life_op =
  DialOp 'x string string | ReloadOp config | LostOp nat | CloseOp nat | ResetOp nat | ConnEndsOp nat | IdleOp nat

text \<open>
  \<open>Close\<close> of a lazy dialer takes an online one down and leaves the others; the end of its session does the same. \<open>Reset\<close> forgets a
  failure. No dialer is being built between two operations.
\<close>

fun close_conn :: "'d conn_spec \<Rightarrow> 'd conn_spec" where
  "close_conn (SOnline d) = SOffline"
| "close_conn c = c"

fun reset_conn :: "'d conn_spec \<Rightarrow> 'd conn_spec" where
  "reset_conn (SFailed e) = SOffline"
| "reset_conn c = c"

definition set_conns :: "nat list \<Rightarrow> ('d conn_spec \<Rightarrow> 'd conn_spec) \<Rightarrow> ('d, 'w) app_st \<Rightarrow> ('d, 'w) app_st" where
  "set_conns is f st = st\<lparr>ap_lz := (\<lambda>i. if i \<in> set is then f (ap_lz st i) else ap_lz st i)\<rparr>"

text \<open>
  The end of a connection starts the idle timer of an online dialer again. A timer that runs out takes an online dialer down,
  and then the callback on the end of the context panics, as the property \<open>lazy_idle_timeout_panics\<close> of \<open>LazyDialer\<close> shows.
\<close>

definition conn_ends :: "pacman \<Rightarrow> nat \<Rightarrow> ('d, 'w) app_st \<Rightarrow> ('d, 'w) app_st" where
  "conn_ends s i st = (case ap_lz st i of
     SOnline d \<Rightarrow> if i < length (pm_pds s) then timer s i True st else st
   | _ \<Rightarrow> st)"

definition idle :: "nat \<Rightarrow> ('d, 'w) app_st \<Rightarrow> ('d, 'w) app_st" where
  "idle i st =
     (if \<not> ap_armed st i then st
      else let st = st\<lparr>ap_armed := (ap_armed st)(i := False)\<rparr> in
        (case ap_lz st i of
           SOnline d \<Rightarrow> st\<lparr>ap_lz := (ap_lz st)(i := SOffline), ap_fate := Panicked\<rparr>
         | _ \<Rightarrow> st))"

text \<open>The dialers that a reload closes are those that it adds to \<open>pm_closed\<close>. A menu click reaches dialers of the pool only.\<close>

fun life_exec ::
  "('x, 'c, 'd, 'k, 'w) dial_env \<Rightarrow> (config \<Rightarrow> pacman \<Rightarrow> (goerr option \<times> pacman) option) \<Rightarrow> nat \<Rightarrow> 'x life_op \<Rightarrow>
   ('c, 'd, 'w) life \<Rightarrow> ('c, 'd, 'w) life option" where
  "life_exec E load n (DialOp ctx net addr) y =
     (let (r, st) = app_dial E (lf_pm y) n ctx net addr (lf_st y)
      in Some (y\<lparr>lf_st := st, lf_answers := lf_answers y @ [r]\<rparr>))"
| "life_exec E load n (ReloadOp cfg) y = map_option (\<lambda>(err, s).
     y\<lparr>lf_pm := s, lf_st := set_conns (drop (length (pm_closed (lf_pm y))) (pm_closed s)) close_conn (lf_st y)\<rparr>) (load cfg (lf_pm y))"
| "life_exec E load n (LostOp i) y = Some (y\<lparr>lf_st := set_conns [i] close_conn (lf_st y)\<rparr>)"
| "life_exec E load n (CloseOp i) y = Some (if i \<in> set (pool_menu_items (pm_pool (lf_pm y)))
     then y\<lparr>lf_st := set_conns [i] close_conn (lf_st y)\<rparr> else y)"
| "life_exec E load n (ResetOp i) y = Some (if i \<in> set (pool_menu_items (pm_pool (lf_pm y)))
     then y\<lparr>lf_st := set_conns [i] reset_conn (lf_st y)\<rparr> else y)"
| "life_exec E load n (ConnEndsOp i) y = Some (y\<lparr>lf_st := conn_ends (lf_pm y) i (lf_st y)\<rparr>)"
| "life_exec E load n (IdleOp i) y = Some (y\<lparr>lf_st := idle i (lf_st y)\<rparr>)"

fun life_run ::
  "('x, 'c, 'd, 'k, 'w) dial_env \<Rightarrow> (config \<Rightarrow> pacman \<Rightarrow> (goerr option \<times> pacman) option) \<Rightarrow> nat \<Rightarrow> 'x life_op list \<Rightarrow>
   ('c, 'd, 'w) life \<Rightarrow> ('c, 'd, 'w) life option" where
  "life_run E load n [] y = Some y"
| "life_run E load n (a # as) y = Option.bind (life_exec E load n a y) (life_run E load n as)"

interpretation life_runs: runs "life_exec E load n" "life_run E load n" for E load n
  by unfold_locales simp_all

definition life_start :: "pacman \<Rightarrow> 'w \<Rightarrow> ('c, 'd, 'w) life" where
  "life_start s w = \<lparr>lf_pm = s, lf_st = \<lparr>ap_lz = (\<lambda>_. SOffline), ap_armed = (\<lambda>_. False), ap_fate = Going, ap_w = w\<rparr>, lf_answers = []\<rparr>"

section \<open>Configurations without cycles and idle timeouts\<close>

text \<open>The labels that the dialer of a proxy waits for, by the rules of its own configuration.\<close>

definition addr_labels ::
  "('x, 'c, 'd, 'k, 'w) dial_env \<Rightarrow> (string \<times> named option) list \<Rightarrow> string \<Rightarrow> string list" where
  "addr_labels E nrules addr = (case split_host_port addr of
     Inl e \<Rightarrow> []
   | Inr (host, port) \<Rightarrow> (case route_value (de_lower E) nrules host (hosts_override (de_hosts E host) host) of
       None \<Rightarrow> [] | Some v \<Rightarrow> named_labels v))"

text \<open>A URL turns the idle timeout off with \<open>timeout=0\<close>; without the option it is an hour.\<close>

definition well_formed ::
  "('x, 'c, 'd, 'k, 'w) dial_env \<Rightarrow> ((string, url option) gomap \<Rightarrow> (string \<times> url option) list) \<Rightarrow> nat \<Rightarrow> config \<Rightarrow> bool" where
  "well_formed E ordp n cfg \<longleftrightarrow>
     None \<notin> ran (map_of (cf_proxies cfg)) \<and> None \<notin> set (cf_rules cfg) \<and>
     (\<forall>q. Some q \<in> set (cf_rules cfg) \<longrightarrow> set (cr_proxies q) \<subseteq> dom (map_of (cf_proxies cfg))) \<and>
     (\<forall>k u. map_of (cf_proxies cfg) k = Some (Some u) \<longrightarrow> pool_timeout u \<le> 0) \<and>
     (\<exists>rank. \<forall>k u. map_of (cf_proxies cfg) k = Some (Some u) \<longrightarrow> rank k < n \<and>
        (\<forall>a \<in> set (forwards E u). \<forall>k' \<in> set (addr_labels E (named_rules (ordp (cf_proxies cfg)) (cf_rules cfg)) a). rank k' < rank k))"

lemma addr_lazies_named:
  "addr_lazies E (loaded_rules ordp cfg s) a =
     map (\<lambda>k. the (map_of (pm_pool s) k)) (addr_labels E (named_rules (ordp (cf_proxies cfg)) (cf_rules cfg)) a)"
  by (auto simp: addr_lazies_def addr_target_def addr_labels_def loaded_rules_def route_value_map named_target_lazies split: sum.split option.split)

lemma rule_chain_in_pool: "\<forall>p \<in> set ps. map_of pool p \<noteq> None \<Longrightarrow> \<exists>is. rule_chain pool ps = Inr is"
  by (induction ps) (auto simp: bind_res_Inr_iff)

lemma load_rules_in_pool:
  "None \<notin> set rls \<Longrightarrow> \<forall>q. Some q \<in> set rls \<longrightarrow> (\<forall>p \<in> set (cr_proxies q). map_of pool p \<noteq> None) \<Longrightarrow>
   \<exists>rs'. load_rules ul grow pool rls rs = Some (Inr rs')"
proof (induction rls arbitrary: rs)
  case (Cons r rls)
  then obtain q where q: "r = Some q" by (cases r) auto
  then obtain chain where "rule_chain pool (cr_proxies q) = Inr chain" using Cons.prems(2) rule_chain_in_pool [of "cr_proxies q" pool] by auto
  then show ?case using Cons q by simp
qed simp

text \<open>The dialers of a well-formed configuration have no idle timeout, and a reload leaves the old ones as they were.\<close>

definition no_idle :: "pacman \<Rightarrow> bool" where
  "no_idle s \<longleftrightarrow> (\<forall>pd \<in> set (pm_pds s). pd_timeout pd \<le> 0)"

lemma no_idleD: "no_idle s \<Longrightarrow> i < length (pm_pds s) \<Longrightarrow> pd_timeout (pm_pds s ! i) \<le> 0"
  by (simp add: no_idle_def)

lemma no_idle_close: "no_idle s \<Longrightarrow> no_idle (pd_close i s)"
  by (cases "i < length (pm_pds s)") (auto simp: no_idle_def pd_close_def list_update_beyond dest: set_update_subset_insert [THEN subsetD])

lemma no_idle_deferred: "no_idle s \<Longrightarrow> no_idle (run_deferred ds s)"
proof -
  have "no_idle s \<Longrightarrow> no_idle (foldl (\<lambda>s i. pd_close i s) s ds)" for ds s
    by (induction ds arbitrary: s) (simp_all add: no_idle_close)
  then show "no_idle s \<Longrightarrow> no_idle (run_deferred ds s)" by (simp add: run_deferred_def)
qed

lemma new_pooled_timeout [simp]: "pd_timeout (new_pooled_dialer k u) = pool_timeout u"
  by (simp add: new_pooled_dialer_def update_pool_menu_def Let_def)

lemma no_idle_proxies:
  "load_proxies ul grow us ps (s, rs, ds) = Some (s', rs', ds') \<Longrightarrow> no_idle s \<Longrightarrow> \<forall>k u. (k, Some u) \<in> set ps \<longrightarrow> pool_timeout u \<le> 0 \<Longrightarrow>
   no_idle s'"
proof (induction ps arbitrary: s rs ds)
  case (Cons ku ps)
  obtain k ou where ku: "ku = (k, ou)" by fastforce
  from Cons.prems(1) obtain u where u: "ou = Some u" by (cases ou) (simp_all add: ku)
  have "pool_timeout u \<le> 0" using Cons.prems(3) by (auto simp: ku u)
  then show ?case
    using Cons.prems Cons.IH by (fastforce simp: ku u no_idle_def Let_def split: option.splits if_splits)
qed simp

lemma no_idle_load:
  assumes "load_config ul grow us ordp ordq cfg s = Some (None, s')" and "no_idle s" and "ordered ordp" and "well_formed E ordp n cfg"
  shows "no_idle s'"
proof -
  from assms(1) obtain s1 rs1 ds1 r where p: "load_proxies ul grow us (ordp (cf_proxies cfg)) (s, empty_trie, []) = Some (s1, rs1, ds1)"
    and "load_rules ul grow (pm_pool s1) (cf_rules cfg) rs1 = Some r"
    and r: "(case r of Inl e \<Rightarrow> (Some e, run_deferred ds1 s1) | Inr rs \<Rightarrow>
      (case drop_removed (cf_proxies cfg) (ordq (pm_pool s1)) (s1\<lparr>pm_rs := Some rs\<rparr>, ds1) of (s, ds) \<Rightarrow> (None, run_deferred ds s))) = (None, s')"
    by (auto simp: load_config_def bind_eq_Some_conv Let_def)
  have o: "range_of (cf_proxies cfg) (ordp (cf_proxies cfg))" using assms(3) by (simp add: ordered_def)
  have "map_of (cf_proxies cfg) k = Some v" if "(k, v) \<in> set (ordp (cf_proxies cfg))" for k v
    using that range_of_set [OF o] by auto
  moreover have "\<forall>k u. map_of (cf_proxies cfg) k = Some (Some u) \<longrightarrow> pool_timeout u \<le> 0"
    using assms(4) unfolding well_formed_def by blast
  ultimately have "\<forall>k u. (k, Some u) \<in> set (ordp (cf_proxies cfg)) \<longrightarrow> pool_timeout u \<le> 0" by blast
  from no_idle_proxies [OF p assms(2) this] have s1: "no_idle s1" .
  obtain rs where "r = Inr rs" using r by (cases r) auto
  moreover obtain s2 ds2 where d: "drop_removed (cf_proxies cfg) (ordq (pm_pool s1)) (s1\<lparr>pm_rs := Some rs\<rparr>, ds1) = (s2, ds2)"
    by fastforce
  ultimately have "s' = run_deferred ds2 s2" using r by simp
  moreover have "no_idle s2" using drop_removed_parts [OF d] s1 by (simp add: no_idle_def)
  ultimately show ?thesis by (simp add: no_idle_deferred)
qed

text \<open>A well-formed configuration is loaded.\<close>

lemma well_formed_loads:
  assumes "well_formed E ordp n cfg" and "pool_ok s" and "ordered ordp"
  shows "\<exists>s'. load_config ul grow us ordp ordq cfg s = Some (None, s')"
proof -
  have r: "range_of (cf_proxies cfg) (ordp (cf_proxies cfg))" using assms(3) by (simp add: ordered_def)
  have "None \<notin> set (map snd (ordp (cf_proxies cfg)))"
    using assms(1) range_of_set [OF r] by (auto simp: well_formed_def ran_def)
  then obtain s1 rs1 ds1 where p: "load_proxies ul grow us (ordp (cf_proxies cfg)) (s, empty_trie, []) = Some (s1, rs1, ds1)"
    by (metis load_proxies_None option.exhaust prod_cases3)
  have "map_of (pm_pool s1) k \<noteq> None" if "k \<in> dom (map_of (cf_proxies cfg))" for k
    using load_proxies_parts [OF p assms(2)] r that range_of_set [OF r] by (fastforce simp: range_of_def)
  then have "\<forall>q. Some q \<in> set (cf_rules cfg) \<longrightarrow> (\<forall>p \<in> set (cr_proxies q). map_of (pm_pool s1) p \<noteq> None)"
    using assms(1) unfolding well_formed_def by blast
  from load_rules_in_pool [OF _ this] assms(1) obtain rs' where "load_rules ul grow (pm_pool s1) (cf_rules cfg) rs1 = Some (Inr rs')"
    unfolding well_formed_def by metis
  with p show ?thesis by (auto simp: load_config_def Let_def split: prod.split)
qed

lemma addr_labels_dom:
  assumes "ordered ordp" and "\<forall>q. Some q \<in> set (cf_rules cfg) \<longrightarrow> set (cr_proxies q) \<subseteq> dom (map_of (cf_proxies cfg))"
    and "k \<in> set (addr_labels E (named_rules (ordp (cf_proxies cfg)) (cf_rules cfg)) a)"
  shows "k \<in> dom (map_of (cf_proxies cfg))"
proof -
  obtain h v where v: "rules_match (de_lower E) (named_rules (ordp (cf_proxies cfg)) (cf_rules cfg)) h = Some (Some v)" "k \<in> set (named_labels v)"
    using assms(3) by (auto simp: addr_labels_def route_value_def split: sum.splits option.splits)
  from rules_match_range [OF v(1)] obtain r where "(r, Some v) \<in> set (named_rules (ordp (cf_proxies cfg)) (cf_rules cfg))" by blast
  then show ?thesis by (rule named_rules_dom [OF assms(1,2) _ v(2)])
qed

section \<open>The invariant\<close>

text \<open>The rules in force have no empty chain, name dialers of the pool only, and these can be ranked.\<close>

definition in_force ::
  "('x, 'c, 'd, 'k, 'w) dial_env \<Rightarrow> (nat \<Rightarrow> nat \<Rightarrow> nat) \<Rightarrow> nat \<Rightarrow> pacman \<Rightarrow> bool" where
  "in_force E grow n s \<longleftrightarrow> (\<exists>rules rank. pm_rs s = Some (trie_of (de_lower E) grow rules) \<and> (\<forall>r. (r, Some (ToChain [])) \<notin> set rules) \<and>
     (\<forall>i \<in> set (rule_lazies rules). (\<exists>k. map_of (pm_pool s) k = Some i) \<and> rank i < n) \<and> ranked rank E s rules)"

definition life_inv ::
  "('x, 'c, 'd, 'k, 'w) dial_env \<Rightarrow> (nat \<Rightarrow> nat \<Rightarrow> nat) \<Rightarrow> nat \<Rightarrow> ('c, 'd, 'w) life \<Rightarrow> bool" where
  "life_inv E grow n y \<longleftrightarrow> pool_balanced (lf_pm y) [] \<and> in_force E grow n (lf_pm y) \<and> no_idle (lf_pm y) \<and> (\<forall>i. \<not> ap_armed (lf_st y) i) \<and>
     ap_fate (lf_st y) = Going \<and> (\<forall>i. ap_lz (lf_st y) i \<noteq> SConnecting) \<and>
     (\<forall>i \<in> set (pm_closed (lf_pm y)). \<forall>d. ap_lz (lf_st y) i \<noteq> SOnline d) \<and> (\<forall>r \<in> set (lf_answers y). one_result r)"

lemma loaded_ranked:
  assumes load: "load_config (de_lower E) grow us ordp ordq cfg s = Some (None, s')" "pool_ok s" "ordered ordp" "ordered ordq"
    and wf: "well_formed E ordp n cfg" and same: "\<And>u u'. us u = us u' \<Longrightarrow> forwards E u = forwards E u'"
  shows "\<exists>rank. ranked rank E s' (loaded_rules ordp cfg s') \<and>
    (\<forall>i \<in> set (rule_lazies (loaded_rules ordp cfg s')). (\<exists>k. map_of (pm_pool s') k = Some i) \<and> rank i < n)"
proof -
  let ?rules = "loaded_rules ordp cfg s'"
  have names: "\<forall>q. Some q \<in> set (cf_rules cfg) \<longrightarrow> set (cr_proxies q) \<subseteq> dom (map_of (cf_proxies cfg))"
    using wf by (simp add: well_formed_def)
  obtain rank where rank: "\<And>k u. map_of (cf_proxies cfg) k = Some (Some u) \<Longrightarrow> rank k < n"
    "\<And>k u a k'. map_of (cf_proxies cfg) k = Some (Some u) \<Longrightarrow> a \<in> set (forwards E u) \<Longrightarrow>
      k' \<in> set (addr_labels E (named_rules (ordp (cf_proxies cfg)) (cf_rules cfg)) a) \<Longrightarrow> rank k' < rank k"
    using wf unfolding well_formed_def by blast
  note ok = load_pool_ok [OF load]
  have pool: "\<exists>i. map_of (pm_pool s') k = Some i" if "k \<in> dom (map_of (cf_proxies cfg))" for k
    by (rule load_config_parts [OF load(2-4,1)]) (use that in fastforce)
  let ?rank = "\<lambda>i. rank (pd_label (pm_pds s' ! i))"
  have lazy: "\<exists>k u. map_of (cf_proxies cfg) k = Some (Some u) \<and> map_of (pm_pool s') k = Some i \<and> ?rank i = rank k \<and>
      forwards E (pd_url (pm_pds s' ! i)) = forwards E u" if i: "i \<in> set (rule_lazies ?rules)" for i
    using loaded_in_pool [OF load names i] pool_okD [OF ok] same by metis
  have "?rank j < ?rank i" if i: "i \<in> set (rule_lazies ?rules)" and j: "j \<in> set (waits_for E s' ?rules i)" for i j
  proof -
    obtain k u where k: "map_of (cf_proxies cfg) k = Some (Some u)" "?rank i = rank k" "forwards E (pd_url (pm_pds s' ! i)) = forwards E u"
      using lazy [OF i] by blast
    obtain a k' where a: "a \<in> set (forwards E u)" "j = the (map_of (pm_pool s') k')"
      "k' \<in> set (addr_labels E (named_rules (ordp (cf_proxies cfg)) (cf_rules cfg)) a)"
      using j k(3) by (auto simp: waits_for_def addr_lazies_named)
    have "pd_label (pm_pds s' ! j) = k'"
      using pool [OF addr_labels_dom [OF load(3) names a(3)]] pool_okD [OF ok] a(2) by fastforce
    then show ?thesis using rank(2) [OF k(1) a(1,3)] k(2) by simp
  qed
  then have "ranked ?rank E s' ?rules" by (simp add: ranked_def)
  moreover have "(\<exists>k. map_of (pm_pool s') k = Some i) \<and> ?rank i < n" if i: "i \<in> set (rule_lazies ?rules)" for i
    using lazy [OF i] rank(1) by fastforce
  ultimately show ?thesis by (intro exI [of _ ?rank]) blast
qed

lemma loaded_in_force:
  assumes load: "load_config (de_lower E) grow us ordp ordq cfg s = Some (None, s')" "pool_ok s" "ordered ordp" "ordered ordq"
    and wf: "well_formed E ordp n cfg" and same: "\<And>u u'. us u = us u' \<Longrightarrow> forwards E u = forwards E u'"
  shows "in_force E grow n s'"
proof -
  have names: "\<forall>q. Some q \<in> set (cf_rules cfg) \<longrightarrow> set (cr_proxies q) \<subseteq> dom (map_of (cf_proxies cfg))"
    using wf by (simp add: well_formed_def)
  have "pm_rs s' = Some (trie_of (de_lower E) grow (loaded_rules ordp cfg s'))"
    using load_config_named [OF load(2-4,1) names] by (simp add: loaded_rules_def)
  then show ?thesis unfolding in_force_def using loaded_ranked [OF assms] loaded_rules_no_empty_chain by metis
qed

lemma set_conns_fields [simp]:
  "ap_lz (set_conns is f st) i = (if i \<in> set is then f (ap_lz st i) else ap_lz st i)" "ap_fate (set_conns is f st) = ap_fate st"
  "ap_armed (set_conns is f st) = ap_armed st"
  by (simp_all add: set_conns_def)

lemma quiet_conns [simp]:
  "close_conn c = SConnecting \<longleftrightarrow> c = SConnecting" "reset_conn c = SConnecting \<longleftrightarrow> c = SConnecting"
  "close_conn c \<noteq> SOnline d" "reset_conn c = SOnline d \<longleftrightarrow> c = SOnline d"
  by (cases c; simp)+

text \<open>Whatever takes dialers down or forgets their failures keeps the invariant.\<close>

lemma life_inv_conns:
  assumes "life_inv E grow n y" and "f = close_conn \<or> f = reset_conn"
  shows "life_inv E grow n (y\<lparr>lf_st := set_conns is f (lf_st y)\<rparr>)"
  using assms by (auto simp: life_inv_def)

lemma life_inv_dial:
  assumes "life_inv E grow n y" and "env_answers E"
  shows "\<exists>y'. life_exec E load (Suc n) (DialOp ctx net addr) y = Some y' \<and> life_inv E grow n y'"
proof -
  let ?s = "lf_pm y"
  obtain r st where d: "app_dial E ?s (Suc n) ctx net addr (lf_st y) = (r, st)" by fastforce
  obtain rules rank where rules: "pm_rs ?s = Some (trie_of (de_lower E) grow rules)" "\<And>r. (r, Some (ToChain [])) \<notin> set rules"
    "\<And>i. i \<in> set (rule_lazies rules) \<Longrightarrow> (\<exists>k. map_of (pm_pool ?s) k = Some i) \<and> rank i < n" "ranked rank E ?s rules"
    using assms(1) unfolding life_inv_def in_force_def by blast
  have bal: "pool_balanced ?s []" and quiet: "ap_fate (lf_st y) = Going" "\<And>i. ap_lz (lf_st y) i \<noteq> SConnecting"
    using assms(1) by (simp_all add: life_inv_def)
  have done_st: "ap_fate st = Going" "\<And>i. ap_lz st i \<noteq> SConnecting"
    using dial_settled [OF rules(1,4) _ quiet, of n ctx net addr] rules(3) unfolding d by auto
  have "i < length (pm_pds ?s)" if "i \<in> set (rule_lazies rules)" for i
    using rules(3) [OF that] pool_okD [OF pool_balancedD(1) [OF bal]] by blast
  then have "no_timers (app_dial E ?s (Suc n))"
    using assms(1) by (intro app_dial_no_timers [OF rules(1)] no_idleD) (simp_all add: life_inv_def)
  from no_timersD [OF this d] have still: "ap_armed st = ap_armed (lf_st y)" .
  have "set (pm_closed ?s) \<inter> set (rule_lazies rules) = {}"
    using rules(3) pool_balancedD(4) [OF bal] by fastforce
  from app_dial_spares [OF rules(1) this] have "\<And>i. i \<in> set (pm_closed ?s) \<Longrightarrow> ap_lz st i = ap_lz (lf_st y) i"
    using d by (rule sparesD)
  moreover have "one_result r"
    using answersD [OF app_dial_answers [OF rules(1,2) assms(2)] d] done_st(1) by simp
  ultimately have "life_inv E grow n (y\<lparr>lf_st := st, lf_answers := lf_answers y @ [r]\<rparr>)"
    using assms(1) done_st by (auto simp: life_inv_def still)
  then show ?thesis by (simp add: d del: app_dial.simps)
qed

lemma life_inv_reload:
  assumes inv: "life_inv E grow n y" and "well_formed E ordp n cfg" and "ordered ordp" and "ordered ordq"
    and "\<And>u u'. us u = us u' \<Longrightarrow> forwards E u = forwards E u'"
  shows "\<exists>y'. life_exec E (load_config (de_lower E) grow us ordp ordq) m (ReloadOp cfg) y = Some y' \<and> life_inv E grow n y'"
proof -
  have bal: "pool_balanced (lf_pm y) []" using inv by (simp add: life_inv_def)
  note ok = pool_balancedD(1) [OF bal]
  obtain s' where s': "load_config (de_lower E) grow us ordp ordq cfg (lf_pm y) = Some (None, s')"
    using well_formed_loads [OF assms(2) ok assms(3)] by blast
  obtain cs where cs: "pm_closed s' = pm_closed (lf_pm y) @ cs"
    by (rule load_config_parts [OF ok assms(3,4) s']) blast
  have "pool_balanced s' []" "in_force E grow n s'"
    using load_config_balanced [OF s' bal assms(4)] loaded_in_force [OF s' ok assms(3,4,2,5)] by blast+
  moreover have "no_idle s'" using no_idle_load [OF s' _ assms(3,2)] inv by (simp add: life_inv_def)
  ultimately have "life_inv E grow n (y\<lparr>lf_pm := s', lf_st := set_conns cs close_conn (lf_st y)\<rparr>)"
    using inv cs by (auto simp: life_inv_def)
  then show ?thesis using s' cs by simp
qed

lemma life_inv_exec:
  assumes "life_inv E grow n y" and "\<And>c. a = ReloadOp c \<Longrightarrow> well_formed E ordp n c" and "ordered ordp" and "ordered ordq"
    and "env_answers E" and "\<And>u u'. us u = us u' \<Longrightarrow> forwards E u = forwards E u'"
  shows "\<exists>y'. life_exec E (load_config (de_lower E) grow us ordp ordq) (Suc n) a y = Some y' \<and> life_inv E grow n y'"
proof (cases a)
  case (DialOp ctx net addr)
  then show ?thesis using life_inv_dial [OF assms(1,5)] by blast
next
  case (ReloadOp cfg)
  then show ?thesis using life_inv_reload [OF assms(1,2) assms(3,4,6)] by blast
next
  case (LostOp i)
  then show ?thesis using life_inv_conns [OF assms(1)] by simp
next
  case (CloseOp i)
  then show ?thesis using life_inv_conns [OF assms(1)] assms(1) by simp
next
  case (ResetOp i)
  then show ?thesis using life_inv_conns [OF assms(1)] assms(1) by simp
next
  case (ConnEndsOp i)
  have "conn_ends (lf_pm y) i (lf_st y) = lf_st y"
    using assms(1) no_idleD [of "lf_pm y" i] by (simp add: life_inv_def conn_ends_def timer_idle split: conn_spec.split)
  then show ?thesis using ConnEndsOp assms(1) by simp
next
  case (IdleOp i)
  have "idle i (lf_st y) = lf_st y" using assms(1) by (simp add: life_inv_def idle_def)
  then show ?thesis using IdleOp assms(1) by simp
qed

definition is_dial :: "'x life_op \<Rightarrow> bool" where
  "is_dial a = (case a of DialOp ctx net addr \<Rightarrow> True | _ \<Rightarrow> False)"

lemma life_exec_answers:
  "life_exec E load n a y = Some y' \<Longrightarrow>
   length (lf_answers y') = length (lf_answers y) + (if is_dial a then 1 else 0)"
  by (cases a) (auto simp: is_dial_def case_prod_beta Let_def simp del: app_dial.simps split: if_splits)

lemma life_run_answers:
  "life_run E load n as y = Some y' \<Longrightarrow> length (lf_answers y') = length (lf_answers y) + length (filter is_dial as)"
proof (induction "as" arbitrary: y)
  case (Cons a as)
  then obtain y1 where "life_exec E load n a y = Some y1" "life_run E load n as y1 = Some y'" by (auto simp: bind_eq_Some_conv)
  then show ?case using Cons.IH [of y1] life_exec_answers [of E load n a y y1] by simp
qed simp

section \<open>Properties\<close>

text \<open>C3: In every use of the application, one operation after the other, whose configurations are well-formed (each rule names proxies of its own
  configuration, no URL or rule is null, no proxy reaches its server through itself, and every proxy's URL turns the idle timeout off with
  \<open>timeout=0\<close>), nothing panics, every dial comes back with a connection or an error and not both, and a dialer that was closed by a reload
  is never connected again.\<close>

theorem well_formed_app_serves:
  assumes "ordered ordp" and "ordered ordq" and "env_answers E" and "\<And>u u'. us u = us u' \<Longrightarrow> forwards E u = forwards E u'"
    and "well_formed E ordp n cfg" and "load_config (de_lower E) grow us ordp ordq cfg start_pacman = Some (None, s)"
    and "\<And>c. ReloadOp c \<in> set ops \<Longrightarrow> well_formed E ordp n c"
  shows "\<exists>y. life_run E (load_config (de_lower E) grow us ordp ordq) (Suc n) ops (life_start s w) = Some y \<and>
    length (lf_answers y) = length (filter is_dial ops) \<and> (\<forall>(c, e) \<in> set (lf_answers y). (c = None) \<noteq> (e = None)) \<and>
    ap_fate (lf_st y) = Going \<and> (\<forall>i \<in> set (pm_closed (lf_pm y)). \<forall>d. ap_lz (lf_st y) i \<noteq> SOnline d)"
proof -
  have start: "pool_balanced start_pacman []" by (simp add: pool_balanced_def pool_ok_def start_pacman_def)
  have "pool_balanced s []" "in_force E grow n s"
    using load_config_balanced [OF assms(6) start assms(2)] loaded_in_force [OF assms(6) start_pool_ok assms(1,2,5,4)] by blast+
  moreover have "no_idle s" by (rule no_idle_load [OF assms(6) _ assms(1,5)]) (simp add: no_idle_def start_pacman_def)
  ultimately have inv: "life_inv E grow n (life_start s w)" by (simp add: life_inv_def life_start_def)
  obtain y where y: "life_run E (load_config (de_lower E) grow us ordp ordq) (Suc n) ops (life_start s w) = Some y" "life_inv E grow n y"
    using life_runs.run_good_ops [where A = "{a. \<forall>c. a = ReloadOp c \<longrightarrow> well_formed E ordp n c}" and J = "life_inv E grow n", OF _ _ inv]
      life_inv_exec [where us = us, OF _ _ assms(1-4)] assms(7) by blast
  have "length (lf_answers y) = length (filter is_dial ops)"
    using life_run_answers [OF y(1)] by (simp add: life_start_def)
  moreover have "\<forall>(c, e) \<in> set (lf_answers y). (c = None) \<noteq> (e = None)"
    using y(2) by (auto simp: life_inv_def one_result_def)
  ultimately show ?thesis using y by (auto simp: life_inv_def)
qed

definition sample_text :: "url \<Rightarrow> string" where
  "sample_text u = (if u_scheme u = ''ssh'' then ''s'' else if u_scheme u = ''socks5'' then ''5'' else ''-'') @ u_host u"

lemma sample_text_forwards: "sample_text u = sample_text u' \<Longrightarrow> forwards sample_dial_env u = forwards sample_dial_env u'"
  by (auto simp: sample_text_def forwards_def sample_dial_env_def ssh_addr_def split: if_splits)

definition quiet_url :: url where
  "quiet_url = empty_url\<lparr>u_raw_query := ''timeout=0''\<rparr>"

lemma quiet_timeout [simp]: "pool_timeout (quiet_url\<lparr>u_scheme := x, u_host := h\<rparr>) = 0" "pool_timeout quiet_url = 0"
proof -
  have q: "parse_query ''timeout=0'' = [(''timeout'', [''0''])]" by code_simp
  have s: "split_sign ''0'' = (False, ''0'')" "digits_val ''0'' = 0" by code_simp+
  have a: "atoi ''0'' = Inr 0" by (simp add: atoi_def parse_int_as_def s is_digit_def)
  show "pool_timeout (quiet_url\<lparr>u_scheme := x, u_host := h\<rparr>) = 0" "pool_timeout quiet_url = 0"
    by (simp_all add: pool_timeout_def url_query_def quiet_url_def q values_get_def a duration_mult_def)
qed

definition quiet_routing :: config where
  "quiet_routing = sample_routing\<lparr>cf_proxies := [(''a'', Some quiet_url)]\<rparr>"

lemma sample_well_formed: "well_formed sample_dial_env AList.clearjunk 1 quiet_routing"
proof -
  have "forwards sample_dial_env quiet_url = []" by (simp add: forwards_def sample_dial_env_def quiet_url_def empty_url_def)
  then show ?thesis by (auto simp: well_formed_def quiet_routing_def sample_routing_def sample_config_def intro!: exI [of _ "\<lambda>_. 0"] split: if_splits)
qed

lemma well_formed_app_serves_witness:
  "\<exists>s y. load_config (\<lambda>x. x) (+) sample_text AList.clearjunk AList.clearjunk quiet_routing start_pacman = Some (None, s) \<and>
    life_run sample_dial_env (load_config (\<lambda>x. x) (+) sample_text AList.clearjunk AList.clearjunk) 2
      [DialOp () ''tcp'' ''h:22'', ReloadOp quiet_routing, ResetOp 0, DialOp () ''tcp'' ''h:22'', ConnEndsOp 0, IdleOp 0, CloseOp 0, DialOp () ''tcp'' '':'']
      (life_start s ()) = Some y \<and> length (lf_answers y) = 3"
proof -
  have lower: "de_lower sample_dial_env = (\<lambda>x. x)" by (simp add: sample_dial_env_def)
  obtain s where s: "load_config (de_lower sample_dial_env) (+) sample_text AList.clearjunk AList.clearjunk quiet_routing start_pacman = Some (None, s)"
    using well_formed_loads [OF sample_well_formed start_pool_ok ordered_clearjunk] by blast
  have "env_answers sample_dial_env" by (simp add: env_answers_def answers_def sample_dial_env_def)
  from well_formed_app_serves [OF ordered_clearjunk ordered_clearjunk this sample_text_forwards sample_well_formed s,
      of "[DialOp () ''tcp'' ''h:22'', ReloadOp quiet_routing, ResetOp 0, DialOp () ''tcp'' ''h:22'', ConnEndsOp 0, IdleOp 0, CloseOp 0, DialOp () ''tcp'' '':'']" "()"]
  obtain y where "life_run sample_dial_env (load_config (de_lower sample_dial_env) (+) sample_text AList.clearjunk AList.clearjunk) (Suc 1)
      [DialOp () ''tcp'' ''h:22'', ReloadOp quiet_routing, ResetOp 0, DialOp () ''tcp'' ''h:22'', ConnEndsOp 0, IdleOp 0, CloseOp 0, DialOp () ''tcp'' '':'']
      (life_start s ()) = Some y" "length (lf_answers y) = 3"
    using sample_well_formed by (fastforce simp: is_dial_def simp del: life_run.simps)
  with s show ?thesis unfolding lower Suc_1 by blast
qed

text \<open>With an idle timeout the same does not hold: once a connection through an online dialer has ended and nobody dials through it until the
  timeout, the application panics.\<close>

lemma idle_app_panics:
  assumes "ap_lz (lf_st y) i = SOnline d" and "i < length (pm_pds (lf_pm y))" and "0 < pd_timeout (pm_pds (lf_pm y) ! i)"
  shows "\<exists>y'. life_run E load n [ConnEndsOp i, IdleOp i] y = Some y' \<and> ap_fate (lf_st y') = Panicked"
  using assms by (simp add: conn_ends_def timer_def idle_def Let_def)

section \<open>Clients at the same time\<close>

text \<open>Which lazy dialers the builder of one may wait for, under the rules in force. Dialers that no rule names are not dialled.\<close>

definition app_waits :: "('x, 'c, 'd, 'k, 'w) dial_env \<Rightarrow> pacman \<Rightarrow> (string \<times> target option) list \<Rightarrow> nat \<Rightarrow> nat list" where
  "app_waits E s rules i = (if i \<in> set (rule_lazies rules) then waits_for E s rules i else [])"


text \<open>Proxy \<open>a\<close> is an SSH server \<open>h\<close> that is reached through proxy \<open>b\<close>.\<close>

definition chained_routing :: config where
  "chained_routing = sample_config\<lparr>cf_proxies := [(''a'', Some (quiet_url\<lparr>u_scheme := ''ssh'', u_host := ''h''\<rparr>)), (''b'', Some quiet_url)],
     cf_rules := [Some \<lparr>cr_hosts = [''h''], cr_proxies = [''b'']\<rparr>]\<rparr>"

lemma chained_kinds: "rule_kind ''.b.pacman'' = ZoneApex ''b.pacman''" "canonocalize_host ul ''b.pacman'' = ''b.pacman''"
proof -
  show "rule_kind ''.b.pacman'' = ZoneApex ''b.pacman''" by code_simp
qed (use canonocalize_graphic [of "''b.pacman''" ul] in \<open>simp add: lower_char_def\<close>)

lemma chained_rules:
  "named_rules (AList.clearjunk (cf_proxies chained_routing)) (cf_rules chained_routing) =
    [(''.a.pacman'', Some (Label ''a'')), (''.b.pacman'', Some (Label ''b'')), (''h'', Some (Through [''b'']))]"
  by (simp add: named_rules_def chained_routing_def sample_config_def)

lemma chained_route:
  "route_value (\<lambda>x. x) [(''.a.pacman'', Some (Label ''a'')), (''.b.pacman'', Some (Label ''b'')), (''h'', Some (Through [''b'']))] ''h'' None =
    Some (Through [''b''])"
  by (simp add: route_value_def rules_match_def sample_rule_kinds chained_kinds sample_hosts rule_map_def)

lemma chained_labels:
  "addr_labels sample_dial_env (named_rules (AList.clearjunk (cf_proxies chained_routing)) (cf_rules chained_routing)) ''h:22'' = [''b'']"
  by (simp add: chained_rules addr_labels_def sample_ssh_addr sample_dial_env_def hosts_override_def chained_route)

lemma chained_forwards:
  "forwards sample_dial_env (quiet_url\<lparr>u_scheme := ''ssh'', u_host := ''h''\<rparr>) = [''h:22'']" "forwards sample_dial_env quiet_url = []"
proof -
  have "ssh_addr (quiet_url\<lparr>u_scheme := ''ssh'', u_host := ''h''\<rparr>) = ''h:22''"
    using sample_ssh_addr(1) [of "''ssh''"] by (simp add: ssh_addr_def)
  then show "forwards sample_dial_env (quiet_url\<lparr>u_scheme := ''ssh'', u_host := ''h''\<rparr>) = [''h:22'']" "forwards sample_dial_env quiet_url = []"
    by (simp_all add: forwards_def) (simp_all add: sample_dial_env_def quiet_url_def empty_url_def)
qed

lemma chained_well_formed: "well_formed sample_dial_env AList.clearjunk 2 chained_routing"
  unfolding well_formed_def
proof (intro conjI exI [of _ "\<lambda>k. if k = ''a'' then 1 else 0"])
  show "\<forall>k u. map_of (cf_proxies chained_routing) k = Some (Some u) \<longrightarrow> (if k = ''a'' then 1 else 0) < (2 :: nat) \<and>
    (\<forall>a \<in> set (forwards sample_dial_env u). \<forall>k' \<in> set (addr_labels sample_dial_env
      (named_rules (AList.clearjunk (cf_proxies chained_routing)) (cf_rules chained_routing)) a).
      (if k' = ''a'' then 1 else 0) < (if k = ''a'' then 1 else (0 :: nat)))"
    using chained_labels chained_forwards by (auto simp: chained_routing_def sample_config_def split: if_splits)
qed (auto simp: chained_routing_def sample_config_def ran_def split: if_splits)

lemma chained_load:
  "\<exists>s'. load_config (de_lower sample_dial_env) (+) sample_text AList.clearjunk AList.clearjunk chained_routing start_pacman = Some (None, s') \<and>
     pm_pds s' = [new_pooled_dialer ''a'' (quiet_url\<lparr>u_scheme := ''ssh'', u_host := ''h''\<rparr>), new_pooled_dialer ''b'' quiet_url] \<and>
     map_of (pm_pool s') ''a'' = Some 0 \<and> map_of (pm_pool s') ''b'' = Some 1"
  by (simp add: load_config_def chained_routing_def sample_config_def start_pacman_def run_deferred_def Let_def case_prod_beta)

lemma chained_waits:
  assumes "map_of (pm_pool s') ''b'' = Some 1" and "map_of (pm_pool s') ''a'' = Some 0"
    and "pm_pds s' = [new_pooled_dialer ''a'' (quiet_url\<lparr>u_scheme := ''ssh'', u_host := ''h''\<rparr>), new_pooled_dialer ''b'' quiet_url]"
  shows "app_waits sample_dial_env s' (loaded_rules AList.clearjunk chained_routing s') 0 = [1]"
proof -
  have "0 \<in> set (rule_lazies (loaded_rules AList.clearjunk chained_routing s'))"
    using assms(2) by (simp add: rule_lazies_def loaded_rules_def chained_rules)
  moreover have "addr_lazies sample_dial_env (loaded_rules AList.clearjunk chained_routing s') ''h:22'' = [1]"
    unfolding addr_lazies_named chained_labels using assms(1) by simp
  ultimately show ?thesis by (simp add: app_waits_def waits_for_def assms(3) chained_forwards)
qed


end
