(* ===== verification/Help.thy ===== *)
theory Help
  imports Pac Notify
begin

text \<open>
  The help page of \<open>docs/embed.go\<close> and the web view of \<open>pkg/menuet/webview.go\<close> that shows it, and the log level that is
  given on the command line (\<open>pkg/flagutil/slog.go\<close> over \<open>slog.Level\<close>). The README is put into a script of the page as a
  JavaScript string: it cannot end the script element and reads back as it was.
\<close>

section \<open>The help page\<close>

text \<open>\<open>css\<close>, \<open>js\<close> and \<open>readme\<close> are the embedded files.\<close>

definition docs_head :: "string \<Rightarrow> string \<Rightarrow> string" where
  "docs_head css js =
     line ''<!DOCTYPE html>'' @ line (''<html lang='' @ [CHR 0x22] @ ''en'' @ [CHR 0x22] @ ''>'') @ line ''<head>'' @
     line (tabs 1 @ ''<meta charset='' @ [CHR 0x22] @ ''UTF-8'' @ [CHR 0x22] @ ''>'') @
     line (tabs 1 @ ''<meta name='' @ [CHR 0x22] @ ''viewport'' @ [CHR 0x22] @ '' content='' @ [CHR 0x22] @
       ''width=device-width, initial-scale=1.0'' @ [CHR 0x22] @ ''>'') @
     line (tabs 1 @ ''<title>Documentation</title>'') @ line (tabs 1 @ ''<style>'') @
     line (tabs 2 @ ''html,'') @ line (tabs 2 @ ''body {'') @ line (tabs 3 @ ''padding: 15px;'') @ line (tabs 3 @ ''margin: 0;'') @
     line (tabs 3 @ ''overscroll-behavior: none;'') @ line (tabs 2 @ ''}'') @ line (tabs 1 @ ''</style>'') @
     line (tabs 1 @ ''<style>'' @ css @ ''</style>'') @ line ''</head>'' @
     line (''<body class='' @ [CHR 0x22] @ ''markdown-body'' @ [CHR 0x22] @ ''>'') @
     line (tabs 1 @ ''<div id='' @ [CHR 0x22] @ ''content'' @ [CHR 0x22] @ ''></div>'') @
     line (tabs 1 @ ''<script>'' @ js @ ''</script>'') @ line (tabs 1 @ ''<script>'') @
     tabs 2 @ ''document.getElementById('' @ [CHR 0x27] @ ''content'' @ [CHR 0x27] @ '').outerHTML = marked.parse(''"

definition docs_tail :: string where
  "docs_tail = line '');'' @ line (tabs 1 @ ''</script>'') @ line ''</body>'' @ ''</html>''"

definition docs_html :: "string \<Rightarrow> string \<Rightarrow> string \<Rightarrow> string" where
  "docs_html css js readme = docs_head css js @ js_string readme @ docs_tail"

text \<open>\<open>WebView\<close>: the text goes through a C string, which is freed afterwards.\<close>

datatype view_event = OpenWebView string | FreeString

definition web_view :: "string \<Rightarrow> view_event list" where
  "web_view html = [OpenWebView (c_to_go html), FreeString]"

text \<open>No character that could end the script element, or a C string, is left as it is.\<close>

definition html_safe :: "string \<Rightarrow> bool" where
  "html_safe s \<longleftrightarrow> CHR ''<'' \<notin> set s \<and> CHR 0x00 \<notin> set s"

lemma html_safe_simps [simp]:
  "html_safe []" "html_safe (s @ t) \<longleftrightarrow> html_safe s \<and> html_safe t"
  "html_safe (c # s) \<longleftrightarrow> c \<noteq> CHR ''<'' \<and> c \<noteq> CHR 0x00 \<and> html_safe s"
  by (auto simp: html_safe_def)

lemma json_hex_safe: "n < 16 \<Longrightarrow> json_hex n \<noteq> CHR ''<'' \<and> json_hex n \<noteq> CHR 0x00"
proof -
  assume "n < 16"
  then have "json_hex n \<in> set ''0123456789abcdef''" unfolding json_hex_def by (intro nth_mem) simp
  then show ?thesis by auto
qed

lemma escape_ascii_safe: "html_safe (escape_ascii c)"
proof -
  have "(byte_of c :: nat) < 256" by simp
  then have "byte_of c div 16 < (16 :: nat)" "byte_of c mod 16 < (16 :: nat)" by (simp_all add: less_mult_imp_div_less)
  moreover have "c = CHR ''<'' \<Longrightarrow> byte_of c = (0x3C :: nat)" "c = CHR 0x00 \<Longrightarrow> byte_of c = (0 :: nat)" by simp_all
  ultimately show ?thesis by (auto simp: escape_ascii_def Let_def json_hex_safe)
qed

lemma high_safe: "list_all (\<lambda>c. 128 \<le> (byte_of c :: nat)) s \<Longrightarrow> html_safe s"
  by (induction s) auto

lemma json_escape_safe: "html_safe (json_escape s)"
proof (induction s rule: json_escape.induct)
  case (2 c s)
  show ?case
  proof (cases "(byte_of c :: nat) < 128")
    case True
    then show ?thesis using 2(1) by (simp add: json_escape.simps escape_ascii_safe)
  next
    case high: False
    show ?thesis
    proof (cases "utf8_width (c # s)")
      case None
      then show ?thesis using 2(2) high by (simp add: json_escape.simps)
    next
      case (Some n)
      have "html_safe (take n (c # s))" using utf8_width_high [OF Some] by (rule high_safe)
      then have "html_safe (escape_rune (take n (c # s)))" by (simp add: escape_rune_def)
      then show ?thesis using 2(3) [OF high Some] high Some by (simp add: json_escape.simps)
    qed
  qed
qed (simp add: json_escape.simps)

lemma js_string_safe: "html_safe (js_string s)"
  by (simp add: js_string_def json_escape_safe)

section \<open>The log level\<close>

text \<open>\<open>slog.Level.UnmarshalText\<close>, which \<open>UnmarshalFlag\<close> calls: a name, in any case, and an offset; levels are 64-bit numbers.\<close>

fun level_of_name :: "string \<Rightarrow> int option" where
  "level_of_name s = (if s = ''DEBUG'' then Some (- 4) else if s = ''INFO'' then Some 0
     else if s = ''WARN'' then Some 4 else if s = ''ERROR'' then Some 8 else None)"

definition unmarshal_flag :: "(string \<Rightarrow> string) \<Rightarrow> string \<Rightarrow> int res" where
  "unmarshal_flag uu value =
     (let name = takeWhile (\<lambda>c. c \<notin> {CHR ''+'', CHR ''-''}) value; rest = dropWhile (\<lambda>c. c \<notin> {CHR ''+'', CHR ''-''}) value;
          wrap = ErrWrap (''slog: level string '' @ [CHR 0x22] @ value @ [CHR 0x22] @ '': '') in
      case (if rest = [] then Inr 0 else atoi rest) of
        Inl e \<Rightarrow> Inl (wrap e)
      | Inr offset \<Rightarrow> (case level_of_name (to_upper uu name) of
          None \<Rightarrow> Inl (wrap (ErrText ''unknown name''))
        | Some l \<Rightarrow> Inr (signed_take_bit 63 (l + offset))))"

text \<open>\<open>Level.String\<close>.\<close>

definition level_text :: "string \<Rightarrow> int \<Rightarrow> string" where
  "level_text base val = (if val = 0 then base else base @ (if 0 < val then ''+'' else []) @ format_int val)"

definition level_string :: "int \<Rightarrow> string" where
  "level_string l = (if l < 0 then level_text ''DEBUG'' (l + 4) else if l < 4 then level_text ''INFO'' l
     else if l < 8 then level_text ''WARN'' (l - 4) else level_text ''ERROR'' (l - 8))"

lemma atoi_signed:
  assumes "- (2 ^ 63) \<le> v" and "v < 2 ^ 63" and "v \<noteq> 0"
  shows "atoi ((if 0 < v then ''+'' else []) @ format_int v) = Inr v"
proof (cases "0 < v")
  case True
  then have "nat v < 2 ^ 63" using assms(2) by (simp add: nat_less_iff)
  then show ?thesis using True by (simp add: atoi_def parse_int_as_def format_int_def split_sign_def nat_digits_all_digits)
next
  case False
  then have "nat (- v) \<le> 2 ^ 63" using assms(1) by (simp add: nat_le_iff)
  then show ?thesis using False assms(3)
    by (simp add: atoi_def parse_int_as_def format_int_def split_sign_minus nat_digits_all_digits)
qed

lemma unmarshal_parts:
  assumes "\<forall>c \<in> set name. c \<notin> {CHR ''+'', CHR ''-''}" and "rest = [] \<or> hd rest \<in> {CHR ''+'', CHR ''-''}"
    and "level_of_name (to_upper uu name) = Some l" and "(if rest = [] then Inr 0 else atoi rest) = Inr v"
  shows "unmarshal_flag uu (name @ rest) = Inr (signed_take_bit 63 (l + v))"
proof -
  have t: "takeWhile (\<lambda>c. c \<notin> {CHR ''+'', CHR ''-''}) (name @ rest) = name" "dropWhile (\<lambda>c. c \<notin> {CHR ''+'', CHR ''-''}) (name @ rest) = rest"
    using assms(1,2) by (cases rest; auto simp: takeWhile_append2 dropWhile_append2 takeWhile_eq_all_conv dropWhile_eq_Nil_conv)+
  show ?thesis unfolding unmarshal_flag_def t Let_def assms(3,4) by simp
qed

lemma unmarshal_level_text:
  assumes "level_of_name base = Some b" and "- (2 ^ 63) \<le> v" and "v < 2 ^ 63" and "- (2 ^ 63) \<le> b + v" and "b + v < 2 ^ 63"
  shows "unmarshal_flag uu (level_text base v) = Inr (b + v)"
proof -
  let ?rest = "if v = 0 then [] else (if 0 < v then ''+'' else []) @ format_int v"
  have base: "base \<in> {''DEBUG'', ''INFO'', ''WARN'', ''ERROR''}" using assms(1) by (simp split: if_splits)
  have "unmarshal_flag uu (base @ ?rest) = Inr (signed_take_bit 63 (b + v))"
  proof (rule unmarshal_parts)
    show "\<forall>c \<in> set base. c \<notin> {CHR ''+'', CHR ''-''}" using base by auto
    have "to_upper uu base = base" using base by (auto simp: to_upper_def ascii_string_def upper_char_def)
    then show "level_of_name (to_upper uu base) = Some b" using assms(1) by (simp del: level_of_name.simps)
    show "?rest = [] \<or> hd ?rest \<in> {CHR ''+'', CHR ''-''}" by (auto simp: format_int_def)
    show "(if ?rest = [] then Inr 0 else atoi ?rest) = Inr v"
      using atoi_signed [OF assms(2,3)] by (simp add: format_int_def)
  qed
  moreover have "signed_take_bit 63 (b + v) = b + v" using assms(4,5) by (intro signed_take_bit_int_eq_self) simp_all
  moreover have "level_text base v = base @ ?rest" by (simp add: level_text_def)
  ultimately show ?thesis by simp
qed

section \<open>Properties\<close>



text \<open>a log level that was printed is read back, over all 64-bit levels.\<close>

theorem level_roundtrip:
  assumes "- (2 ^ 63) \<le> l" and "l < 2 ^ 63"
  shows "unmarshal_flag uu (level_string l) = Inr l"
proof -
  consider "l < 0" | "0 \<le> l" "l < 4" | "4 \<le> l" "l < 8" | "8 \<le> l" by linarith
  then show ?thesis
  proof cases
    case 1
    then show ?thesis using assms unmarshal_level_text [of "''DEBUG''" "- 4" "l + 4" uu] by (simp add: level_string_def)
  next
    case 2
    then show ?thesis using assms unmarshal_level_text [of "''INFO''" 0 l uu] by (simp add: level_string_def)
  next
    case 3
    then show ?thesis using assms unmarshal_level_text [of "''WARN''" 4 "l - 4" uu] by (simp add: level_string_def)
  next
    case 4
    then show ?thesis using assms unmarshal_level_text [of "''ERROR''" 8 "l - 8" uu] by (simp add: level_string_def)
  qed
qed

lemma level_roundtrip_witness: "unmarshal_flag id (level_string (- 3)) = Inr (- 3)"
  by (rule level_roundtrip) simp_all

end
