(* ===== verification/Spec2Isabelle.thy ===== *)
theory Spec2Isabelle
  imports Dialers Throttle EnvDecode Hostscan OcClient Notify Menu Mux AppConfig PacMan PoolLocks
    Pac HttpProxy SshProxy NetStack OcDialer Cmd AppRun Tools PacketDump LazySpec LazyPool Routing AppDial AppServe AppLife Help
begin

text \<open>
  PACman (\<open>src/packages/pacman/base/src\<close>) is a local proxy. It listens on one port, tells SOCKS5, SSH and HTTP apart by the
  first bytes, and dials what a client asks for through a dialer that a rule of its configuration names: an SSH
  server, a SOCKS or HTTP proxy, or an openconnect VPN in user space. Beside it stand two small programs,
  \<open>launch-socket-server\<close> and \<open>single-serve\<close>. This library models the Go code of the three; the rest of the repository is
  Nix code and host configuration.

  \<^bold>\<open>How the parts interact.\<close>
  \<open>main.go\<close> and \<open>cmd\<close> choose a command. \<open>cmd proxy\<close> runs \<open>internal/app\<close>: \<open>LoadConfig\<close> turns the configuration
  into a pool of dialers and a \<open>dialer.RuleSet\<close>, which it swaps into the application's \<open>dialer.ByHost\<close>; a SIGHUP loads it again.
  A connection comes through \<open>netutil.MuxServer\<close> to \<open>httpproxy\<close>, \<open>sshproxy\<close> or a SOCKS server, which dial through
  that \<open>ByHost\<close>. It looks the host up in the \<open>trie\<close> and calls a \<open>dialer.Lazy\<close> of the pool, alone, in a \<open>dialer.Chain\<close> or behind a
  \<open>dialer.RewritingDialer\<close>. A lazy dialer is built at its first use, through the same \<open>ByHost\<close>; those of openconnect run
  \<open>pkg/openconnect\<close> with the callbacks of \<open>pkg/dialer/oc\<close>, which ask the user through \<open>notify\<close> and \<open>menuet\<close>, and a
  network stack of \<open>stackutil\<close>. The status menu shows the pool.

  \<^bold>\<open>Conventions.\<close>
  Go strings are byte strings (\<open>string\<close>), errors are values of \<open>goerr\<close>, a result with an error is a sum (\<open>res\<close>) or, where both
  halves may be nil, a pair. A panic is \<open>None\<close> or \<open>Panic\<close>. Maps are association lists whose iteration order is an
  argument. Machine integers are words, or integers with \<open>signed_take_bit\<close> where the code converts. Shared objects are numbers into a list of the state. A
  goroutine's critical sections are steps: a list of steps is one interleaving. What is not in the repository (the C libraries, gVisor, the SSH and
  YAML packages, the operating system, the browser) is a parameter, a function on its own state.

  \<^bold>\<open>Theories, sources and state.\<close>
    \<^item> \<open>Prelude\<close>, \<open>GoStrings\<close>: what all share, and Go's \<open>strings\<close> and \<open>strconv\<close>. The locales \<open>runs\<close>, \<open>safe_runs\<close>, \<open>guarded_runs\<close> (sequences
      of operations that keep an invariant) and \<open>simulation\<close> are interpreted by the components that have them.
    \<^item> \<open>NetAddr\<close> (\<open>pkg/netutil/encoding.go\<close>): host and port, IP addresses, networks. Printers and parsers are instances of \<open>text_codec\<close>.
    \<^item> \<open>HostTrie\<close>, \<open>CidrTable\<close>, \<open>RuleTrie\<close> (\<open>pkg/trie\<close>, \<open>pkg/dialer/ruleset.go\<close>): the state is the code's three tables; \<open>rule_table\<close> is the
      law that a client relies on: a lookup depends on the rules added and not on how the tables hold them.
    \<^item> \<open>SyncUtil\<close>, \<open>Throttle\<close> (\<open>pkg/syncutil\<close>, \<open>pkg/throttle\<close>, \<open>pkg/iterutil\<close>): shared maps with the contract \<open>shared_map\<close>, signals,
      weak maps, timers and counters against a clock.
    \<^item> \<open>Dialers\<close> (\<open>pkg/dialer\<close>, \<open>pkg/netutil/resolver.go\<close>): dialers as functions on the state of the world, and their combinators.
    \<^item> \<open>LazyDialer\<close>, \<open>LazySpec\<close>, \<open>LazyPool\<close> (\<open>pkg/dialer/lazy.go\<close>): the fields with the goroutines, connections, sleepers and subscribers
      around them; the machine of four states that they refine; and many of them, built through each other.
    \<^item> \<open>AppConfig\<close>, \<open>PacMan\<close>, \<open>AppRun\<close>, \<open>PoolLocks\<close> (\<open>internal/app\<close>): the configuration and its decoding; the pool, the rule set and
      \<open>LoadConfig\<close>; the loop of reloads and the status menu; the order in which goroutines take locks.
    \<^item> \<open>Routing\<close>, \<open>AppDial\<close>, \<open>AppServe\<close>, \<open>AppLife\<close> (composition): the rules in force read as dialers; a dial through rules, lazy
      dialers and, for their servers, the rules again; what the servers rely on when they dial; and the application in use, a sequence of
      dials, reloads, ends of sessions and menu clicks. \<open>dial_effect\<close> is the locale of what a dial may do to the state.
    \<^item> \<open>Mux\<close> (\<open>pkg/netutil\<close>), \<open>HttpProxy\<close>, \<open>Pac\<close> (\<open>pkg/httpproxy\<close>), \<open>SshProxy\<close> (\<open>pkg/sshproxy\<close>, \<open>pkg/dialer/ssh.go\<close>):
      the listening side, with the resources of a connection as a log of opens and closes.
    \<^item> \<open>VpnInfo\<close>, \<open>OcClient\<close>, \<open>OcDialer\<close>, \<open>Hostscan\<close> (\<open>pkg/openconnect\<close>, \<open>pkg/dialer/oc\<close>): sessions in a heap with the handle table,
      the connection around one, its dialer, and the host scan with its marshaler.
    \<^item> \<open>NetStack\<close>, \<open>PacketDump\<close> (\<open>pkg/stackutil\<close>, \<open>pkg/netutil/packet.go\<close>): the tunnel's dialer, packet loops and logs.
    \<^item> \<open>Notify\<close>, \<open>Menu\<close>, \<open>Help\<close> (\<open>pkg/notify\<close>, \<open>pkg/menuet\<close>, \<open>docs\<close>, \<open>pkg/flagutil\<close>): response channels and who owns them, menus and
      the keys of their items, the help page, log levels.
    \<^item> \<open>EnvDecode\<close>, \<open>Cmd\<close>, \<open>Tools\<close> (\<open>pkg/env\<close>, \<open>main.go\<close>, \<open>cmd\<close>, \<open>pkg/launch\<close>, \<open>pkg/xdg\<close>, \<open>pkg/contextutil\<close>,
      \<open>launch-socket-server\<close>, \<open>single-serve\<close>): the commands and the small programs.

  \<^bold>\<open>What the lemmas show.\<close>
    \<^item> Routing: the tables refine the list of rules, a CIDR lookup is longest-prefix match for every choice of capacities
      by the runtime, \<open>ByHost\<close> dials what they say, and after \<open>LoadConfig\<close> that is what the configuration says by name. The
      PAC script and the \<open>check\<close> command agree with the rules as far as their theorems state.
    \<^item> Lazy dialers: no interleaving panics, a sleeping caller's waker is on its way, the goroutines refine the four-state
      machine, and each dialer built is closed at most once. With an idle timeout two theorems show what goes wrong.
    \<^item> Dials through lazy dialers come back when no proxy waits for itself; the theorems beside it show that one that does sleeps
      for ever, or recurses until the stack ends. A dial that comes back has a connection or an error, never both or neither, so
      that no request meets a nil connection under a loaded configuration. Put together: in every use of the application whose
      configurations are well-formed nothing panics, every dial is answered and no closed dialer comes back; and clients that dial at the
      same time cannot deadlock the lazy dialers, of which any number are being built through each other.
    \<^item> Resources: pooled dialers, sessions, tunnels, forwarded channels, notifications and signals are released exactly once,
      error paths included; where the code does not achieve it a theorem exhibits the failure.
    \<^item> Text: host and port, URLs given in parts, JavaScript strings, packet dumps and log levels read back; the
      marshaler equals printing the value.

  \<^bold>\<open>Bounds and fuel.\<close>
  \<open>app_dial E s n\<close> allows \<open>n\<close> nested calls of \<open>ByHost.DialContext\<close>; its result is \<open>TooDeep\<close> when they do not suffice.
  \<open>n + 1\<close> are enough when the lazy dialers have ranks below \<open>n\<close>, and no \<open>n\<close> is enough for a cycle: both are theorems of
  \<open>AppDial\<close>. Runs, schedules and event lists bound nothing: the theorems hold for all of them. Every other recursion terminates
  on its argument.

  \<^bold>\<open>Not modelled.\<close>
  \<open>pkg/openconnect/logging.go\<close>, \<open>pkg/menuet/const.go\<close> and \<open>formatting.go\<close> only name constants of C headers. Objective-C and C files, Nix code,
  shell scripts, vendored packages and tests are not the program's Go code. In \<open>AppDial\<close> the dials of other clients, the ends of
  contexts and idle timeouts are left to \<open>LazyDialer\<close>; \<open>oc.NewDialer\<close> is a parameter there and a theory of its own (\<open>OcDialer\<close>).
  The Go scheduler is any interleaving of the steps, its fairness nowhere assumed.
\<close>

end
